(* ===== verification/Asyik_Prelude.thy ===== *)
theory Asyik_Prelude
  imports Main "HOL-Library.Word"
begin

text \<open>
  Shared vocabulary of the development: the integer types of the C++ code, the fragment of
  \<open>std::string\<close> and of \<open>std::map\<close> that several components use, and the lemmas about them that
  carry the component proofs. The collections declared here are
  \<^item> \<open>std_string\<close>: equations for string searching and trimming,
  \<^item> \<open>std_map\<close>: equations for lookups in association lists.
\<close>

named_theorems std_string \<open>searching and trimming strings\<close>
named_theorems std_map \<open>association lists standing for std::map\<close>

section \<open>Integers\<close>

text \<open>
  \<open>unsigned int\<close> and \<open>uint32_t\<close> are 32 bits wide, \<open>uint64_t\<close> and \<open>size_t\<close> 64 bits; their
  arithmetic wraps around, as that of the word types does. Clock readings are
  \<open>int64_t\<close> milliseconds since the start of a monotonic clock; they are \<open>int\<close> here (a wrap would
  take 292 million years).
\<close>

type_synonym u16 = "16 word"
type_synonym u32 = "32 word"
type_synonym u64 = "64 word"

lemma u32_of_nat_zero: "(word_of_nat n :: u32) = 0 \<Longrightarrow> n < 2 ^ 32 \<Longrightarrow> n = 0"
proof -
  assume "(word_of_nat n :: u32) = 0" and n: "n < 2 ^ 32"
  then have "unat (word_of_nat n :: u32) = 0" by simp
  then show "n = 0" using n by (simp add: unsigned_of_nat take_bit_nat_eq_self)
qed

text \<open>Integer division of C++ truncates towards zero.\<close>

definition c_div :: "int \<Rightarrow> int \<Rightarrow> int" where
  "c_div a b = sgn a * sgn b * (\<bar>a\<bar> div \<bar>b\<bar>)"

lemma c_div_nonneg: "0 \<le> a \<Longrightarrow> 0 < b \<Longrightarrow> c_div a b = a div b"
  by (cases "a = 0") (simp_all add: c_div_def)

section \<open>Strings\<close>

text \<open>\<open>std::string::find(char)\<close>: the position of the first occurrence; \<open>npos\<close> is \<open>None\<close>.\<close>

fun str_find :: "char \<Rightarrow> string \<Rightarrow> nat option" where
  "str_find c [] = None"
| "str_find c (x # xs) = (if x = c then Some 0 else map_option Suc (str_find c xs))"

text \<open>\<open>std::string::rfind(char)\<close>: the position of the last occurrence.\<close>

definition str_rfind :: "char \<Rightarrow> string \<Rightarrow> nat option" where
  "str_rfind c s = map_option (\<lambda>i. length s - 1 - i) (str_find c (rev s))"

text \<open>
  \<open>s.size() >= p.size() && s.compare(0, p.size(), p) == 0\<close>; \<open>compare\<close> clamps the length, so
  \<open>s.compare(0, p.size(), p) == 0\<close> alone means the same.
\<close>

fun starts_with :: "string \<Rightarrow> string \<Rightarrow> bool" where
  "starts_with s [] = True"
| "starts_with [] (p # ps) = False"
| "starts_with (c # s) (p # ps) = (c = p \<and> starts_with s ps)"

text \<open>\<open>!s.empty() && s.back() == c\<close>.\<close>

definition ends_with :: "char \<Rightarrow> string \<Rightarrow> bool" where
  "ends_with c s \<longleftrightarrow> s \<noteq> [] \<and> last s = c"

lemma str_find_None [std_string]: "str_find c s = None \<longleftrightarrow> c \<notin> set s"
  by (induction s) auto

lemma str_find_Some:
  "str_find c s = Some i \<Longrightarrow> i < length s \<and> s ! i = c \<and> c \<notin> set (take i s)"
  by (induction s arbitrary: i) (auto split: if_splits)

lemma str_find_take: "str_find c s = Some i \<Longrightarrow> take i s = takeWhile (\<lambda>x. x \<noteq> c) s"
  by (induction s arbitrary: i) (auto split: if_splits)

lemma str_find_split:
  "str_find c s = Some i \<Longrightarrow> s = take i s @ c # drop (Suc i) s"
  using str_find_Some id_take_nth_drop by metis

lemma str_find_append: "c \<notin> set xs \<Longrightarrow> str_find c (xs @ c # ys) = Some (length xs)"
  by (induction xs) auto

lemma starts_with_iff [std_string]: "starts_with s p \<longleftrightarrow> (\<exists>r. s = p @ r)"
  by (induction s p rule: starts_with.induct) auto

lemma starts_with_append [simp]: "starts_with (p @ r) p"
  by (simp add: starts_with_iff)

lemma ends_with_append [simp]: "ends_with c (s @ [x]) \<longleftrightarrow> x = c"
  by (simp add: ends_with_def)

lemma ends_with_butlast: "ends_with c s \<Longrightarrow> butlast s @ [c] = s"
  by (auto simp: ends_with_def)

text \<open>The character classes of the C library in the C locale.\<close>

definition isspace :: "char \<Rightarrow> bool" where
  "isspace c \<longleftrightarrow> c = CHR '' '' \<or> (9 \<le> (of_char c :: nat) \<and> (of_char c :: nat) \<le> 13)"

definition isdigit :: "char \<Rightarrow> bool" where
  "isdigit c \<longleftrightarrow> 48 \<le> (of_char c :: nat) \<and> (of_char c :: nat) \<le> 57"

definition isalnum :: "char \<Rightarrow> bool" where
  "isalnum c \<longleftrightarrow> isdigit c \<or> (65 \<le> (of_char c :: nat) \<and> (of_char c :: nat) \<le> 90)
     \<or> (97 \<le> (of_char c :: nat) \<and> (of_char c :: nat) \<le> 122)"

text \<open>
  The number at the start of a string as \<open>strtoll\<close> reads it: white space, a sign, and the longest
  run of digits; \<open>None\<close> when there is no digit.
\<close>

definition digits_val :: "string \<Rightarrow> int" where
  "digits_val ds = foldl (\<lambda>acc c. acc * 10 + (of_char c - 48)) 0 ds"

definition int_prefix :: "string \<Rightarrow> int option" where
  "int_prefix s =
     (let s1 = dropWhile isspace s;
          neg = (s1 \<noteq> [] \<and> hd s1 = CHR ''-'');
          s2 = (if s1 \<noteq> [] \<and> (hd s1 = CHR ''-'' \<or> hd s1 = CHR ''+'') then tl s1 else s1);
          ds = takeWhile isdigit s2
      in if ds = [] then None else Some (if neg then - digits_val ds else digits_val ds))"

text \<open>\<open>std::to_string\<close>.\<close>

fun dec_nat :: "nat \<Rightarrow> string" where
  "dec_nat n = (if n < 10 then [char_of (48 + n)] else dec_nat (n div 10) @ [char_of (48 + n mod 10)])"

declare dec_nat.simps [simp del]

definition to_string :: "int \<Rightarrow> string" where
  "to_string v = (if v < 0 then CHR ''-'' # dec_nat (nat (- v)) else dec_nat (nat v))"

text \<open>The digits \<open>std::hex\<close> and hexadecimal encoders print.\<close>

definition hex_digit :: "nat \<Rightarrow> char" where
  "hex_digit d = ''0123456789abcdef'' ! d"

section \<open>\<open>std::map\<close> and \<open>std::unordered_map\<close> as association lists\<close>

text \<open>
  A map is a list of key/value pairs with distinct keys. None of the operations below depends on
  the order of the pairs. \<open>find\<close> is \<^const>\<open>map_of\<close>, \<open>erase(key)\<close> is \<open>map_erase\<close>; \<open>emplace\<close> does
  nothing when the key is present, \<open>m[key] = v\<close> overwrites.
\<close>

definition map_erase :: "'k \<Rightarrow> ('k \<times> 'v) list \<Rightarrow> ('k \<times> 'v) list" where
  "map_erase k m = filter (\<lambda>p. fst p \<noteq> k) m"

definition map_emplace :: "'k \<Rightarrow> 'v \<Rightarrow> ('k \<times> 'v) list \<Rightarrow> ('k \<times> 'v) list" where
  "map_emplace k v m = (case map_of m k of None \<Rightarrow> (k, v) # m | Some _ \<Rightarrow> m)"

fun map_assign :: "'k \<Rightarrow> 'v \<Rightarrow> ('k \<times> 'v) list \<Rightarrow> ('k \<times> 'v) list" where
  "map_assign k v [] = [(k, v)]"
| "map_assign k v ((k', v') # m) =
     (if k' = k then (k, v) # m else (k', v') # map_assign k v m)"

lemma map_of_map_erase [std_map]: "map_of (map_erase k m) = (map_of m)(k := None)"
  by (induction m) (auto simp: map_erase_def fun_eq_iff)

lemma map_of_map_emplace [std_map]:
  "map_of (map_emplace k v m) = (if map_of m k = None then (map_of m)(k \<mapsto> v) else map_of m)"
  by (auto simp: map_emplace_def split: option.split)

lemma map_of_map_assign [std_map]: "map_of (map_assign k v m) = (map_of m)(k \<mapsto> v)"
  by (induction m) (auto simp: fun_eq_iff)

lemma keys_map_erase [std_map]: "fst ` set (map_erase k m) = fst ` set m - {k}"
  by (auto simp: map_erase_def)

lemma distinct_map_erase [std_map]: "distinct (map fst m) \<Longrightarrow> distinct (map fst (map_erase k m))"
  by (simp add: map_erase_def distinct_map_filter)

lemma keys_map_assign [std_map]: "fst ` set (map_assign k v m) = insert k (fst ` set m)"
proof (induction m)
  case (Cons p m)
  then show ?case by (cases p) (simp add: insert_commute)
qed simp

lemma distinct_map_assign [std_map]:
  "distinct (map fst m) \<Longrightarrow> distinct (map fst (map_assign k v m))"
proof (induction m)
  case (Cons p m)
  obtain k' v' where p: "p = (k', v')" by fastforce
  have "k' \<noteq> k \<Longrightarrow> k' \<notin> fst ` set m \<Longrightarrow> k' \<notin> fst ` set (map_assign k v m)"
    by (simp add: keys_map_assign)
  with Cons p show ?case by auto
qed simp

lemma map_erase_absent: "k \<notin> fst ` set m \<Longrightarrow> map_erase k m = m"
  unfolding map_erase_def by (rule filter_True) force

lemma length_map_erase:
  "distinct (map fst m) \<Longrightarrow>
     length (map_erase k m) = length m - (if k \<in> fst ` set m then 1 else 0)"
proof (induction m)
  case (Cons p m)
  have tail: "map_erase k (p # m) = (if fst p = k then map_erase k m else p # map_erase k m)"
    by (simp add: map_erase_def)
  show ?case
  proof (cases "fst p = k")
    case True
    with Cons.prems have "k \<notin> fst ` set m" by auto
    with True tail show ?thesis by (simp add: map_erase_absent)
  next
    case False
    then have "k \<in> fst ` set m \<Longrightarrow> 0 < length m" by (cases m) auto
    with False tail Cons show ?thesis by auto
  qed
qed (simp add: map_erase_def)

end
