(* ===== verification/Memcache.thy ===== *)
theory Memcache
  imports Asyik_Prelude
begin

text \<open>
  The expiring key/value cache of \<open>include/libasyik/memcache.hpp\<close>: its state, every operation, the
  background pruning loop, and the interface \<open>expiring_store\<close> its clients rely on.

  The class template parameters \<open>expiry\<close> and \<open>segments\<close> are the record \<open>cache_cfg\<close>; the thread
  policy only chooses the mutex, and every public operation runs under it, so an operation is one
  step of the model (\<open>Memcache_Threads\<close> shows that the mutex makes it one). \<open>now_ms()\<close> reads a monotonic clock; an operation that reads it more than once
  (\<open>touch\<close> prunes with one reading and picks the youngest segment with another) takes one argument
  per reading.
\<close>

section \<open>State\<close>

record cache_cfg =
  expiry :: int
  segments :: int

type_synonym ('k, 'v) segment = "('k \<times> 'v) list"
type_synonym ('k, 'v) segs = "(int \<times> ('k, 'v) segment) list"

text \<open>
  \<open>map_list\<close> is a \<open>std::map<int64_t, std::map<Key, T>, std::greater<int64_t>>\<close>: the segments in
  iteration order, latest expiry time first. \<open>closed\<close> is initialised and never used by the code.
\<close>

record ('k, 'v) memcache =
  closed :: bool
  map_list :: "('k, 'v) segs"

definition memcache_ctor :: "('k, 'v) memcache" where
  "memcache_ctor = \<lparr>closed = False, map_list = []\<rparr>"

datatype cache_error = Out_of_range string

definition not_found :: cache_error where
  "not_found = Out_of_range ''item not found/out of range in memcache!''"

definition expiry_ms :: "cache_cfg \<Rightarrow> int" where
  "expiry_ms cfg = expiry cfg * 1000"

definition segment_ms :: "cache_cfg \<Rightarrow> int" where
  "segment_ms cfg = c_div (expiry_ms cfg) (segments cfg)"

section \<open>The private helpers\<close>

text \<open>\<open>map_list[e]\<close>: the segment with key \<open>e\<close>, created empty in its place when it is missing.\<close>

fun at_or_new :: "int \<Rightarrow> ('k, 'v) segs \<Rightarrow> ('k, 'v) segs" where
  "at_or_new e [] = [(e, [])]"
| "at_or_new e ((e', m) # ml) =
     (if e' < e then (e, []) # (e', m) # ml
      else if e' = e then (e', m) # ml
      else (e', m) # at_or_new e ml)"

text \<open>A write through a reference to the segment with key \<open>e\<close>.\<close>

fun seg_update ::
  "int \<Rightarrow> (('k, 'v) segment \<Rightarrow> ('k, 'v) segment) \<Rightarrow> ('k, 'v) segs \<Rightarrow> ('k, 'v) segs" where
  "seg_update e f [] = []"
| "seg_update e f ((e', m) # ml) =
     (if e' = e then (e', f m) # ml else (e', m) # seg_update e f ml)"

text \<open>A read through such a reference.\<close>

definition seg_at :: "int \<Rightarrow> ('k, 'v) segs \<Rightarrow> ('k, 'v) segment" where
  "seg_at e ml = (case map_of ml e of None \<Rightarrow> [] | Some m \<Rightarrow> m)"

fun find_live :: "int \<Rightarrow> 'k \<Rightarrow> ('k, 'v) segs \<Rightarrow> 'v option" where
  "find_live current_ms k [] = None"
| "find_live current_ms k ((e, m) # ml) =
     (if current_ms > e then None
      else case map_of m k of Some v \<Rightarrow> Some v | None \<Rightarrow> find_live current_ms k ml)"

text \<open>The key of the segment returned by reference, and the map it now belongs to.\<close>

definition youngest_segment :: "cache_cfg \<Rightarrow> int \<Rightarrow> ('k, 'v) segs \<Rightarrow> int \<times> ('k, 'v) segs" where
  "youngest_segment cfg now ml =
     (let expiry_at = now + expiry_ms cfg; fresh = expiry_at + segment_ms cfg in
      case ml of
        [] \<Rightarrow> (fresh, at_or_new fresh ml)
      | (e, m) # _ \<Rightarrow> if e < expiry_at then (fresh, at_or_new fresh ml) else (e, ml))"

definition erase_all :: "'k \<Rightarrow> ('k, 'v) segs \<Rightarrow> ('k, 'v) segs" where
  "erase_all k ml = map (\<lambda>(e, m). (e, map_erase k m)) ml"

text \<open>The stored value is returned by reference: the value found under the key afterwards.\<close>

definition insert_entry ::
  "cache_cfg \<Rightarrow> int \<Rightarrow> 'k \<Rightarrow> 'v \<Rightarrow> ('k, 'v) segs \<Rightarrow> 'v option \<times> ('k, 'v) segs" where
  "insert_entry cfg now k v ml =
     (let (y, ml1) = youngest_segment cfg now (erase_all k ml);
          ml2 = seg_update y (map_emplace k v) ml1
      in (map_of (seg_at y ml2) k, ml2))"

definition prune :: "int \<Rightarrow> ('k, 'v) segs \<Rightarrow> ('k, 'v) segs" where
  "prune current_ms ml = filter (\<lambda>(e, m). \<not> current_ms > e) ml"

text \<open>The loop of \<open>touch\<close>: the first segment that holds the key, and the value there.\<close>

fun find_segment :: "'k \<Rightarrow> ('k, 'v) segs \<Rightarrow> (int \<times> 'v) option" where
  "find_segment k [] = None"
| "find_segment k ((e, m) # ml) =
     (case map_of m k of Some v \<Rightarrow> Some (e, v) | None \<Rightarrow> find_segment k ml)"

text \<open>
  The body of that loop, run for the segment \<open>e\<close> where the key was found with value \<open>v\<close>; \<open>now\<close>
  is the clock reading of \<open>youngest_segment\<close>.
\<close>

definition move_to_youngest ::
  "cache_cfg \<Rightarrow> int \<Rightarrow> 'k \<Rightarrow> int \<Rightarrow> 'v \<Rightarrow> ('k, 'v) segs \<Rightarrow> 'v option \<times> ('k, 'v) segs" where
  "move_to_youngest cfg now k e v ml =
     (let (y, ml2) = youngest_segment cfg now ml in
      if y = e then (Some v, ml2)
      else let ml3 = seg_update y (map_emplace k v) ml2;
               moved = map_of (seg_at y ml3) k
           in (moved, seg_update e (map_erase k) ml3))"

text \<open>\<open>t1\<close> is the clock reading of \<open>prune\<close>, \<open>t2\<close> that of \<open>youngest_segment\<close>.\<close>

definition touch ::
  "cache_cfg \<Rightarrow> int \<Rightarrow> int \<Rightarrow> 'k \<Rightarrow> ('k, 'v) segs \<Rightarrow> 'v option \<times> ('k, 'v) segs" where
  "touch cfg t1 t2 k ml =
     (let ml1 = prune t1 ml in
      case find_segment k ml1 of
        None \<Rightarrow> (None, ml1)
      | Some (e, v) \<Rightarrow> move_to_youngest cfg t2 k e v ml1)"

section \<open>The public operations\<close>

definition put :: "cache_cfg \<Rightarrow> int \<Rightarrow> 'k \<Rightarrow> 'v \<Rightarrow> ('k, 'v) memcache \<Rightarrow> ('k, 'v) memcache" where
  "put cfg now k v c = c\<lparr>map_list := snd (insert_entry cfg now k v (map_list c))\<rparr>"

definition erase :: "'k \<Rightarrow> ('k, 'v) memcache \<Rightarrow> bool \<times> ('k, 'v) memcache" where
  "erase k c =
     (fold (\<lambda>(e, m) found. found \<or> length (map_erase k m) < length m) (map_list c) False,
      c\<lparr>map_list := erase_all k (map_list c)\<rparr>)"

definition clear :: "('k, 'v) memcache \<Rightarrow> ('k, 'v) memcache" where
  "clear c = c\<lparr>map_list := []\<rparr>"

definition get ::
  "cache_cfg \<Rightarrow> int \<Rightarrow> int \<Rightarrow> 'k \<Rightarrow> ('k, 'v) memcache \<Rightarrow> (cache_error + 'v) \<times> ('k, 'v) memcache"
where
  "get cfg t1 t2 k c =
     (let (r, ml) = touch cfg t1 t2 k (map_list c) in
      (case r of Some v \<Rightarrow> Inr v | None \<Rightarrow> Inl not_found, c\<lparr>map_list := ml\<rparr>))"

definition at :: "int \<Rightarrow> 'k \<Rightarrow> ('k, 'v) memcache \<Rightarrow> cache_error + 'v" where
  "at now k c =
     (case find_live now k (map_list c) of Some v \<Rightarrow> Inr v | None \<Rightarrow> Inl not_found)"

definition try_get ::
  "cache_cfg \<Rightarrow> int \<Rightarrow> int \<Rightarrow> 'k \<Rightarrow> ('k, 'v) memcache \<Rightarrow> 'v option \<times> ('k, 'v) memcache"
where
  "try_get cfg t1 t2 k c =
     (let (r, ml) = touch cfg t1 t2 k (map_list c) in (r, c\<lparr>map_list := ml\<rparr>))"

definition contains :: "int \<Rightarrow> 'k \<Rightarrow> ('k, 'v) memcache \<Rightarrow> bool" where
  "contains now k c \<longleftrightarrow> find_live now k (map_list c) \<noteq> None"

text \<open>\<open>make\<close> (here \<open>mk\<close>) runs only on a miss; \<open>t3\<close> is the clock reading of the insertion that follows it.\<close>

definition get_or_put ::
  "cache_cfg \<Rightarrow> int \<Rightarrow> int \<Rightarrow> int \<Rightarrow> 'k \<Rightarrow> (unit \<Rightarrow> 'v) \<Rightarrow> ('k, 'v) memcache
     \<Rightarrow> 'v option \<times> ('k, 'v) memcache"
where
  "get_or_put cfg t1 t2 t3 k mk c =
     (case touch cfg t1 t2 k (map_list c) of
        (Some v, ml) \<Rightarrow> (Some v, c\<lparr>map_list := ml\<rparr>)
      | (None, ml) \<Rightarrow>
          (let (r, ml') = insert_entry cfg t3 k (mk ()) ml in (r, c\<lparr>map_list := ml'\<rparr>)))"

text \<open>The in-place change of the entry \<open>find_live\<close> points at.\<close>

fun modify_live :: "int \<Rightarrow> 'k \<Rightarrow> ('v \<Rightarrow> 'v) \<Rightarrow> ('k, 'v) segs \<Rightarrow> ('k, 'v) segs" where
  "modify_live current_ms k f [] = []"
| "modify_live current_ms k f ((e, m) # ml) =
     (if current_ms > e then (e, m) # ml
      else case map_of m k of
             Some v \<Rightarrow> (e, map_assign k (f v) m) # ml
           | None \<Rightarrow> (e, m) # modify_live current_ms k f ml)"

definition visit ::
  "int \<Rightarrow> 'k \<Rightarrow> ('v \<Rightarrow> 'v) \<Rightarrow> ('k, 'v) memcache \<Rightarrow> bool \<times> ('k, 'v) memcache" where
  "visit now k f c =
     (find_live now k (map_list c) \<noteq> None,
      c\<lparr>map_list := modify_live now k f (map_list c)\<rparr>)"

fun live_size :: "int \<Rightarrow> ('k, 'v) segs \<Rightarrow> nat" where
  "live_size current_ms [] = 0"
| "live_size current_ms ((e, m) # ml) =
     (if current_ms > e then 0 else length m + live_size current_ms ml)"

definition cache_size :: "int \<Rightarrow> ('k, 'v) memcache \<Rightarrow> nat" where
  "cache_size now c = live_size now (map_list c)"

text \<open>\<open>prune\<close> as the background loop calls it.\<close>

definition cache_prune :: "int \<Rightarrow> ('k, 'v) memcache \<Rightarrow> ('k, 'v) memcache" where
  "cache_prune current_ms c = c\<lparr>map_list := prune current_ms (map_list c)\<rparr>"

section \<open>The background pruning loop\<close>

text \<open>
  One turn of \<open>prune_periodically\<close> after its sleep, with the lambda of \<open>make_memcache\<close> as its
  step: \<open>alive\<close> says whether the weak pointer still locks, \<open>n1\<close> is the reading compared with
  \<open>next_prune\<close>, \<open>n2\<close> the one the next deadline starts from and \<open>n3\<close> the one \<open>prune\<close> uses.
  \<open>None\<close>: the loop ends. Deadlines are in milliseconds.
\<close>

definition prune_interval :: "cache_cfg \<Rightarrow> int" where
  "prune_interval cfg = c_div (expiry cfg * 1000) (segments cfg)"

definition prune_slice :: "cache_cfg \<Rightarrow> int" where
  "prune_slice cfg = min (prune_interval cfg) 100"

definition prune_turn ::
  "cache_cfg \<Rightarrow> bool \<Rightarrow> int \<Rightarrow> int \<Rightarrow> int \<Rightarrow> int \<times> ('k, 'v) memcache
     \<Rightarrow> (int \<times> ('k, 'v) memcache) option"
where
  "prune_turn cfg alive n1 n2 n3 st =
     (case st of (next_prune, c) \<Rightarrow>
        (let due = (n1 \<ge> next_prune);
             next' = (if due then n2 + prune_interval cfg else next_prune)
         in if \<not> alive then None
            else Some (next', if due then cache_prune n3 c else c)))"

section \<open>The invariant and the abstract view\<close>

text \<open>
  \<^const>\<open>find_segment\<close> is the abstract view of the cache: the value stored under a key together
  with its deadline. The invariant says that the segments are in strictly descending order, that
  no key is stored twice, and that no deadline is further away than a lifetime and one segment.
\<close>

definition all_keys :: "('k, 'v) segs \<Rightarrow> 'k list" where
  "all_keys ml = map fst (concat (map snd ml))"

definition segs_ok :: "('k, 'v) segs \<Rightarrow> bool" where
  "segs_ok ml \<longleftrightarrow> sorted_wrt (>) (map fst ml) \<and> distinct (all_keys ml)"

definition cfg_ok :: "cache_cfg \<Rightarrow> bool" where
  "cfg_ok cfg \<longleftrightarrow> 0 \<le> expiry cfg \<and> 0 < segments cfg"

definition segs_inv :: "cache_cfg \<Rightarrow> int \<Rightarrow> ('k, 'v) segs \<Rightarrow> bool" where
  "segs_inv cfg now ml \<longleftrightarrow>
     segs_ok ml \<and> (\<forall>e \<in> fst ` set ml. e \<le> now + expiry_ms cfg + segment_ms cfg)"

definition cache_inv :: "cache_cfg \<Rightarrow> int \<Rightarrow> ('k, 'v) memcache \<Rightarrow> bool" where
  "cache_inv cfg now c \<longleftrightarrow> segs_inv cfg now (map_list c)"

definition entry_of :: "('k, 'v) memcache \<Rightarrow> 'k \<Rightarrow> (int \<times> 'v) option" where
  "entry_of c k = find_segment k (map_list c)"

text \<open>What a deadline means at a given time.\<close>

fun unexpired :: "int \<Rightarrow> (int \<times> 'v) option \<Rightarrow> (int \<times> 'v) option" where
  "unexpired now None = None"
| "unexpired now (Some (e, v)) = (if now \<le> e then Some (e, v) else None)"

lemma cfg_ok_bounds: "cfg_ok cfg \<Longrightarrow> 0 \<le> expiry_ms cfg \<and> 0 \<le> segment_ms cfg"
  by (simp add: cfg_ok_def expiry_ms_def segment_ms_def c_div_nonneg pos_imp_zdiv_nonneg_iff)

lemma all_keys_simps [simp]:
  "all_keys [] = []"
  "all_keys ((e, m) # ml) = map fst m @ all_keys ml"
  by (simp_all add: all_keys_def)

lemma segs_ok_Nil [simp]: "segs_ok []"
  by (simp add: segs_ok_def)

lemma segs_ok_Cons [simp]:
  "segs_ok ((e, m) # ml) \<longleftrightarrow>
     (\<forall>e' \<in> fst ` set ml. e' < e) \<and> distinct (map fst m) \<and>
     fst ` set m \<inter> set (all_keys ml) = {} \<and> segs_ok ml"
  by (auto simp: segs_ok_def)

lemma map_of_key: "map_of m k = Some v \<Longrightarrow> k \<in> fst ` set m"
  by (metis map_of_eq_None_iff option.distinct(1))

lemma find_segment_None: "find_segment k ml = None \<longleftrightarrow> k \<notin> set (all_keys ml)"
proof (induction ml)
  case (Cons p ml)
  obtain e m where p: "p = (e, m)" by fastforce
  have "map_of m k = None \<longleftrightarrow> k \<notin> fst ` set m" by (rule map_of_eq_None_iff)
  with Cons p show ?case by (cases "map_of m k") simp_all
qed simp

lemma find_segment_deadline: "find_segment k ml = Some (e, v) \<Longrightarrow> e \<in> fst ` set ml"
  by (induction ml) (auto split: option.splits)

lemma find_live_eq:
  "segs_ok ml \<Longrightarrow> find_live now k ml = map_option snd (unexpired now (find_segment k ml))"
proof (induction ml)
  case (Cons p ml)
  obtain e m where p: "p = (e, m)" by fastforce
  show ?case
  proof (cases "now > e")
    case True
    have "unexpired now (find_segment k ml) = None"
    proof (cases "find_segment k ml")
      case (Some ev)
      obtain e' v where ev: "ev = (e', v)" by fastforce
      with Some have "e' \<in> fst ` set ml" by (auto dest: find_segment_deadline)
      with Cons.prems p have "e' < e" by auto
      with Some ev True show ?thesis by simp
    qed simp
    with True p show ?thesis by (auto split: option.split)
  next
    case False
    with Cons p show ?thesis by (auto split: option.split)
  qed
qed simp

lemma map_fst_erase_all [simp]: "map fst (erase_all k ml) = map fst ml"
  by (auto simp: erase_all_def)

lemma deadlines_erase_all [simp]: "fst ` set (erase_all k ml) = fst ` set ml"
  by (force simp: erase_all_def)

lemma erase_all_Cons [simp]: "erase_all k ((e, m) # ml) = (e, map_erase k m) # erase_all k ml"
  by (simp add: erase_all_def)

lemma erase_all_Nil [simp]: "erase_all k [] = []"
  by (simp add: erase_all_def)

lemma set_all_keys_erase_all [simp]: "set (all_keys (erase_all k ml)) = set (all_keys ml) - {k}"
proof (induction ml)
  case (Cons p ml)
  then show ?case by (cases p) (simp add: keys_map_erase Un_Diff)
qed simp

lemma segs_ok_erase_all: "segs_ok ml \<Longrightarrow> segs_ok (erase_all k ml)"
proof (induction ml)
  case (Cons p ml)
  then show ?case by (cases p) (auto simp: std_map)
qed simp

lemma find_segment_erase_all:
  "find_segment k' (erase_all k ml) = (if k' = k then None else find_segment k' ml)"
  by (induction ml) (auto simp: std_map split: option.split)

lemma erase_all_absent: "k \<notin> set (all_keys ml) \<Longrightarrow> erase_all k ml = ml"
  by (induction ml) (auto simp: map_erase_absent)

lemma seg_update_erase:
  "segs_ok ml \<Longrightarrow> find_segment k ml = Some (e, v) \<Longrightarrow> seg_update e (map_erase k) ml = erase_all k ml"
proof (induction ml)
  case (Cons p ml)
  obtain e' m where p: "p = (e', m)" by fastforce
  show ?case
  proof (cases "map_of m k")
    case None
    then have "k \<notin> fst ` set m" by (simp add: map_of_eq_None_iff)
    moreover from None Cons.prems p have rest: "find_segment k ml = Some (e, v)" by simp
    ultimately show ?thesis
      using Cons p find_segment_deadline [OF rest] by (auto simp: map_erase_absent)
  next
    case (Some v')
    then have "k \<in> fst ` set m" by (rule map_of_key)
    with Cons.prems p have "k \<notin> set (all_keys ml)" by auto
    with Some Cons.prems p show ?thesis by (simp add: erase_all_absent)
  qed
qed simp

lemma deadlines_prune: "fst ` set (prune now ml) = {e \<in> fst ` set ml. now \<le> e}"
  by (force simp: prune_def)

lemma set_all_keys_prune: "set (all_keys (prune now ml)) \<subseteq> set (all_keys ml)"
  by (induction ml) (auto simp: prune_def)

lemma prune_Cons: "prune now ((e, m) # ml) = (if now \<le> e then (e, m) # prune now ml else prune now ml)"
  by (auto simp: prune_def)

lemma segs_ok_prune: "segs_ok ml \<Longrightarrow> segs_ok (prune now ml)"
proof (induction ml)
  case (Cons p ml)
  then show ?case
    using set_all_keys_prune [of now ml]
    by (cases p) (auto simp: prune_Cons deadlines_prune)
qed (simp add: prune_def)

lemma find_segment_prune:
  "segs_ok ml \<Longrightarrow> find_segment k (prune now ml) = unexpired now (find_segment k ml)"
proof (induction ml)
  case (Cons p ml)
  obtain e m where p: "p = (e, m)" by fastforce
  have "find_segment k (prune now ml) = None" if "map_of m k = Some v" for v
  proof -
    from that have "k \<in> fst ` set m" by (rule map_of_key)
    with Cons.prems p have "k \<notin> set (all_keys ml)" by auto
    then show ?thesis using set_all_keys_prune [of now ml] by (auto simp: find_segment_None)
  qed
  with Cons p show ?case by (auto simp: prune_Cons split: option.split)
qed (simp add: prune_def)

section \<open>What the helpers do to the abstract view\<close>

lemma at_or_new_front: "\<forall>e' \<in> fst ` set ml. e' < e \<Longrightarrow> at_or_new e ml = (e, []) # ml"
  by (cases ml) auto

text \<open>
  The segment for entries stored now is the head of the list: either the old head, which still
  lives a full lifetime, or a new empty one. Its deadline is a lifetime away, give or take one
  segment.
\<close>

lemma youngest_segment_head:
  assumes "cfg_ok cfg" and inv: "segs_inv cfg t ml" and "t \<le> now"
    and y: "youngest_segment cfg now ml = (y, ml')"
  obtains m rest where "ml' = (y, m) # rest" and "segs_inv cfg now ml'"
    and "\<And>k. find_segment k ml' = find_segment k ml"
    and "all_keys ml' = all_keys ml"
    and "now + expiry_ms cfg \<le> y" and "y \<le> now + expiry_ms cfg + segment_ms cfg"
    and "m = [] \<and> rest = ml \<or> ml = (y, m) # rest"
proof -
  let ?at = "now + expiry_ms cfg"
  let ?fresh = "?at + segment_ms cfg"
  have ok: "segs_ok ml" and bound: "\<forall>e \<in> fst ` set ml. e \<le> ?fresh"
    using inv \<open>t \<le> now\<close> by (auto simp: segs_inv_def)
  have nonneg: "0 \<le> segment_ms cfg" using cfg_ok_bounds [OF \<open>cfg_ok cfg\<close>] by simp
  consider (keep) m rest where "ml = (y, m) # rest" "?at \<le> y" "ml' = ml"
    | (new) "\<forall>e \<in> fst ` set ml. e < ?at" "y = ?fresh" "ml' = at_or_new y ml"
  proof (cases ml)
    case Nil
    then show ?thesis using y new by (auto simp: youngest_segment_def Let_def)
  next
    case (Cons p rest)
    obtain e m where p: "p = (e, m)" by fastforce
    show ?thesis
    proof (cases "e < ?at")
      case True
      then have "\<forall>e' \<in> fst ` set ml. e' < ?at" using Cons p ok by force
      with True show ?thesis
        using y Cons p new by (auto simp: youngest_segment_def Let_def simp del: at_or_new.simps)
    next
      case False
      then show ?thesis
        using y Cons p keep by (auto simp: youngest_segment_def Let_def)
    qed
  qed
  then show ?thesis
  proof cases
    case keep
    then have "y \<le> ?fresh" using bound by simp
    with keep show ?thesis
      using that ok bound by (simp add: segs_inv_def)
  next
    case new
    then have front: "ml' = (y, []) # ml"
      using nonneg at_or_new_front [of ml y] by fastforce
    have "segs_inv cfg now ((y, []) # ml)"
      using ok bound new(1,2) nonneg by (auto simp: segs_inv_def)
    with front new nonneg show ?thesis
      using that [of "[]" ml] by simp
  qed
qed

lemma segs_inv_later: "segs_inv cfg t ml \<Longrightarrow> t \<le> t' \<Longrightarrow> segs_inv cfg t' ml"
  by (force simp: segs_inv_def)

lemma segs_inv_erase_all: "segs_inv cfg t ml \<Longrightarrow> segs_inv cfg t (erase_all k ml)"
  by (simp add: segs_inv_def segs_ok_erase_all)

lemma segs_inv_prune: "segs_inv cfg t ml \<Longrightarrow> segs_inv cfg t (prune now ml)"
  by (auto simp: segs_inv_def segs_ok_prune deadlines_prune)

lemma seg_at_head [simp]: "seg_at y ((y, m) # ml) = m"
  by (simp add: seg_at_def)

text \<open>Placing an absent key into the head segment.\<close>

lemma emplace_head:
  assumes "segs_inv cfg t ((y, m) # rest)" and "find_segment k ((y, m) # rest) = None"
  shows "segs_inv cfg t ((y, map_emplace k v m) # rest)"
    and "find_segment k' ((y, map_emplace k v m) # rest) =
           (if k' = k then Some (y, v) else find_segment k' ((y, m) # rest))"
    and "map_of (map_emplace k v m) k = Some v"
proof -
  have absent: "k \<notin> fst ` set m" "k \<notin> set (all_keys rest)"
    using assms(2) by (simp_all add: find_segment_None del: find_segment.simps)
  then have "map_of m k = None" by (simp add: map_of_eq_None_iff)
  then have eq: "map_emplace k v m = (k, v) # m" by (simp add: map_emplace_def)
  show "segs_inv cfg t ((y, map_emplace k v m) # rest)"
    using assms(1) absent eq by (auto simp: segs_inv_def)
  show "find_segment k' ((y, map_emplace k v m) # rest) =
          (if k' = k then Some (y, v) else find_segment k' ((y, m) # rest))"
    using eq by simp
  show "map_of (map_emplace k v m) k = Some v"
    using eq by simp
qed

text \<open>\<open>insert\<close>: the key is bound to the value with a fresh deadline, nothing else changes.\<close>

lemma insert_entry_spec:
  assumes "cfg_ok cfg" and "segs_inv cfg t ml" and "t \<le> now"
  obtains d where "now + expiry_ms cfg \<le> d" and "d \<le> now + expiry_ms cfg + segment_ms cfg"
    and "fst (insert_entry cfg now k v ml) = Some v"
    and "segs_inv cfg now (snd (insert_entry cfg now k v ml))"
    and "\<And>k'. find_segment k' (snd (insert_entry cfg now k v ml)) =
                 (if k' = k then Some (d, v) else find_segment k' ml)"
proof -
  obtain y ml1 where y: "youngest_segment cfg now (erase_all k ml) = (y, ml1)" by fastforce
  obtain m rest where ml1: "ml1 = (y, m) # rest" and inv1: "segs_inv cfg now ml1"
    and view: "\<And>k'. find_segment k' ml1 = find_segment k' (erase_all k ml)"
    and d: "now + expiry_ms cfg \<le> y" "y \<le> now + expiry_ms cfg + segment_ms cfg"
    using youngest_segment_head [OF assms(1) segs_inv_erase_all [OF assms(2)] assms(3) y] by metis
  have absent: "find_segment k ((y, m) # rest) = None"
    using view ml1 by (simp add: find_segment_erase_all del: find_segment.simps)
  note placed = emplace_head [OF inv1 [unfolded ml1] absent, where v = v]
  have result: "insert_entry cfg now k v ml =
      (map_of (map_emplace k v m) k, (y, map_emplace k v m) # rest)"
    using y ml1 by (simp add: insert_entry_def)
  show ?thesis
  proof (rule that [OF d])
    show "fst (insert_entry cfg now k v ml) = Some v" using result placed(3) by simp
    show "segs_inv cfg now (snd (insert_entry cfg now k v ml))" using result placed(1) by simp
    show "find_segment k' (snd (insert_entry cfg now k v ml)) =
        (if k' = k then Some (y, v) else find_segment k' ml)" for k'
      using result placed(2) [where k' = k'] view [of k'] ml1
      by (simp add: find_segment_erase_all del: find_segment.simps)
  qed
qed

text \<open>Moving an entry to the youngest segment renews its deadline and changes nothing else.\<close>

lemma move_to_youngest_spec:
  assumes cfg: "cfg_ok cfg" and inv: "segs_inv cfg t ml" and le: "t \<le> now"
    and hit: "find_segment k ml = Some (e, v)"
  obtains d where "now + expiry_ms cfg \<le> d" and "d \<le> now + expiry_ms cfg + segment_ms cfg"
    and "fst (move_to_youngest cfg now k e v ml) = Some v"
    and "segs_inv cfg now (snd (move_to_youngest cfg now k e v ml))"
    and "\<And>k'. find_segment k' (snd (move_to_youngest cfg now k e v ml)) =
                 (if k' = k then Some (d, v) else find_segment k' ml)"
proof -
  obtain y ml2 where y: "youngest_segment cfg now ml = (y, ml2)" by fastforce
  obtain m rest where ml2: "ml2 = (y, m) # rest" and inv2: "segs_inv cfg now ml2"
    and view: "\<And>k'. find_segment k' ml2 = find_segment k' ml"
    and d: "now + expiry_ms cfg \<le> y" "y \<le> now + expiry_ms cfg + segment_ms cfg"
    using youngest_segment_head [OF cfg inv le y] by metis
  show ?thesis
  proof (cases "y = e")
    case True
    then have "move_to_youngest cfg now k e v ml = (Some v, ml2)"
      using y by (simp add: move_to_youngest_def)
    with True hit view inv2 show ?thesis by (intro that [OF d]) simp_all
  next
    case False
    have "find_segment k ((y, m) # rest) = Some (e, v)" using view [of k] ml2 hit by simp
    then have absent: "map_of m k = None" and hit': "find_segment k rest = Some (e, v)"
      using False by (auto split: option.splits)
    have ok: "segs_ok rest" using inv2 ml2 by (simp add: segs_inv_def)
    have erased: "segs_inv cfg now ((y, m) # erase_all k rest)"
      using inv2 ml2 segs_ok_erase_all [OF ok] by (auto simp: segs_inv_def)
    have none: "find_segment k ((y, m) # erase_all k rest) = None"
      using absent by (simp add: find_segment_erase_all)
    have result: "move_to_youngest cfg now k e v ml =
        (map_of (map_emplace k v m) k, (y, map_emplace k v m) # erase_all k rest)"
      using False y ml2 seg_update_erase [OF ok hit'] by (simp add: move_to_youngest_def)
    have "find_segment k' ((y, m) # erase_all k rest) = find_segment k' ml" if "k' \<noteq> k" for k'
      using that view [of k'] ml2 by (auto simp: find_segment_erase_all split: option.splits)
    with result emplace_head [OF erased none, where v = v] show ?thesis
      by (intro that [OF d]) (simp_all del: find_segment.simps)
  qed
qed

text \<open>
  \<open>touch\<close>: on a hit the value is returned and its deadline renewed; entries that expired before
  \<open>t1\<close> are dropped, all others keep their deadline.
\<close>

lemma touch_miss:
  assumes "segs_inv cfg t ml" and "unexpired t1 (find_segment k ml) = None"
  shows "touch cfg t1 t2 k ml = (None, prune t1 ml)"
  using assms by (simp add: touch_def segs_inv_def find_segment_prune)

lemma touch_gone:
  assumes "segs_inv cfg t ml" and "unexpired t1 (find_segment k ml) = None"
  shows "find_segment k (snd (touch cfg t1 t2 k ml)) = None"
  using assms touch_miss [OF assms] by (simp add: segs_inv_def find_segment_prune)

lemma touch_hit:
  assumes cfg: "cfg_ok cfg" and inv: "segs_inv cfg t ml" and le: "t \<le> t1" "t1 \<le> t2"
    and hit: "unexpired t1 (find_segment k ml) = Some (e, v)"
  obtains d where "t2 + expiry_ms cfg \<le> d" and "d \<le> t2 + expiry_ms cfg + segment_ms cfg"
    and "fst (touch cfg t1 t2 k ml) = Some v"
    and "segs_inv cfg t2 (snd (touch cfg t1 t2 k ml))"
    and "\<And>k'. find_segment k' (snd (touch cfg t1 t2 k ml)) =
                 (if k' = k then Some (d, v) else unexpired t1 (find_segment k' ml))"
proof -
  have view: "find_segment k' (prune t1 ml) = unexpired t1 (find_segment k' ml)" for k'
    using inv by (simp add: segs_inv_def find_segment_prune)
  have "t \<le> t2" using le by simp
  from move_to_youngest_spec [OF cfg segs_inv_prune [OF inv] this] hit view
  obtain d where "t2 + expiry_ms cfg \<le> d" "d \<le> t2 + expiry_ms cfg + segment_ms cfg"
    and "fst (move_to_youngest cfg t2 k e v (prune t1 ml)) = Some v"
    and "segs_inv cfg t2 (snd (move_to_youngest cfg t2 k e v (prune t1 ml)))"
    and "\<And>k'. find_segment k' (snd (move_to_youngest cfg t2 k e v (prune t1 ml))) =
                 (if k' = k then Some (d, v) else find_segment k' (prune t1 ml))"
    by metis
  moreover have "touch cfg t1 t2 k ml = move_to_youngest cfg t2 k e v (prune t1 ml)"
    using hit view by (simp add: touch_def)
  ultimately show ?thesis using that view by simp
qed

lemma touch_value:
  assumes "cfg_ok cfg" and "segs_inv cfg t ml" and "t \<le> t1" and "t1 \<le> t2"
  shows "fst (touch cfg t1 t2 k ml) = map_option snd (unexpired t1 (find_segment k ml))"
proof (cases "unexpired t1 (find_segment k ml)")
  case None
  then show ?thesis by (simp add: touch_miss [OF assms(2)])
next
  case (Some ev)
  then show ?thesis by (cases ev) (auto elim: touch_hit [OF assms])
qed

lemma touch_inv:
  assumes "cfg_ok cfg" and "segs_inv cfg t ml" and "t \<le> t1" and "t1 \<le> t2"
  shows "segs_inv cfg t2 (snd (touch cfg t1 t2 k ml))"
proof (cases "unexpired t1 (find_segment k ml)")
  case None
  with assms show ?thesis
    by (auto simp: touch_miss [OF assms(2)] intro: segs_inv_later segs_inv_prune)
next
  case (Some ev)
  then show ?thesis by (cases ev) (auto elim: touch_hit [OF assms])
qed

lemma touch_other:
  assumes "cfg_ok cfg" and "segs_inv cfg t ml" and "t \<le> t1" and "t1 \<le> t2" and "k' \<noteq> k"
  shows "find_segment k' (snd (touch cfg t1 t2 k ml)) = unexpired t1 (find_segment k' ml)"
proof (cases "unexpired t1 (find_segment k ml)")
  case None
  with assms(2) show ?thesis
    by (simp add: touch_miss [OF assms(2)] find_segment_prune segs_inv_def)
next
  case (Some ev)
  obtain e v where "ev = (e, v)" by fastforce
  with Some assms(5) show ?thesis using touch_hit [OF assms(1-4)] by metis
qed

section \<open>The interface clients rely on\<close>

text \<open>
  What a client of the cache may assume: a fetch returns the stored value unless its deadline has
  passed, and renews the deadline; a store binds the key with a fresh deadline and touches no
  other key; a fetch can drop expired entries of other keys only.
\<close>

locale expiring_store =
  fixes fetch :: "int \<Rightarrow> int \<Rightarrow> 'k \<Rightarrow> 's \<Rightarrow> 'v option \<times> 's"
    and store :: "int \<Rightarrow> 'k \<Rightarrow> 'v \<Rightarrow> 's \<Rightarrow> 's"
    and wipe :: "'s \<Rightarrow> 's"
    and sweep :: "int \<Rightarrow> 's \<Rightarrow> 's"
    and entry :: "'s \<Rightarrow> 'k \<Rightarrow> (int \<times> 'v) option"
    and invar :: "int \<Rightarrow> 's \<Rightarrow> bool"
    and ttl :: int
  assumes invar_later: "invar t s \<Longrightarrow> t \<le> t' \<Longrightarrow> invar t' s"
    and invar_fetch: "invar t s \<Longrightarrow> t \<le> t1 \<Longrightarrow> t1 \<le> t2 \<Longrightarrow> invar t2 (snd (fetch t1 t2 k s))"
    and invar_store: "invar t s \<Longrightarrow> t \<le> t1 \<Longrightarrow> invar t1 (store t1 k v s)"
    and invar_wipe: "invar t (wipe s)"
    and invar_sweep: "invar t s \<Longrightarrow> t \<le> t1 \<Longrightarrow> invar t1 (sweep t1 s)"
    and fetch_value: "invar t s \<Longrightarrow> t \<le> t1 \<Longrightarrow> t1 \<le> t2 \<Longrightarrow>
          fst (fetch t1 t2 k s) = map_option snd (unexpired t1 (entry s k))"
    and fetch_renews: "invar t s \<Longrightarrow> t \<le> t1 \<Longrightarrow> t1 \<le> t2 \<Longrightarrow> unexpired t1 (entry s k) = Some (e, v) \<Longrightarrow>
          \<exists>d. entry (snd (fetch t1 t2 k s)) k = Some (d, v) \<and> t2 + ttl \<le> d"
    and fetch_miss: "invar t s \<Longrightarrow> t \<le> t1 \<Longrightarrow> t1 \<le> t2 \<Longrightarrow> unexpired t1 (entry s k) = None \<Longrightarrow>
          entry (snd (fetch t1 t2 k s)) k = None"
    and fetch_other: "invar t s \<Longrightarrow> t \<le> t1 \<Longrightarrow> t1 \<le> t2 \<Longrightarrow> k' \<noteq> k \<Longrightarrow>
          entry (snd (fetch t1 t2 k s)) k' = unexpired t1 (entry s k')"
    and store_entry: "invar t s \<Longrightarrow> t \<le> t1 \<Longrightarrow>
          \<exists>d. entry (store t1 k v s) k = Some (d, v) \<and> t1 + ttl \<le> d"
    and store_other: "invar t s \<Longrightarrow> t \<le> t1 \<Longrightarrow> k' \<noteq> k \<Longrightarrow> entry (store t1 k v s) k' = entry s k'"
    and wipe_entry: "entry (wipe s) k = None"
    and sweep_entry: "invar t s \<Longrightarrow> t \<le> t1 \<Longrightarrow> entry (sweep t1 s) k = unexpired t1 (entry s k)"
begin

text \<open>A stored value is found for at least a lifetime, whatever happens to other keys.\<close>

lemma fetch_after_store:
  assumes "invar t s" and "t \<le> t0" and "t0 \<le> t1" and "t1 \<le> t2" and "t1 \<le> t0 + ttl"
  shows "fst (fetch t1 t2 k (store t0 k v s)) = Some v"
proof -
  obtain d where d: "entry (store t0 k v s) k = Some (d, v)" "t0 + ttl \<le> d"
    using store_entry [OF assms(1,2)] by blast
  have "invar t0 (store t0 k v s)" using assms(1,2) by (rule invar_store)
  from fetch_value [OF this assms(3,4)] d assms(5) show ?thesis by simp
qed

lemma fetch_absent:
  assumes "invar t s" and "t \<le> t1" and "t1 \<le> t2" and "entry s k = None"
  shows "fst (fetch t1 t2 k s) = None"
  using fetch_value [OF assms(1-3)] assms(4) by simp

end

text \<open>The cache is such a store, with its lifetime as the guaranteed time to live.\<close>

lemma cache_inv_later: "cache_inv cfg t c \<Longrightarrow> t \<le> t' \<Longrightarrow> cache_inv cfg t' c"
  by (auto simp: cache_inv_def intro: segs_inv_later)

lemma put_spec:
  assumes "cfg_ok cfg" and "cache_inv cfg t c" and "t \<le> now"
  obtains d where "now + expiry_ms cfg \<le> d" and "d \<le> now + expiry_ms cfg + segment_ms cfg"
    and "cache_inv cfg now (put cfg now k v c)"
    and "entry_of (put cfg now k v c) = (entry_of c)(k \<mapsto> (d, v))"
proof -
  have inv: "segs_inv cfg t (map_list c)" using assms(2) by (simp add: cache_inv_def)
  obtain d where d: "now + expiry_ms cfg \<le> d" "d \<le> now + expiry_ms cfg + segment_ms cfg"
    and inv': "segs_inv cfg now (snd (insert_entry cfg now k v (map_list c)))"
    and view: "\<And>k'. find_segment k' (snd (insert_entry cfg now k v (map_list c))) =
                 (if k' = k then Some (d, v) else find_segment k' (map_list c))"
    using insert_entry_spec [OF assms(1) inv assms(3)] by metis
  show ?thesis
    by (rule that [OF d]) (use inv' view in \<open>simp_all add: cache_inv_def put_def entry_of_def fun_eq_iff\<close>)
qed

lemma get_eq_try_get:
  "get cfg t1 t2 k c =
     (case fst (try_get cfg t1 t2 k c) of Some v \<Rightarrow> Inr v | None \<Rightarrow> Inl not_found,
      snd (try_get cfg t1 t2 k c))"
  by (simp add: get_def try_get_def split: prod.split)

lemma try_get_simps [simp]:
  "fst (try_get cfg t1 t2 k c) = fst (touch cfg t1 t2 k (map_list c))"
  "map_list (snd (try_get cfg t1 t2 k c)) = snd (touch cfg t1 t2 k (map_list c))"
  by (simp_all add: try_get_def split: prod.split)

text \<open>
  The interpretation is stated for configurations with a nonnegative lifetime and at least one
  segment, written as the pair of the lifetime in seconds and one less than the segment count.
\<close>

definition mk_cfg :: "nat \<Rightarrow> nat \<Rightarrow> cache_cfg" where
  "mk_cfg sec n = \<lparr>expiry = int sec, segments = int n + 1\<rparr>"

lemma cfg_ok_mk_cfg [simp]: "cfg_ok (mk_cfg sec n)"
  by (simp add: cfg_ok_def mk_cfg_def)

lemma cfg_ok_ex: "cfg_ok cfg \<Longrightarrow> \<exists>sec n. cfg = mk_cfg sec n"
  by (rule exI [of _ "nat (expiry cfg)"], rule exI [of _ "nat (segments cfg - 1)"])
     (simp add: cfg_ok_def mk_cfg_def)

interpretation mc: expiring_store
  "try_get (mk_cfg sec n)" "put (mk_cfg sec n)" clear cache_prune entry_of "cache_inv (mk_cfg sec n)"
  "expiry_ms (mk_cfg sec n)"
  for sec n
proof (unfold_locales, goal_cases)
  case (1 t s t')
  then show ?case by (rule cache_inv_later)
next
  case (2 t s t1 t2 k)
  then show ?case by (simp add: cache_inv_def touch_inv)
next
  case (3 t s t1 k v)
  then show ?case by (rule put_spec [OF cfg_ok_mk_cfg, of sec n t s t1])
next
  case (4 t s)
  then show ?case by (simp add: cache_inv_def segs_inv_def clear_def)
next
  case (5 t s t1)
  then show ?case
    by (auto simp: cache_inv_def cache_prune_def intro: segs_inv_prune segs_inv_later)
next
  case (6 t s t1 t2 k)
  then show ?case by (simp add: cache_inv_def entry_of_def touch_value)
next
  case (7 t s t1 t2 k e v)
  then have inv: "segs_inv (mk_cfg sec n) t (map_list s)"
    and hit: "unexpired t1 (find_segment k (map_list s)) = Some (e, v)"
    by (simp_all add: cache_inv_def entry_of_def)
  show ?case
    using touch_hit [OF cfg_ok_mk_cfg inv 7(2,3) hit] by (simp add: entry_of_def) metis
next
  case (8 t s t1 t2 k)
  then show ?case by (simp add: cache_inv_def entry_of_def touch_gone)
next
  case (9 t s t1 t2 k' k)
  then show ?case by (simp add: cache_inv_def entry_of_def touch_other)
next
  case (10 t s t1 k v)
  then show ?case
    using put_spec [OF cfg_ok_mk_cfg, of sec n t s t1 k v] by (metis fun_upd_same)
next
  case (11 t s t1 k' k v)
  then show ?case
    using put_spec [OF cfg_ok_mk_cfg, of sec n t s t1 k v] by (metis fun_upd_other)
next
  case (12 s k)
  show ?case by (simp add: entry_of_def clear_def)
next
  case (13 t s t1 k)
  then show ?case
    by (simp add: cache_inv_def segs_inv_def cache_prune_def entry_of_def find_segment_prune)
qed

section \<open>Histories of operations\<close>

text \<open>
  A history is a list of operations with their clock readings. \<open>chron t\<close> says that the readings
  never go back, starting from \<open>t\<close>.
\<close>

datatype ('k, 'v) cache_op =
    Op_put int 'k 'v
  | Op_get int int 'k
  | Op_get_or_put int int int 'k 'v
  | Op_visit int 'k "'v \<Rightarrow> 'v"
  | Op_erase int 'k
  | Op_prune int

fun cache_step :: "cache_cfg \<Rightarrow> ('k, 'v) cache_op \<Rightarrow> ('k, 'v) memcache \<Rightarrow> ('k, 'v) memcache" where
  "cache_step cfg (Op_put t k v) c = put cfg t k v c"
| "cache_step cfg (Op_get t1 t2 k) c = snd (get cfg t1 t2 k c)"
| "cache_step cfg (Op_get_or_put t1 t2 t3 k v) c = snd (get_or_put cfg t1 t2 t3 k (\<lambda>_. v) c)"
| "cache_step cfg (Op_visit t k f) c = snd (visit t k f c)"
| "cache_step cfg (Op_erase t k) c = snd (erase k c)"
| "cache_step cfg (Op_prune t) c = cache_prune t c"

fun cache_run :: "cache_cfg \<Rightarrow> ('k, 'v) cache_op list \<Rightarrow> ('k, 'v) memcache \<Rightarrow> ('k, 'v) memcache" where
  "cache_run cfg [] c = c"
| "cache_run cfg (op # ops) c = cache_run cfg ops (cache_step cfg op c)"

fun op_times :: "('k, 'v) cache_op \<Rightarrow> int list" where
  "op_times (Op_put t k v) = [t]"
| "op_times (Op_get t1 t2 k) = [t1, t2]"
| "op_times (Op_get_or_put t1 t2 t3 k v) = [t1, t2, t3]"
| "op_times (Op_visit t k f) = [t]"
| "op_times (Op_erase t k) = [t]"
| "op_times (Op_prune t) = [t]"

definition op_end :: "('k, 'v) cache_op \<Rightarrow> int" where
  "op_end op = last (op_times op)"

fun op_key :: "('k, 'v) cache_op \<Rightarrow> 'k option" where
  "op_key (Op_put t k v) = Some k"
| "op_key (Op_get t1 t2 k) = Some k"
| "op_key (Op_get_or_put t1 t2 t3 k v) = Some k"
| "op_key (Op_visit t k f) = Some k"
| "op_key (Op_erase t k) = Some k"
| "op_key (Op_prune t) = None"

fun chron :: "int \<Rightarrow> ('k, 'v) cache_op list \<Rightarrow> bool" where
  "chron t [] = True"
| "chron t (op # ops) = (sorted (t # op_times op) \<and> chron (op_end op) ops)"

definition run_end :: "int \<Rightarrow> ('k, 'v) cache_op list \<Rightarrow> int" where
  "run_end t ops = fold (\<lambda>op _. op_end op) ops t"

lemma run_end_simps [simp]:
  "run_end t [] = t" "run_end t (op # ops) = run_end (op_end op) ops"
  by (simp_all add: run_end_def)

lemma map_fst_map_assign: "k \<in> fst ` set m \<Longrightarrow> map fst (map_assign k v m) = map fst m"
proof (induction m)
  case (Cons p m)
  then show ?case by (cases p; cases "fst p = k") simp_all
qed simp

lemma modify_live_keys:
  "map fst (modify_live now k f ml) = map fst ml \<and> all_keys (modify_live now k f ml) = all_keys ml"
proof (induction ml)
  case (Cons p ml)
  then show ?case
    by (cases p) (auto simp: map_fst_map_assign map_of_key split: option.split)
qed simp

lemma find_segment_modify_live:
  "k' \<noteq> k \<Longrightarrow> find_segment k' (modify_live now k f ml) = find_segment k' ml"
  by (induction ml) (auto simp: std_map split: option.split)

lemma segs_inv_cong:
  "map fst ml' = map fst ml \<Longrightarrow> all_keys ml' = all_keys ml \<Longrightarrow> segs_inv cfg t ml' = segs_inv cfg t ml"
  by (metis list.set_map segs_inv_def segs_ok_def)

lemma unexpired_twice: "t \<le> now \<Longrightarrow> unexpired now (unexpired t x) = unexpired now x"
  by (cases "(t, x)" rule: unexpired.cases) auto

lemma get_or_put_simps:
  "touch cfg t1 t2 k (map_list c) = (Some v, ml) \<Longrightarrow>
     get_or_put cfg t1 t2 t3 k mk c = (Some v, c\<lparr>map_list := ml\<rparr>)"
  "touch cfg t1 t2 k (map_list c) = (None, ml) \<Longrightarrow>
     get_or_put cfg t1 t2 t3 k mk c =
       (fst (insert_entry cfg t3 k (mk ()) ml), put cfg t3 k (mk ()) (c\<lparr>map_list := ml\<rparr>))"
  by (simp_all add: get_or_put_def put_def split: prod.split)

text \<open>Every operation keeps the invariant, and leaves the entries of other keys alone.\<close>

lemma get_or_put_step:
  assumes "cfg_ok cfg" and "cache_inv cfg t c" and "t \<le> t1" "t1 \<le> t2" "t2 \<le> t3"
  shows "cache_inv cfg t3 (snd (get_or_put cfg t1 t2 t3 k mk c))"
    and "k' \<noteq> k \<Longrightarrow> entry_of (snd (get_or_put cfg t1 t2 t3 k mk c)) k' = unexpired t1 (entry_of c k')"
proof -
  obtain r ml where tch: "touch cfg t1 t2 k (map_list c) = (r, ml)" by fastforce
  let ?c1 = "c\<lparr>map_list := ml\<rparr>"
  have inv: "segs_inv cfg t (map_list c)" using assms(2) by (simp add: cache_inv_def)
  have inv1: "cache_inv cfg t2 ?c1"
    using touch_inv [OF assms(1) inv assms(3,4), of k] tch by (simp add: cache_inv_def)
  have view1: "entry_of ?c1 k' = unexpired t1 (entry_of c k')" if "k' \<noteq> k" for k'
    using touch_other [OF assms(1) inv assms(3,4) that] tch by (simp add: entry_of_def)
  have "cache_inv cfg t3 (snd (get_or_put cfg t1 t2 t3 k mk c)) \<and>
    (k' \<noteq> k \<longrightarrow> entry_of (snd (get_or_put cfg t1 t2 t3 k mk c)) k' = unexpired t1 (entry_of c k'))"
  proof (cases r)
    case None
    from put_spec [OF assms(1) inv1 assms(5)]
    obtain d where "cache_inv cfg t3 (put cfg t3 k (mk ()) ?c1)"
      and "entry_of (put cfg t3 k (mk ()) ?c1) = (entry_of ?c1)(k \<mapsto> (d, mk ()))"
      by blast
    with None tch view1 show ?thesis by (simp add: get_or_put_simps(2))
  next
    case (Some v)
    with tch inv1 view1 assms(5) show ?thesis
      by (simp add: get_or_put_simps(1) cache_inv_later)
  qed
  then show "cache_inv cfg t3 (snd (get_or_put cfg t1 t2 t3 k mk c))"
    and "k' \<noteq> k \<Longrightarrow> entry_of (snd (get_or_put cfg t1 t2 t3 k mk c)) k' = unexpired t1 (entry_of c k')"
    by simp_all
qed

text \<open>Its result is stored, and lives at least a lifetime from the second clock reading on.\<close>

lemma get_or_put_result:
  assumes "cfg_ok cfg" and "cache_inv cfg t c" and "t \<le> t1" "t1 \<le> t2" "t2 \<le> t3"
    and "get_or_put cfg t1 t2 t3 k mk c = (r, c')"
  obtains v d where "r = Some v" and "entry_of c' k = Some (d, v)" and "t2 + expiry_ms cfg \<le> d"
proof -
  obtain r1 ml where tch: "touch cfg t1 t2 k (map_list c) = (r1, ml)" by fastforce
  have inv: "segs_inv cfg t (map_list c)" using assms(2) by (simp add: cache_inv_def)
  have inv1: "segs_inv cfg t2 ml" using touch_inv [OF assms(1) inv assms(3,4), of k] tch by simp
  show ?thesis
  proof (cases r1)
    case None
    with tch assms(6) have c': "r = fst (insert_entry cfg t3 k (mk ()) ml)"
      "map_list c' = snd (insert_entry cfg t3 k (mk ()) ml)"
      by (auto simp: get_or_put_simps put_def)
    obtain d where "t3 + expiry_ms cfg \<le> d" "fst (insert_entry cfg t3 k (mk ()) ml) = Some (mk ())"
      "find_segment k (snd (insert_entry cfg t3 k (mk ()) ml)) = Some (d, mk ())"
      using insert_entry_spec [OF assms(1) inv1 assms(5)] by metis
    with c' assms(5) show ?thesis using that by (simp add: entry_of_def)
  next
    case (Some v)
    then have "map_option snd (unexpired t1 (find_segment k (map_list c))) = Some v"
      using tch touch_value [OF assms(1) inv assms(3,4), of k] by simp
    then obtain e where "unexpired t1 (find_segment k (map_list c)) = Some (e, v)" by auto
    from touch_hit [OF assms(1) inv assms(3,4) this] tch
    obtain d where "t2 + expiry_ms cfg \<le> d" "find_segment k ml = Some (d, v)" by (metis snd_conv)
    with Some tch assms(6) show ?thesis using that by (auto simp: get_or_put_simps entry_of_def)
  qed
qed

lemma cache_step_spec:
  assumes "cfg_ok cfg" and "cache_inv cfg t c" and "sorted (t # op_times op)"
  shows "cache_inv cfg (op_end op) (cache_step cfg op c) \<and>
    (op_key op \<noteq> Some k \<longrightarrow> op_end op \<le> now \<longrightarrow>
       unexpired now (entry_of (cache_step cfg op c) k) = unexpired now (entry_of c k))"
proof (cases op)
  case (Op_put t' k' v)
  with assms show ?thesis
    using put_spec [OF assms(1,2), of t' k' v] by (simp add: op_end_def) (metis fun_upd_other)
next
  case (Op_get t1 t2 k')
  have "get cfg t1 t2 k' c = (fst (get cfg t1 t2 k' c), snd (try_get cfg t1 t2 k' c))"
    by (simp add: get_eq_try_get)
  with Op_get assms show ?thesis
    by (simp add: op_end_def cache_inv_def entry_of_def touch_inv touch_other unexpired_twice
        get_eq_try_get)
next
  case (Op_get_or_put t1 t2 t3 k' v)
  with assms show ?thesis
    by (auto simp: op_end_def get_or_put_step unexpired_twice)
next
  case (Op_visit t' k' f)
  with assms show ?thesis
    using segs_inv_cong [of "modify_live t' k' f (map_list c)" "map_list c" cfg t']
    by (auto simp: op_end_def visit_def cache_inv_def entry_of_def modify_live_keys
        find_segment_modify_live intro: segs_inv_later)
next
  case (Op_erase t' k')
  with assms show ?thesis
    by (auto simp: op_end_def erase_def cache_inv_def entry_of_def find_segment_erase_all
        intro: segs_inv_later segs_inv_erase_all)
next
  case (Op_prune t')
  with assms have "segs_ok (map_list c)" and "segs_inv cfg t' (map_list c)"
    by (auto simp: cache_inv_def segs_inv_def)
  with Op_prune show ?thesis
    by (auto simp: op_end_def cache_inv_def cache_prune_def entry_of_def find_segment_prune
        unexpired_twice segs_inv_prune)
qed

lemma cache_run_spec:
  assumes "cfg_ok cfg" and "cache_inv cfg t c" and "chron t ops"
  shows "cache_inv cfg (run_end t ops) (cache_run cfg ops c) \<and>
    (k \<notin> set (List.map_filter op_key ops) \<longrightarrow> run_end t ops \<le> now \<longrightarrow>
       unexpired now (entry_of (cache_run cfg ops c) k) = unexpired now (entry_of c k))"
  using assms(2,3)
proof (induction ops arbitrary: t c)
  case (Cons op ops)
  have step: "cache_inv cfg (op_end op) (cache_step cfg op c)"
    using cache_step_spec [OF assms(1) Cons.prems(1)] Cons.prems(2) by simp
  have "op_end op \<le> run_end (op_end op) ops" if "chron (op_end op) ops" for ops :: "('a, 'b) cache_op list"
    using that
  proof (induction ops arbitrary: op)
    case (Cons op' ops)
    have "op_end op \<le> op_end op'" using Cons.prems by (cases op') (auto simp: op_end_def)
    with Cons show ?case by fastforce
  qed simp
  then have "op_end op \<le> run_end t (op # ops)" using Cons.prems(2) by simp
  with Cons.IH [OF step] Cons.prems cache_step_spec [OF assms(1) Cons.prems(1), of op k now]
  show ?case by (auto simp: List.map_filter_simps split: option.splits)
qed simp

lemma at_eq:
  assumes "cache_inv cfg t c"
  shows "at now k c =
    (case unexpired now (entry_of c k) of None \<Rightarrow> Inl not_found | Some (e, v) \<Rightarrow> Inr v)"
  using assms
  by (auto simp: at_def cache_inv_def segs_inv_def entry_of_def find_live_eq split: option.split)

text \<open>
  Deadlines of different segments are more than a segment width apart, because a new segment is
  created only when the youngest one no longer lives a full lifetime.
\<close>

definition spaced :: "cache_cfg \<Rightarrow> ('k, 'v) segs \<Rightarrow> bool" where
  "spaced cfg ml \<longleftrightarrow> sorted_wrt (\<lambda>a b. b + segment_ms cfg < a) (map fst ml)"

lemma map_fst_seg_update [simp]: "map fst (seg_update e f ml) = map fst ml"
  by (induction ml) auto

lemma spaced_prune: "spaced cfg ml \<Longrightarrow> spaced cfg (prune now ml)"
proof (induction ml)
  case (Cons p ml)
  have "set (prune now ml) \<subseteq> set ml" by (auto simp: prune_def)
  with Cons show ?case by (cases p) (auto simp: spaced_def prune_Cons)
qed (simp add: prune_def)

lemma spaced_youngest:
  assumes "cfg_ok cfg" and "spaced cfg ml"
  shows "spaced cfg (snd (youngest_segment cfg now ml))"
proof (cases ml)
  case Nil
  then show ?thesis by (simp add: youngest_segment_def Let_def spaced_def)
next
  case (Cons p rest)
  obtain e m where p: "p = (e, m)" by fastforce
  have nonneg: "0 \<le> segment_ms cfg" using cfg_ok_bounds [OF assms(1)] by simp
  show ?thesis
  proof (cases "e < now + expiry_ms cfg")
    case True
    with assms(2) Cons p nonneg have "\<forall>e' \<in> fst ` set ml. e' < now + expiry_ms cfg"
      by (force simp: spaced_def)
    then have "\<forall>e' \<in> fst ` set ml. e' < now + expiry_ms cfg + segment_ms cfg \<and>
        e' + segment_ms cfg < now + expiry_ms cfg + segment_ms cfg"
      using nonneg by force
    with True Cons p assms(2) show ?thesis
      using at_or_new_front [of ml "now + expiry_ms cfg + segment_ms cfg"]
      by (simp add: youngest_segment_def Let_def spaced_def)
  qed (use assms(2) Cons p in \<open>simp add: youngest_segment_def Let_def\<close>)
qed

lemma spaced_insert:
  assumes "cfg_ok cfg" and "spaced cfg ml"
  shows "spaced cfg (snd (insert_entry cfg now k v ml))"
proof -
  have "spaced cfg (erase_all k ml)" using assms(2) by (simp add: spaced_def)
  from spaced_youngest [OF assms(1) this, of now] show ?thesis
    by (cases "youngest_segment cfg now (erase_all k ml)")
       (simp add: insert_entry_def spaced_def Let_def)
qed

lemma spaced_touch:
  assumes "cfg_ok cfg" and "spaced cfg ml"
  shows "spaced cfg (snd (touch cfg t1 t2 k ml))"
  using spaced_youngest [OF assms(1) spaced_prune [OF assms(2)], of t2 t1] spaced_prune [OF assms(2)]
  by (cases "youngest_segment cfg t2 (prune t1 ml)")
     (auto simp: touch_def move_to_youngest_def spaced_def Let_def split: option.split)

lemma spaced_step:
  assumes "cfg_ok cfg" and "spaced cfg (map_list c)"
  shows "spaced cfg (map_list (cache_step cfg op c))"
proof (cases op)
  case (Op_get_or_put t1 t2 t3 k v)
  obtain r ml where tch: "touch cfg t1 t2 k (map_list c) = (r, ml)" by fastforce
  have "spaced cfg ml" using spaced_touch [OF assms, of t1 t2 k] tch by simp
  with Op_get_or_put tch spaced_insert [OF assms(1), of ml t3 k v] show ?thesis
    by (cases r) (simp_all add: get_or_put_simps put_def)
next
  case (Op_visit t k f)
  with assms(2) show ?thesis by (simp add: visit_def spaced_def modify_live_keys)
qed (use assms in \<open>simp_all add: put_def spaced_insert get_eq_try_get spaced_touch erase_def
       cache_prune_def spaced_prune, simp add: spaced_def\<close>)

lemma spaced_run:
  "cfg_ok cfg \<Longrightarrow> spaced cfg (map_list c) \<Longrightarrow> spaced cfg (map_list (cache_run cfg ops c))"
  by (induction ops arbitrary: c) (simp_all add: spaced_step)

lemma spaced_span:
  "0 \<le> w \<Longrightarrow> sorted_wrt (\<lambda>a b. b + w < a) es \<Longrightarrow> es \<noteq> [] \<Longrightarrow>
     int (length es - 1) * w \<le> hd es - last es"
proof (induction es)
  case (Cons e es)
  then show ?case
    by (cases es) (auto simp: algebra_simps)
qed simp

lemma live_size_card:
  "segs_ok ml \<Longrightarrow> live_size now ml = card {k. find_live now k ml \<noteq> None}"
proof (induction ml)
  case (Cons p ml)
  obtain e m where p: "p = (e, m)" by fastforce
  show ?case
  proof (cases "now > e")
    case False
    let ?live = "{k. find_live now k ml \<noteq> None}"
    have split: "{k. find_live now k (p # ml) \<noteq> None} = fst ` set m \<union> ?live"
      using False p map_of_eq_None_iff [of m] by (auto simp: map_of_key split: option.splits)
    have "?live \<subseteq> set (all_keys ml)"
      using Cons.prems p by (auto simp: find_live_eq) (metis find_segment_None unexpired.simps(1) option.distinct(1))
    then have fin: "finite ?live" and disj: "fst ` set m \<inter> ?live = {}"
      using Cons.prems p by (auto intro: finite_subset)
    have "card (fst ` set m) = length m"
      using Cons.prems p by (metis distinct_card length_map list.set_map segs_ok_Cons)
    with Cons p False split fin disj show ?thesis by (simp add: card_Un_disjoint)
  qed (use p in simp)
qed simp

section \<open>Properties\<close>

text \<open>
  C8. A value stored at \<open>t0\<close> is found for a whole lifetime, and is gone at the latest one segment
  width after that, through any later history of operations on other keys and of pruning.
\<close>

theorem put_lifetime:
  assumes "cfg_ok cfg" and "cache_inv cfg t c" and "t \<le> t0" and "chron t0 ops"
    and "k \<notin> set (List.map_filter op_key ops)" and "run_end t0 ops \<le> now"
  shows "(now \<le> t0 + expiry_ms cfg \<longrightarrow> at now k (cache_run cfg ops (put cfg t0 k v c)) = Inr v) \<and>
    (t0 + expiry_ms cfg + segment_ms cfg < now \<longrightarrow>
       at now k (cache_run cfg ops (put cfg t0 k v c)) = Inl not_found)"
proof -
  obtain d where d: "t0 + expiry_ms cfg \<le> d" "d \<le> t0 + expiry_ms cfg + segment_ms cfg"
    and inv: "cache_inv cfg t0 (put cfg t0 k v c)"
    and entry: "entry_of (put cfg t0 k v c) = (entry_of c)(k \<mapsto> (d, v))"
    using put_spec [OF assms(1-3)] .
  have run: "cache_inv cfg (run_end t0 ops) (cache_run cfg ops (put cfg t0 k v c))"
    and view: "unexpired now (entry_of (cache_run cfg ops (put cfg t0 k v c)) k) =
      unexpired now (Some (d, v))"
    using cache_run_spec [OF assms(1) inv assms(4)] assms(5,6) entry by auto
  show ?thesis using d view by (auto simp: at_eq [OF run])
qed

theorem put_lifetime_witness:
  "at 2200 ''a'' (cache_run (mk_cfg 2 9) [Op_put 500 ''b'' 7, Op_get 900 900 ''b'']
                   (put (mk_cfg 2 9) 200 ''a'' (5::int) memcache_ctor)) = Inr 5 \<and>
   at 2401 ''a'' (cache_run (mk_cfg 2 9) [Op_put 500 ''b'' 7, Op_get 900 900 ''b'']
                   (put (mk_cfg 2 9) 200 ''a'' (5::int) memcache_ctor)) = Inl not_found"
proof -
  have inv: "cache_inv (mk_cfg 2 9) 0 (memcache_ctor :: (string, int) memcache)"
    by (simp add: cache_inv_def segs_inv_def memcache_ctor_def)
  have ms: "expiry_ms (mk_cfg 2 9) = 2000" "segment_ms (mk_cfg 2 9) = 200"
    by (simp_all add: expiry_ms_def segment_ms_def mk_cfg_def c_div_def)
  show ?thesis
    using put_lifetime [OF cfg_ok_mk_cfg inv, of 200
        "[Op_put 500 ''b'' 7, Op_get 900 900 ''b'']" "''a''" 2200 5]
      put_lifetime [OF cfg_ok_mk_cfg inv, of 200
        "[Op_put 500 ''b'' 7, Op_get 900 900 ''b'']" "''a''" 2401 5]
    by (simp add: ms List.map_filter_simps op_end_def)
qed

text \<open>
  \<open>get\<close> extends the lifetime: a value it returned at \<open>t2\<close> is found for a whole further
  lifetime, and is gone one segment width after that, whatever happens to other keys.
\<close>

lemma get_extends_lifetime:
  assumes "cfg_ok cfg" and "cache_inv cfg t c" and "t \<le> t1" and "t1 \<le> t2"
    and "get cfg t1 t2 k c = (Inr v, c')" and "chron t2 ops"
    and "k \<notin> set (List.map_filter op_key ops)" and "run_end t2 ops \<le> now"
  shows "(now \<le> t2 + expiry_ms cfg \<longrightarrow> at now k (cache_run cfg ops c') = Inr v) \<and>
    (t2 + expiry_ms cfg + segment_ms cfg < now \<longrightarrow> at now k (cache_run cfg ops c') = Inl not_found)"
proof -
  have inv: "segs_inv cfg t (map_list c)" using assms(2) by (simp add: cache_inv_def)
  have ret: "fst (touch cfg t1 t2 k (map_list c)) = Some v"
    and c': "c' = snd (try_get cfg t1 t2 k c)"
    using assms(5) by (auto simp: get_eq_try_get split: option.splits)
  then obtain e where hit: "unexpired t1 (find_segment k (map_list c)) = Some (e, v)"
    using touch_value [OF assms(1) inv assms(3,4), of k] by auto
  obtain d where d: "t2 + expiry_ms cfg \<le> d" "d \<le> t2 + expiry_ms cfg + segment_ms cfg"
    and "segs_inv cfg t2 (map_list c')" and "find_segment k (map_list c') = Some (d, v)"
    using touch_hit [OF assms(1) inv assms(3,4) hit] c' by (metis try_get_simps(2))
  then have inv': "cache_inv cfg t2 c'" and "entry_of c' k = Some (d, v)"
    by (simp_all add: cache_inv_def entry_of_def)
  then have run: "cache_inv cfg (run_end t2 ops) (cache_run cfg ops c')"
    and view: "unexpired now (entry_of (cache_run cfg ops c') k) = unexpired now (Some (d, v))"
    using cache_run_spec [OF assms(1) inv' assms(6)] assms(7,8) by auto
  show ?thesis using d view by (auto simp: at_eq [OF run])
qed

text \<open>
  \<open>get_or_put\<close> creates a value once: within the lifetime of the value the first call returned,
  a second call for the same key returns that value and never the result of its own factory.
\<close>

lemma get_or_put_once:
  assumes "cfg_ok cfg" and "cache_inv cfg t c" and "t \<le> t1" "t1 \<le> t2" "t2 \<le> t3"
    and "get_or_put cfg t1 t2 t3 k mk c = (r, c')" and "chron t3 ops"
    and "k \<notin> set (List.map_filter op_key ops)" and "run_end t3 ops \<le> u1" "u1 \<le> u2"
    and "u1 \<le> t2 + expiry_ms cfg"
  shows "r \<noteq> None \<and> fst (get_or_put cfg u1 u2 u3 k mk' (cache_run cfg ops c')) = r"
proof -
  obtain v d where r: "r = Some v" and d: "entry_of c' k = Some (d, v)" and "t2 + expiry_ms cfg \<le> d"
    using get_or_put_result [OF assms(1-6)] .
  then have le: "u1 \<le> d" using assms(11) by simp
  have inv3: "cache_inv cfg t3 c'" using get_or_put_step(1) [OF assms(1-5), of k mk] assms(6) by simp
  let ?c2 = "cache_run cfg ops c'"
  have run: "segs_inv cfg (run_end t3 ops) (map_list ?c2)"
    and view: "unexpired u1 (find_segment k (map_list ?c2)) = Some (d, v)"
    using cache_run_spec [OF assms(1) inv3 assms(7)] assms(8,9) d le
    by (auto simp: cache_inv_def entry_of_def)
  have "fst (touch cfg u1 u2 k (map_list ?c2)) = Some v"
    using touch_value [OF assms(1) run assms(9,10)] view by simp
  then show ?thesis
    using r by (cases "touch cfg u1 u2 k (map_list ?c2)") (simp add: get_or_put_simps)
qed



text \<open>
  C28. Memory bound: after any history, pruning leaves so few segments that all but two of them
  fit, at one segment width each, into a single lifetime.
\<close>

theorem segments_bounded:
  assumes "cfg_ok cfg" and "chron t ops" and "run_end t ops \<le> now"
  shows "(int (length (prune now (map_list (cache_run cfg ops memcache_ctor)))) - 2) * segment_ms cfg
           \<le> expiry_ms cfg"
proof -
  let ?c = "cache_run cfg ops (memcache_ctor :: ('a, 'b) memcache)"
  let ?es = "map fst (prune now (map_list ?c))"
  have nonneg: "0 \<le> segment_ms cfg" "0 \<le> expiry_ms cfg" using cfg_ok_bounds [OF assms(1)] by simp_all
  have start: "cache_inv cfg t (memcache_ctor :: ('a, 'b) memcache)"
    by (simp add: cache_inv_def segs_inv_def memcache_ctor_def)
  have horizon: "\<forall>e \<in> set ?es. now \<le> e \<and> e \<le> now + expiry_ms cfg + segment_ms cfg"
    using cache_run_spec [OF assms(1) start assms(2)] assms(3)
    by (force simp: cache_inv_def segs_inv_def deadlines_prune)
  have "spaced cfg (map_list ?c)"
    by (rule spaced_run [OF assms(1)]) (simp add: spaced_def memcache_ctor_def)
  then have "sorted_wrt (\<lambda>a b. b + segment_ms cfg < a) ?es"
    using spaced_prune spaced_def by blast
  then have span: "?es \<noteq> [] \<Longrightarrow> int (length ?es - 1) * segment_ms cfg \<le> hd ?es - last ?es"
    by (rule spaced_span [OF nonneg(1)])
  show ?thesis
  proof (cases "?es = []")
    case True
    then show ?thesis using nonneg by simp
  next
    case False
    then have "hd ?es - last ?es \<le> expiry_ms cfg + segment_ms cfg"
      using horizon by (smt (verit) hd_in_set last_in_set)
    moreover have "int (length ?es - 1) = int (length ?es) - 1"
      using False by (cases ?es) simp_all
    ultimately show ?thesis using span [OF False] by (simp add: algebra_simps)
  qed
qed

theorem segments_bounded_witness:
  "(int (length (prune 600 (map_list (cache_run (mk_cfg 2 9)
       [Op_put 0 ''a'' (1::int), Op_put 500 ''b'' 2] memcache_ctor)))) - 2) * 200 \<le> 2000"
proof -
  have ms: "expiry_ms (mk_cfg 2 9) = 2000" "segment_ms (mk_cfg 2 9) = 200"
    by (simp_all add: expiry_ms_def segment_ms_def mk_cfg_def c_div_def)
  show ?thesis
    using segments_bounded [OF cfg_ok_mk_cfg, of 0 "[Op_put 0 ''a'' (1::int), Op_put 500 ''b'' 2]" 600 2 9]
    by (simp add: ms op_end_def)
qed

end
