(* ===== verification/Rate_Limit.thy ===== *)
theory Rate_Limit
  imports Memcache
begin

text \<open>
  The token bucket limiter of \<open>include/libasyik/rate_limit.hpp\<close>. The base class is a template over
  its store (\<open>rate_limit<store>\<close>), so its operations take the store's \<open>get_quota\<close> and
  \<open>put_quota\<close> as arguments; \<open>rate_limit_memory\<close> instantiates them with the cache of
  \<open>Memcache\<close>. A quota is the pair of the remaining points and the millisecond time they were
  computed for, both 32 bits wide.

  A call reads the clock up to four times: \<open>n\<close> in \<open>get_remaining_int\<close> (truncated to 32 bits),
  \<open>t1\<close> and \<open>t2\<close> in the cache's \<open>touch\<close>, \<open>t3\<close> in its \<open>insert\<close>. \<open>mtx\<close> is held for
  the whole call, so calls are atomic.
\<close>

section \<open>The limiter\<close>

record rate_limit =
  max_bucket :: u32
  rate :: u32

type_synonym quota = "u32 \<times> u32"

datatype rate_limit_error = Bad_bucket_size

text \<open>The product \<open>_rate * 100\<close> is computed in \<open>unsigned int\<close> and wraps.\<close>

definition rate_limit_ctor :: "u32 \<Rightarrow> u32 \<Rightarrow> rate_limit_error + rate_limit" where
  "rate_limit_ctor b r =
     (if b > r * 100 then Inl Bad_bucket_size else Inr \<lparr>max_bucket = b, rate = r\<rparr>)"

text \<open>The refill of a stored quota at time \<open>now_ms\<close>.\<close>

definition refill :: "rate_limit \<Rightarrow> u32 \<Rightarrow> quota \<Rightarrow> quota" where
  "refill l now_ms q =
     (case q of (remaining, current_ms) \<Rightarrow>
        (let distance_ms = now_ms - current_ms;
             recovered_quota = (ucast distance_ms * ucast (rate l)) div 1000 :: u64
         in if recovered_quota \<noteq> 0 then
              (if ucast remaining + recovered_quota \<ge> ucast (max_bucket l) then (max_bucket l, now_ms)
               else (remaining + ucast recovered_quota,
                     current_ms + ucast ((recovered_quota * 1000 + ucast (rate l) - 1) div ucast (rate l))))
            else (remaining, current_ms)))"

definition get_remaining_int ::
  "(int \<Rightarrow> int \<Rightarrow> 'k \<Rightarrow> 's \<Rightarrow> quota option \<times> 's) \<Rightarrow> rate_limit
     \<Rightarrow> int \<Rightarrow> int \<Rightarrow> int \<Rightarrow> 'k \<Rightarrow> 's \<Rightarrow> quota \<times> 's"
where
  "get_remaining_int get_quota l n t1 t2 hash s =
     (let now_ms = word_of_int n in
      case get_quota t1 t2 hash s of
        (Some q, s') \<Rightarrow> (refill l now_ms q, s')
      | (None, s') \<Rightarrow> ((max_bucket l, now_ms), s'))"

definition checkpoint ::
  "(int \<Rightarrow> int \<Rightarrow> 'k \<Rightarrow> 's \<Rightarrow> quota option \<times> 's) \<Rightarrow> (int \<Rightarrow> 'k \<Rightarrow> quota \<Rightarrow> 's \<Rightarrow> 's) \<Rightarrow> rate_limit
     \<Rightarrow> int \<Rightarrow> int \<Rightarrow> int \<Rightarrow> int \<Rightarrow> 'k \<Rightarrow> u32 \<Rightarrow> 's \<Rightarrow> u32 \<times> 's"
where
  "checkpoint get_quota put_quota l n t1 t2 t3 hash point s =
     (let ((remaining, current_ms), s') = get_remaining_int get_quota l n t1 t2 hash s;
          point' = (if point > remaining then remaining else point);
          remaining' = remaining - point'
      in (point', put_quota t3 hash (remaining', current_ms) s'))"

definition get_remaining ::
  "(int \<Rightarrow> int \<Rightarrow> 'k \<Rightarrow> 's \<Rightarrow> quota option \<times> 's) \<Rightarrow> rate_limit
     \<Rightarrow> int \<Rightarrow> int \<Rightarrow> int \<Rightarrow> 'k \<Rightarrow> 's \<Rightarrow> u32 \<times> 's"
where
  "get_remaining get_quota l n t1 t2 hash s =
     (let ((remaining, current_ms), s') = get_remaining_int get_quota l n t1 t2 hash s in (remaining, s'))"

definition reset :: "('s \<Rightarrow> 's) \<Rightarrow> 's \<Rightarrow> 's" where
  "reset reset_store s = reset_store s"

section \<open>\<open>rate_limit_memory\<close>\<close>

text \<open>Its cache keeps an entry for 100 seconds in 16 segments.\<close>

type_synonym quota_cache = "(string, quota) memcache"

definition quota_cfg :: cache_cfg where
  "quota_cfg = \<lparr>expiry = 100, segments = 16\<rparr>"

definition put_quota :: "int \<Rightarrow> string \<Rightarrow> quota \<Rightarrow> quota_cache \<Rightarrow> quota_cache" where
  "put_quota t3 key q c = put quota_cfg t3 key q c"

text \<open>\<open>get\<close> throws \<open>std::out_of_range\<close> for a missing key, which \<open>get_remaining_int\<close> catches.\<close>

definition get_quota :: "int \<Rightarrow> int \<Rightarrow> string \<Rightarrow> quota_cache \<Rightarrow> quota option \<times> quota_cache" where
  "get_quota t1 t2 key c =
     (case get quota_cfg t1 t2 key c of (Inr q, c') \<Rightarrow> (Some q, c') | (Inl e, c') \<Rightarrow> (None, c'))"

definition reset_store :: "quota_cache \<Rightarrow> quota_cache" where
  "reset_store c = clear c"

definition make_rate_limit_memory :: "u32 \<Rightarrow> u32 \<Rightarrow> rate_limit_error + (rate_limit \<times> quota_cache)" where
  "make_rate_limit_memory b r =
     (case rate_limit_ctor b r of Inl e \<Rightarrow> Inl e | Inr l \<Rightarrow> Inr (l, memcache_ctor))"

section \<open>Arithmetic of the refill\<close>

text \<open>
  On natural numbers: no 64-bit operation of \<^const>\<open>refill\<close> overflows, so the words compute the
  exact quotients.
\<close>

lemma unat_u32: "unat (x :: u32) < 2 ^ 32"
  using unsigned_less [of x, where 'a = nat] by simp

lemma unat_ucast_u64 [simp]: "unat (ucast (x :: u32) :: u64) = unat x"
proof -
  have "unat x < 2 ^ 32" by (rule unat_u32)
  then show ?thesis by (simp add: unsigned_ucast_eq take_bit_nat_eq_self)
qed

lemma mult_u32_bound:
  fixes d r :: u32
  shows "unat d * unat r + unat r < 2 ^ 64"
proof -
  have "unat d \<le> 2 ^ 32 - 1" "unat r \<le> 2 ^ 32 - 1"
    using unat_u32 [of d] unat_u32 [of r] by simp_all
  then have "unat d * unat r + unat r \<le> (2 ^ 32 - 1) * (2 ^ 32 - 1) + (2 ^ 32 - 1)"
    by (intro add_mono mult_le_mono) simp_all
  also have "\<dots> < 2 ^ 64" by simp
  finally show ?thesis .
qed

definition recovered :: "rate_limit \<Rightarrow> nat \<Rightarrow> nat" where
  "recovered l d = d * unat (rate l) div 1000"

definition advance :: "rate_limit \<Rightarrow> nat \<Rightarrow> nat" where
  "advance l d = (recovered l d * 1000 + unat (rate l) - 1) div unat (rate l)"

lemma recovered_le: "recovered l d * 1000 \<le> d * unat (rate l)"
  by (simp add: recovered_def)

lemma unat_recovered:
  "unat ((ucast (d :: u32) * ucast (rate l)) div 1000 :: u64) = recovered l (unat d)"
proof -
  have "unat (ucast d * ucast (rate l) :: u64) = unat d * unat (rate l)"
    using mult_u32_bound [of d "rate l"] by (simp add: unat_mult_lem [THEN iffD1])
  then show ?thesis by (simp add: unat_div recovered_def)
qed

lemma rate_pos_if_recovered: "recovered l d \<noteq> 0 \<Longrightarrow> 0 < unat (rate l)"
  by (rule ccontr) (simp add: recovered_def)

lemma advance_bounds:
  assumes "recovered l d \<noteq> 0"
  shows "advance l d \<le> d" and "recovered l d * 1000 \<le> advance l d * unat (rate l)"
proof -
  let ?r = "unat (rate l)" and ?c = "recovered l d * 1000"
  have r: "0 < ?r" using assms by (rule rate_pos_if_recovered)
  have "?c + ?r - 1 \<le> d * ?r + (?r - 1)" using recovered_le [of l d] r by linarith
  then have "advance l d \<le> (d * ?r + (?r - 1)) div ?r"
    unfolding advance_def by (rule div_le_mono)
  also have "\<dots> = d + (?r - 1) div ?r" using r by (simp only: div_mult_self3)
  also have "\<dots> = d" using r by simp
  finally show "advance l d \<le> d" .
  have "?c + ?r - 1 = advance l d * ?r + (?c + ?r - 1) mod ?r"
    by (simp add: advance_def)
  moreover have "(?c + ?r - 1) mod ?r < ?r" using r by simp
  ultimately show "?c \<le> advance l d * ?r" by linarith
qed

lemma unat_advance:
  assumes "recovered l (unat d) \<noteq> 0"
  defines "q \<equiv> (ucast (d :: u32) * ucast (rate l)) div 1000 :: u64"
  shows "unat ((q * 1000 + ucast (rate l) - 1) div ucast (rate l) :: u64) = advance l (unat d)"
proof -
  let ?c = "recovered l (unat d)" and ?r = "unat (rate l)"
  have q: "unat q = ?c" unfolding q_def by (rule unat_recovered)
  have r: "0 < ?r" using assms(1) by (rule rate_pos_if_recovered)
  have bound: "?c * 1000 + ?r < 2 ^ 64"
    using recovered_le [of l "unat d"] mult_u32_bound [of d "rate l"] by linarith
  then have mult: "unat (q * 1000) = ?c * 1000"
    using q by (simp add: unat_mult_lem [THEN iffD1])
  then have add: "unat (q * 1000 + ucast (rate l)) = ?c * 1000 + ?r"
    using bound by (simp add: unat_add_lem [THEN iffD1])
  have "unat (q * 1000 + ucast (rate l) - 1) = ?c * 1000 + ?r - 1"
    using add r by (subst unat_minus_one) auto
  then show ?thesis by (simp add: unat_div advance_def)
qed

text \<open>The three outcomes of a refill.\<close>

lemma refill_cases:
  fixes now_ms cur :: u32
  defines "d \<equiv> unat (now_ms - cur)"
  obtains
    (full) "unat (max_bucket l) \<le> unat rem + recovered l d"
      and "refill l now_ms (rem, cur) = (max_bucket l, now_ms)"
  | (part) rem' where "recovered l d \<noteq> 0" and "unat rem' = unat rem + recovered l d"
      and "unat rem' < unat (max_bucket l)"
      and "refill l now_ms (rem, cur) = (rem', cur + word_of_nat (advance l d))"
  | (none) "recovered l d = 0" and "refill l now_ms (rem, cur) = (rem, cur)"
proof -
  let ?q = "(ucast (now_ms - cur) * ucast (rate l)) div 1000 :: u64"
  have q: "unat ?q = recovered l d" unfolding d_def by (rule unat_recovered)
  have "recovered l d * 1000 < 2 ^ 64"
    using recovered_le [of l d] mult_u32_bound [of "now_ms - cur" "rate l"] unfolding d_def by linarith
  moreover have "unat rem < 2 ^ 32" by (rule unat_u32)
  ultimately have sum: "unat (ucast rem + ?q) = unat rem + recovered l d"
    using q by (simp add: unat_add_lem [THEN iffD1])
  show ?thesis
  proof (cases "recovered l d = 0")
    case True
    then have "?q = 0" using q by (metis unat_0_iff)
    with True show ?thesis using none by (simp add: refill_def)
  next
    case False
    then have nz: "?q \<noteq> 0" using q by auto
    show ?thesis
    proof (cases "unat (max_bucket l) \<le> unat rem + recovered l d")
      case True
      then have "ucast rem + ?q \<ge> ucast (max_bucket l)" using sum by (simp add: word_le_nat_alt)
      with nz True show ?thesis using full by (simp add: refill_def)
    next
      case below: False
      then have "\<not> ucast rem + ?q \<ge> ucast (max_bucket l)" using sum by (simp add: word_le_nat_alt)
      moreover have "unat (rem + ucast ?q) = unat rem + recovered l d"
        using below q unat_u32 [of "max_bucket l"]
        by (subst unat_add_lem [THEN iffD1]) (simp_all add: unsigned_ucast_eq take_bit_nat_eq_self)
      moreover have "ucast ((?q * 1000 + ucast (rate l) - 1) div ucast (rate l)) =
          (word_of_nat (advance l d) :: u32)"
        using unat_advance [of l "now_ms - cur"] False unfolding d_def
        by (metis of_nat_unat)
      ultimately show ?thesis
        using nz False below part [of "rem + ucast ?q"] by (simp add: refill_def)
    qed
  qed
qed

lemma unat_refill:
  assumes "rem \<le> max_bucket l"
  shows "unat (fst (refill l now_ms (rem, cur))) =
    min (unat (max_bucket l)) (unat rem + unat (now_ms - cur) * unat (rate l) div 1000)"
  using refill_cases [of l rem now_ms cur] assms
  by cases (auto simp: recovered_def min_def word_le_nat_alt)

lemma refill_within: "fst q \<le> max_bucket l \<Longrightarrow> fst (refill l now_ms q) \<le> max_bucket l"
  by (cases q) (simp add: word_le_nat_alt unat_refill)

section \<open>Histories of calls\<close>

text \<open>
  Calls on any buckets, with their clock readings, and the background pruning of the store.
  \<open>granted\<close> adds up the points granted to one bucket.
\<close>

datatype 'k rl_op =
    Rl_checkpoint int int int int 'k u32
  | Rl_get_remaining int int int 'k
  | Rl_sweep int

fun rl_step ::
  "(int \<Rightarrow> int \<Rightarrow> 'k \<Rightarrow> 's \<Rightarrow> quota option \<times> 's) \<Rightarrow> (int \<Rightarrow> 'k \<Rightarrow> quota \<Rightarrow> 's \<Rightarrow> 's) \<Rightarrow> (int \<Rightarrow> 's \<Rightarrow> 's)
     \<Rightarrow> rate_limit \<Rightarrow> 'k rl_op \<Rightarrow> 's \<Rightarrow> u32 \<times> 's"
where
  "rl_step getq putq swp l (Rl_checkpoint n t1 t2 t3 k p) s = checkpoint getq putq l n t1 t2 t3 k p s"
| "rl_step getq putq swp l (Rl_get_remaining n t1 t2 k) s =
     (0, snd (get_remaining getq l n t1 t2 k s))"
| "rl_step getq putq swp l (Rl_sweep t) s = (0, swp t s)"

fun rl_times :: "'k rl_op \<Rightarrow> int list" where
  "rl_times (Rl_checkpoint n t1 t2 t3 k p) = [n, t1, t2, t3]"
| "rl_times (Rl_get_remaining n t1 t2 k) = [n, t1, t2]"
| "rl_times (Rl_sweep t) = [t]"

definition rl_end :: "'k rl_op \<Rightarrow> int" where
  "rl_end op = last (rl_times op)"

text \<open>The time between the limiter's own clock reading and that of the store's lookup.\<close>

fun rl_delay :: "'k rl_op \<Rightarrow> int" where
  "rl_delay (Rl_checkpoint n t1 t2 t3 k p) = t1 - n"
| "rl_delay (Rl_get_remaining n t1 t2 k) = t1 - n"
| "rl_delay (Rl_sweep t) = 0"

fun rl_key :: "'k rl_op \<Rightarrow> 'k option" where
  "rl_key (Rl_checkpoint n t1 t2 t3 k p) = Some k"
| "rl_key (Rl_get_remaining n t1 t2 k) = Some k"
| "rl_key (Rl_sweep t) = None"

fun granted ::
  "(int \<Rightarrow> int \<Rightarrow> 'k \<Rightarrow> 's \<Rightarrow> quota option \<times> 's) \<Rightarrow> (int \<Rightarrow> 'k \<Rightarrow> quota \<Rightarrow> 's \<Rightarrow> 's) \<Rightarrow> (int \<Rightarrow> 's \<Rightarrow> 's)
     \<Rightarrow> rate_limit \<Rightarrow> 'k \<Rightarrow> 'k rl_op list \<Rightarrow> 's \<Rightarrow> nat"
where
  "granted getq putq swp l k [] s = 0"
| "granted getq putq swp l k (op # ops) s =
     (case rl_step getq putq swp l op s of
        (g, s') \<Rightarrow> (if rl_key op = Some k then unat g else 0) + granted getq putq swp l k ops s')"

fun rl_run ::
  "(int \<Rightarrow> int \<Rightarrow> 'k \<Rightarrow> 's \<Rightarrow> quota option \<times> 's) \<Rightarrow> (int \<Rightarrow> 'k \<Rightarrow> quota \<Rightarrow> 's \<Rightarrow> 's) \<Rightarrow> (int \<Rightarrow> 's \<Rightarrow> 's)
     \<Rightarrow> rate_limit \<Rightarrow> 'k rl_op list \<Rightarrow> 's \<Rightarrow> 's"
where
  "rl_run getq putq swp l [] s = s"
| "rl_run getq putq swp l (op # ops) s = rl_run getq putq swp l ops (snd (rl_step getq putq swp l op s))"

fun rl_chron :: "int \<Rightarrow> 'k rl_op list \<Rightarrow> bool" where
  "rl_chron t [] = True"
| "rl_chron t (op # ops) = (sorted (t # rl_times op) \<and> rl_chron (rl_end op) ops)"

definition rl_run_end :: "int \<Rightarrow> 'k rl_op list \<Rightarrow> int" where
  "rl_run_end t ops = fold (\<lambda>op _. rl_end op) ops t"

definition total_delay :: "'k rl_op list \<Rightarrow> int" where
  "total_delay ops = sum_list (map rl_delay ops)"

lemma rl_run_end_simps [simp]:
  "rl_run_end t [] = t" "rl_run_end t (op # ops) = rl_run_end (rl_end op) ops"
  by (simp_all add: rl_run_end_def)

lemma total_delay_simps [simp]:
  "total_delay [] = 0" "total_delay (op # ops) = rl_delay op + total_delay ops"
  by (simp_all add: total_delay_def)

section \<open>The token account\<close>

text \<open>
  The virtual time of a stored quota is an integer time its 32-bit time stamp stands for. A unit
  of the account is a thousandth of a point; \<open>C\<close> is the credit earned by \<open>n0\<close>-relative time and
  the delays so far.
\<close>

lemma unat_word_diff:
  "T \<le> n \<Longrightarrow> int (unat (word_of_int n - word_of_int T :: u32)) \<le> n - T"
proof -
  assume "T \<le> n"
  have "int (unat (word_of_int n - word_of_int T :: u32)) = uint (word_of_int (n - T) :: u32)"
    by simp
  also have "\<dots> = (n - T) mod 2 ^ LENGTH(32)" by (rule uint_word_of_int)
  also have "\<dots> \<le> n - T" using \<open>T \<le> n\<close> by (simp add: zmod_le_nonneg_dividend)
  finally show ?thesis .
qed

text \<open>A refill never pays out more than the time since the stored stamp has earned.\<close>

lemma refill_account:
  assumes "word_of_int T = cur" and "T \<le> n" and "refill l (word_of_int n) (rem, cur) = (rem', cur')"
    and "G * 1000 + uint rem * 1000 \<le> B + uint (rate l) * (T + C)"
  obtains T' where "word_of_int T' = cur'" and "T \<le> T'" and "T' \<le> n"
    and "G * 1000 + uint rem' * 1000 \<le> B + uint (rate l) * (T' + C)"
proof -
  let ?r = "uint (rate l)"
  define d where "d = unat (word_of_int n - cur :: u32)"
  define T0 where "T0 = n - int d"
  have T0: "T \<le> T0" "T0 \<le> n" "word_of_int T0 = cur"
    using unat_word_diff [OF assms(2)] assms(1) by (simp_all add: T0_def d_def)
  have mono: "?r * (T + C) \<le> ?r * (T0 + C)" using T0(1) by (intro mult_left_mono) simp_all
  have "int (recovered l d * 1000) \<le> int (d * unat (rate l))"
    using recovered_le [of l d] by (rule of_nat_mono)
  then have earned: "int (recovered l d) * 1000 \<le> ?r * int d" by (simp add: mult.commute)
  have shift: "?r * (T0 + C) + ?r * int d = ?r * (n + C)"
    by (simp add: T0_def algebra_simps)
  from refill_cases [of l rem "word_of_int n" cur] show ?thesis
  proof cases
    case full
    then have "rem' = max_bucket l" "cur' = word_of_int n" using assms(3) by simp_all
    moreover have "int (unat (max_bucket l)) \<le> int (unat rem) + int (recovered l d)"
      using full(1) unfolding d_def by linarith
    ultimately show ?thesis
      using that [of n] assms(2,4) mono earned shift by simp
  next
    case (part rem1)
    then have rem': "rem' = rem1" "cur' = cur + word_of_nat (advance l d)"
      using assms(3) by (simp_all add: d_def)
    have nz: "recovered l d \<noteq> 0" using part(1) by (simp add: d_def)
    have "int (recovered l d * 1000) \<le> int (advance l d * unat (rate l))"
      using advance_bounds(2) [OF nz] by (rule of_nat_mono)
    then have paid: "int (recovered l d) * 1000 \<le> ?r * int (advance l d)"
      by (simp add: mult.commute)
    have "int (unat rem1) = int (unat rem) + int (recovered l d)"
      using part(2) unfolding d_def by linarith
    then have uint: "uint rem1 = uint rem + int (recovered l d)" by simp
    have "word_of_int (T0 + int (advance l d)) = cur'" using T0(3) rem' by simp
    moreover have "T0 + int (advance l d) \<le> n"
      using advance_bounds(1) [OF nz] by (simp add: T0_def)
    moreover have "?r * (T0 + int (advance l d) + C) = ?r * (T0 + C) + ?r * int (advance l d)"
      by (simp add: algebra_simps)
    ultimately show ?thesis
      using that [of "T0 + int (advance l d)"] T0(1) assms(4) mono paid uint rem'(1) by simp
  next
    case none
    then show ?thesis using that [of T] assms by simp
  qed
qed

text \<open>
  The invariant of one bucket at time \<open>now\<close>, for a limiter of size \<open>B\<close> and rate \<open>R\<close>: what was
  granted and what remains is covered by the bucket size and the credit of the stored virtual
  time; once the entry is gone, what was granted is covered by the credit alone.
\<close>

definition covered :: "int \<Rightarrow> int \<Rightarrow> int \<Rightarrow> int \<Rightarrow> quota \<Rightarrow> int \<Rightarrow> bool" where
  "covered B R C G q T \<longleftrightarrow>
     word_of_int T = snd q \<and> G * 1000 + uint (fst q) * 1000 \<le> B * 1000 + R * (T + C)"

definition account ::
  "int \<Rightarrow> int \<Rightarrow> int \<Rightarrow> int \<Rightarrow> int \<Rightarrow> int \<Rightarrow> (int \<times> quota) option \<Rightarrow> bool" where
  "account B R ttl C now G e \<longleftrightarrow>
     (case e of
        None \<Rightarrow> G * 1000 \<le> R * (now + C)
      | Some (d, q) \<Rightarrow> (\<exists>T. T \<le> now \<and> T + ttl \<le> d \<and> covered B R C G q T))"

lemma account_later:
  assumes "account B R ttl C now G e" and "now \<le> now'" and "C \<le> C'" and "0 \<le> R"
  shows "account B R ttl C' now' G e"
proof (cases e)
  case None
  have "R * (now + C) \<le> R * (now' + C')" using assms(2-4) by (intro mult_left_mono) simp_all
  with None assms(1) show ?thesis by (simp add: account_def)
next
  case (Some dq)
  obtain d q where dq: "dq = (d, q)" by (rule prod.exhaust)
  with Some assms(1) obtain T where T: "T \<le> now" "T + ttl \<le> d" "covered B R C G q T"
    by (auto simp: account_def)
  have "R * (T + C) \<le> R * (T + C')" using assms(3,4) by (intro mult_left_mono) simp_all
  with T(3) have "covered B R C' G q T" by (simp add: covered_def)
  with T(1,2) assms(2) have "T \<le> now' \<and> T + ttl \<le> d \<and> covered B R C' G q T" by simp
  with Some dq show ?thesis by (auto simp: account_def)
qed

text \<open>An entry that expired left its bucket with enough credit for a full refill.\<close>

lemma account_expired:
  assumes "account B R ttl C now G e" and "now \<le> t1" and "0 \<le> R" and "B * 1000 \<le> R * ttl"
  shows "account B R ttl C t1 G (unexpired t1 e)"
proof (cases "\<exists>d q. e = Some (d, q) \<and> d < t1")
  case True
  then obtain d q where e: "e = Some (d, q)" "d < t1" by blast
  with assms(1) obtain T where T: "T + ttl \<le> d" "covered B R C G q T"
    by (auto simp: account_def)
  have "R * (T + C) + R * ttl = R * (T + ttl + C)" by (simp add: algebra_simps)
  also have "\<dots> \<le> R * (t1 + C)" using T(1) e(2) assms(3) by (intro mult_left_mono) simp_all
  finally have "G * 1000 \<le> R * (t1 + C)"
    using T(2) assms(4) uint_ge_0 [of "fst q"] unfolding covered_def by linarith
  with e show ?thesis by (simp add: account_def)
next
  case False
  then have "unexpired t1 e = e"
    by (cases "(t1, e)" rule: unexpired.cases) auto
  then show ?thesis using account_later [OF assms(1,2) _ assms(3), of C] by simp
qed

lemma account_bound:
  assumes "account B R ttl C now G e" and "0 \<le> B" and "0 \<le> R"
  shows "G * 1000 \<le> B * 1000 + R * (now + C)"
proof (cases e)
  case None
  then show ?thesis using assms(1,2) by (simp add: account_def)
next
  case (Some dq)
  then obtain T q where T: "T \<le> now" "covered B R C G q T" using assms(1) by (auto simp: account_def split: prod.splits)
  have "R * (T + C) \<le> R * (now + C)" using T(1) assms(3) by (intro mult_left_mono) simp_all
  with T(2) show ?thesis using uint_ge_0 [of "fst q"] unfolding covered_def by linarith
qed

lemma unexpired_SomeD: "unexpired t e = Some (d, q) \<Longrightarrow> e = Some (d, q)"
  by (cases "(t, e)" rule: unexpired.cases) (simp_all split: if_splits)

section \<open>The limiter over any store that keeps its contract\<close>

locale quota_store =
  expiring_store fetch store wipe sweep entry invar ttl
  for fetch :: "int \<Rightarrow> int \<Rightarrow> 'k \<Rightarrow> 's \<Rightarrow> quota option \<times> 's"
    and store :: "int \<Rightarrow> 'k \<Rightarrow> quota \<Rightarrow> 's \<Rightarrow> 's"
    and wipe :: "'s \<Rightarrow> 's"
    and sweep :: "int \<Rightarrow> 's \<Rightarrow> 's"
    and entry :: "'s \<Rightarrow> 'k \<Rightarrow> (int \<times> quota) option"
    and invar :: "int \<Rightarrow> 's \<Rightarrow> bool"
    and ttl :: int
begin

text \<open>\<open>get_remaining_int\<close> on a miss: the full bucket, whose credit the account already has.\<close>

lemma get_remaining_int_miss:
  assumes inv: "invar t s" and le: "t \<le> t1" "n \<le> t1" "t1 \<le> t2"
    and acc: "account (uint (max_bucket l)) (uint (rate l)) ttl C t G (entry s k)"
    and cap: "uint (max_bucket l) * 1000 \<le> uint (rate l) * ttl"
    and miss: "unexpired t1 (entry s k) = None"
    and ret: "get_remaining_int fetch l n t1 t2 k s = (q, s')"
  shows "covered (uint (max_bucket l)) (uint (rate l)) (C + (t1 - n)) G q n"
    and "account (uint (max_bucket l)) (uint (rate l)) ttl C t2 G (entry s' k)"
proof -
  have "fst (fetch t1 t2 k s) = None" using fetch_value [OF inv le(1,3)] miss by simp
  then have q: "q = (max_bucket l, word_of_int n)" and s': "s' = snd (fetch t1 t2 k s)"
    using ret by (cases "fetch t1 t2 k s", simp add: get_remaining_int_def)+
  have acc1: "account (uint (max_bucket l)) (uint (rate l)) ttl C t1 G None"
    using account_expired [OF acc le(1) _ cap] miss by simp
  then show "covered (uint (max_bucket l)) (uint (rate l)) (C + (t1 - n)) G q n"
    using q by (simp add: covered_def account_def add.commute)
  show "account (uint (max_bucket l)) (uint (rate l)) ttl C t2 G (entry s' k)"
    using account_later [OF acc1 le(3)] s' fetch_miss [OF inv le(1,3) miss] by simp
qed

text \<open>
  \<open>get_remaining_int\<close> on a hit: the refill is covered by the time that has passed. The quota that is found was stored before the
  limiter's own clock reading \<open>n\<close>; the store may have been pruned since.
\<close>

lemma get_remaining_int_hit:
  assumes inv: "invar t s" and le: "t \<le> t1" "n \<le> t1" "t1 \<le> t2"
    and acc: "account (uint (max_bucket l)) (uint (rate l)) ttl C n G (entry s k)"
    and hit: "unexpired t1 (entry s k) = Some (d, q0)"
    and ret: "get_remaining_int fetch l n t1 t2 k s = (q, s')"
  shows "\<exists>T \<le> n. covered (uint (max_bucket l)) (uint (rate l)) C G q T"
    and "account (uint (max_bucket l)) (uint (rate l)) ttl C t2 G (entry s' k)"
proof -
  have "fst (fetch t1 t2 k s) = Some q0" using fetch_value [OF inv le(1,3)] hit by simp
  then have q: "q = refill l (word_of_int n) q0" and s': "s' = snd (fetch t1 t2 k s)"
    using ret by (cases "fetch t1 t2 k s", simp add: get_remaining_int_def)+
  have "entry s k = Some (d, q0)"
    using hit by (cases "(t1, entry s k)" rule: unexpired.cases) (simp_all split: if_splits)
  then obtain T where T: "T \<le> n" "covered (uint (max_bucket l)) (uint (rate l)) C G q0 T"
    using acc by (auto simp: account_def)
  then show "\<exists>T \<le> n. covered (uint (max_bucket l)) (uint (rate l)) C G q T"
    using refill_account [of T "snd q0" n l "fst q0" "fst q" "snd q" G "uint (max_bucket l) * 1000" C]
      T(2) q unfolding covered_def by (metis prod.collapse)
  obtain d' where d': "entry s' k = Some (d', q0)" "t2 + ttl \<le> d'"
    using s' fetch_renews [OF inv le(1,3) hit] by blast
  have "T \<le> t2 \<and> T + ttl \<le> d'" using T(1) le d'(2) by simp
  with d'(1) T(2) show "account (uint (max_bucket l)) (uint (rate l)) ttl C t2 G (entry s' k)"
    by (auto simp: account_def)
qed

lemma get_remaining_int_state: "snd (get_remaining_int fetch l n t1 t2 k s) = snd (fetch t1 t2 k s)"
  by (simp add: get_remaining_int_def Let_def split: prod.split option.split)

lemma get_remaining_int_between:
  assumes inv: "invar t s" and le: "t \<le> t1" "n \<le> t1" "t1 \<le> t2"
    and acc: "account (uint (max_bucket l)) (uint (rate l)) ttl C t G (entry s k)"
    and stored: "entry s k \<noteq> None \<longrightarrow> account (uint (max_bucket l)) (uint (rate l)) ttl C n G (entry s k)"
    and cap: "uint (max_bucket l) * 1000 \<le> uint (rate l) * ttl"
    and ret: "get_remaining_int fetch l n t1 t2 k s = (q, s')"
  shows "(\<exists>T \<le> n. covered (uint (max_bucket l)) (uint (rate l)) (C + (t1 - n)) G q T) \<and>
    account (uint (max_bucket l)) (uint (rate l)) ttl C t2 G (entry s' k)"
proof (cases "unexpired t1 (entry s k)")
  case None
  then show ?thesis using get_remaining_int_miss [OF inv le acc cap None ret] by blast
next
  case (Some e)
  obtain d q0 where "e = (d, q0)" by (rule prod.exhaust)
  with Some have hit: "unexpired t1 (entry s k) = Some (d, q0)" by simp
  then have "entry s k \<noteq> None" by (metis unexpired.simps(1) option.distinct(1))
  with stored have acc_n: "account (uint (max_bucket l)) (uint (rate l)) ttl C n G (entry s k)" by simp
  obtain T where T: "T \<le> n" "covered (uint (max_bucket l)) (uint (rate l)) C G q T"
    using get_remaining_int_hit(1) [OF inv le acc_n hit ret] by blast
  have "uint (rate l) * (T + C) \<le> uint (rate l) * (T + (C + (t1 - n)))"
    using le(2) by (intro mult_left_mono) simp_all
  with T(2) have "covered (uint (max_bucket l)) (uint (rate l)) (C + (t1 - n)) G q T"
    by (simp add: covered_def)
  with T(1) get_remaining_int_hit(2) [OF inv le acc_n hit ret] show ?thesis by blast
qed

lemma get_remaining_int_covered:
  assumes inv: "invar t s" and le: "t \<le> n" "n \<le> t1" "t1 \<le> t2"
    and acc: "account (uint (max_bucket l)) (uint (rate l)) ttl C t G (entry s k)"
    and cap: "uint (max_bucket l) * 1000 \<le> uint (rate l) * ttl"
    and ret: "get_remaining_int fetch l n t1 t2 k s = (q, s')"
  shows "(\<exists>T \<le> n. covered (uint (max_bucket l)) (uint (rate l)) (C + (t1 - n)) G q T) \<and>
    account (uint (max_bucket l)) (uint (rate l)) ttl C t2 G (entry s' k)"
  using get_remaining_int_between [OF inv _ le(2,3) acc _ cap ret] account_later [OF acc le(1), of C] le by simp

text \<open>A checkpoint moves points from the remaining to the granted side of the account.\<close>

lemma checkpoint_account:
  assumes inv: "invar t s" and le: "t \<le> n" "n \<le> t1" "t1 \<le> t2" "t2 \<le> t3"
    and acc: "account (uint (max_bucket l)) (uint (rate l)) ttl C t G (entry s k)"
    and cap: "uint (max_bucket l) * 1000 \<le> uint (rate l) * ttl"
    and ret: "checkpoint fetch store l n t1 t2 t3 k p s = (g, s')"
  shows "account (uint (max_bucket l)) (uint (rate l)) ttl (C + (t1 - n)) t3 (G + uint g) (entry s' k)"
proof -
  obtain rem cur s1 where r: "get_remaining_int fetch l n t1 t2 k s = ((rem, cur), s1)"
    by (metis prod.exhaust)
  then have g: "g = (if p > rem then rem else p)" and s': "s' = store t3 k (rem - g, cur) s1"
    using ret by (auto simp: checkpoint_def Let_def)
  have "g \<le> rem" using g by auto
  then have "uint (rem - g) = uint rem - uint g" by (simp add: uint_minus_simple_alt word_le_def)
  moreover obtain T where T: "T \<le> n"
    "covered (uint (max_bucket l)) (uint (rate l)) (C + (t1 - n)) G (rem, cur) T"
    using get_remaining_int_covered [OF inv le(1-3) acc cap r] by blast
  ultimately have cov:
    "covered (uint (max_bucket l)) (uint (rate l)) (C + (t1 - n)) (G + uint g) (rem - g, cur) T"
    by (simp add: covered_def)
  have "t \<le> t1" using le by simp
  then have "invar t2 s1"
    using invar_fetch [OF inv _ le(3), of k] get_remaining_int_state [of l n t1 t2 k s] r by simp
  from store_entry [OF this le(4)] s'
  obtain d where "entry s' k = Some (d, rem - g, cur)" "t3 + ttl \<le> d" by blast
  moreover have "T \<le> t3" using T(1) le by simp
  ultimately show ?thesis using cov by (auto simp: account_def)
qed

lemma rl_step_invar:
  assumes "invar t s" and "sorted (t # rl_times op)"
  shows "invar (rl_end op) (snd (rl_step fetch store sweep l op s))"
proof (cases op)
  case (Rl_checkpoint n t1 t2 t3 k p)
  obtain q s1 where r: "get_remaining_int fetch l n t1 t2 k s = (q, s1)" by fastforce
  then have "invar t2 s1"
    using invar_fetch [OF assms(1), of t1 t2 k] get_remaining_int_state [of l n t1 t2 k s]
      assms(2) Rl_checkpoint by simp
  with Rl_checkpoint assms(2) r show ?thesis
    by (cases q) (simp add: checkpoint_def rl_end_def Let_def invar_store)
next
  case (Rl_get_remaining n t1 t2 k)
  have "snd (get_remaining fetch l n t1 t2 k s) = snd (fetch t1 t2 k s)"
    using get_remaining_int_state [of l n t1 t2 k s]
    by (auto simp: get_remaining_def split: prod.split)
  with Rl_get_remaining assms show ?thesis by (simp add: rl_end_def invar_fetch)
next
  case (Rl_sweep t')
  with assms show ?thesis by (simp add: rl_end_def invar_sweep)
qed

lemma rl_step_account:
  assumes inv: "invar t s" and times: "sorted (t # rl_times op)"
    and acc: "account (uint (max_bucket l)) (uint (rate l)) ttl C t G (entry s k)"
    and cap: "uint (max_bucket l) * 1000 \<le> uint (rate l) * ttl"
    and step: "rl_step fetch store sweep l op s = (g, s')"
  shows "account (uint (max_bucket l)) (uint (rate l)) ttl (C + rl_delay op) (rl_end op)
    (G + (if rl_key op = Some k then uint g else 0)) (entry s' k)"
proof (cases op)
  case (Rl_checkpoint n t1 t2 t3 k' p)
  show ?thesis
  proof (cases "k' = k")
    case True
    with Rl_checkpoint step times checkpoint_account [OF inv _ _ _ _ acc cap, of n t1 t2 t3 p g s']
    show ?thesis by (simp add: rl_end_def)
  next
    case False
    obtain q s1 where r: "get_remaining_int fetch l n t1 t2 k' s = (q, s1)" by fastforce
    then have s1: "s1 = snd (fetch t1 t2 k' s)" using get_remaining_int_state [of l n t1 t2 k' s] by simp
    have "s' = store t3 k' (fst q - g, snd q) s1"
      using step Rl_checkpoint r by (cases q) (auto simp: checkpoint_def Let_def)
    then have "entry s' k = unexpired t1 (entry s k)"
      using times Rl_checkpoint s1 False store_other [OF invar_fetch [OF inv, of t1 t2 k'], of t3 k k']
        fetch_other [OF inv, of t1 t2 k k'] by simp
    moreover have "t \<le> t1" using times Rl_checkpoint by simp
    ultimately show ?thesis
      using account_later [OF account_expired [OF acc \<open>t \<le> t1\<close> _ cap], of t3 "C + (t1 - n)"]
        times Rl_checkpoint False by (simp add: rl_end_def)
  qed
next
  case (Rl_get_remaining n t1 t2 k')
  obtain q s1 where r: "get_remaining_int fetch l n t1 t2 k' s = (q, s1)" by fastforce
  then have s': "s' = s1" "g = 0"
    using step Rl_get_remaining by (auto simp: get_remaining_def split: prod.splits)
  have le: "t \<le> n" "n \<le> t1" "t1 \<le> t2" "t \<le> t1" using times Rl_get_remaining by simp_all
  have "account (uint (max_bucket l)) (uint (rate l)) ttl C t2 G (entry s1 k)"
  proof (cases "k' = k")
    case True
    with get_remaining_int_covered [OF inv le(1-3) acc cap] r show ?thesis by blast
  next
    case False
    then have "entry s1 k = unexpired t1 (entry s k)"
      using r get_remaining_int_state [of l n t1 t2 k' s] fetch_other [OF inv le(4,3), of k k'] by simp
    then show ?thesis using account_later [OF account_expired [OF acc le(4) _ cap] le(3), of C] by simp
  qed
  from account_later [OF this, of t2 "C + (t1 - n)"] le Rl_get_remaining s' show ?thesis
    by (simp add: rl_end_def)
next
  case (Rl_sweep t')
  with step times inv account_expired [OF acc _ _ cap, of t'] show ?thesis
    by (auto simp: rl_end_def sweep_entry)
qed

lemma granted_account:
  assumes "invar t s" and "rl_chron t ops"
    and "account (uint (max_bucket l)) (uint (rate l)) ttl C t G (entry s k)"
    and "uint (max_bucket l) * 1000 \<le> uint (rate l) * ttl"
  shows "(G + int (granted fetch store sweep l k ops s)) * 1000 \<le>
    uint (max_bucket l) * 1000 + uint (rate l) * (rl_run_end t ops + C + total_delay ops)"
  using assms(1-3)
proof (induction ops arbitrary: t s G C)
  case Nil
  then show ?case using account_bound [OF Nil.prems(3)] by simp
next
  case (Cons op ops)
  obtain g s' where step: "rl_step fetch store sweep l op s = (g, s')" by fastforce
  have times: "sorted (t # rl_times op)" and rest: "rl_chron (rl_end op) ops"
    using Cons.prems(2) by simp_all
  have "invar (rl_end op) s'" using rl_step_invar [OF Cons.prems(1) times, of l] step by simp
  from Cons.IH [OF this rest rl_step_account [OF Cons.prems(1) times Cons.prems(3) assms(4) step]]
  show ?case using step by (simp add: algebra_simps split: if_splits)
qed

text \<open>No stored quota ever exceeds the bucket.\<close>

definition within_bucket :: "rate_limit \<Rightarrow> 's \<Rightarrow> bool" where
  "within_bucket l s \<longleftrightarrow> (\<forall>k d q. entry s k = Some (d, q) \<longrightarrow> fst q \<le> max_bucket l)"

lemma within_bucketD: "within_bucket l s \<Longrightarrow> entry s k = Some (d, q) \<Longrightarrow> fst q \<le> max_bucket l"
  unfolding within_bucket_def by blast

lemma within_bucket_unexpired:
  assumes "within_bucket l s" and "\<And>k. entry s' k = unexpired t (entry s k)"
  shows "within_bucket l s'"
  using assms by (fastforce simp: within_bucket_def dest: unexpired_SomeD)

lemma get_remaining_int_within:
  assumes inv: "invar t s" and le: "t \<le> t1" "t1 \<le> t2" and within: "within_bucket l s"
    and ret: "get_remaining_int fetch l n t1 t2 k s = (q, s')"
  shows "fst q \<le> max_bucket l" and "within_bucket l s'"
proof -
  have s': "s' = snd (fetch t1 t2 k s)" using get_remaining_int_state [of l n t1 t2 k s] ret by simp
  show "within_bucket l s'"
    unfolding within_bucket_def
  proof (intro allI impI)
    fix k' d q' assume e: "entry s' k' = Some (d, q')"
    show "fst q' \<le> max_bucket l"
    proof (cases "k' = k \<and> unexpired t1 (entry s k) \<noteq> None")
      case True
      then obtain d0 q0 where hit: "unexpired t1 (entry s k) = Some (d0, q0)" by auto
      with True e s' fetch_renews [OF inv le hit] have "q' = q0" by auto
      with within unexpired_SomeD [OF hit] show ?thesis unfolding within_bucket_def by blast
    next
      case False
      then have "unexpired t1 (entry s k') = Some (d, q')"
        using e s' fetch_other [OF inv le, of k' k] fetch_miss [OF inv le, of k]
        by (cases "k' = k"; cases "unexpired t1 (entry s k)") simp_all
      from within_bucketD [OF within unexpired_SomeD [OF this]] show ?thesis .
    qed
  qed
  show "fst q \<le> max_bucket l"
  proof (cases "unexpired t1 (entry s k)")
    case None
    with ret fetch_value [OF inv le, of k] show ?thesis
      by (cases "fetch t1 t2 k s") (auto simp: get_remaining_int_def)
  next
    case (Some e)
    then obtain d q0 where hit: "unexpired t1 (entry s k) = Some (d, q0)" by (cases e) simp
    from within_bucketD [OF within unexpired_SomeD [OF this]] have "fst q0 \<le> max_bucket l" .
    moreover have "q = refill l (word_of_int n) q0"
      using ret hit fetch_value [OF inv le, of k]
      by (cases "fetch t1 t2 k s") (auto simp: get_remaining_int_def)
    ultimately show ?thesis by (simp add: refill_within)
  qed
qed

lemma rl_step_within:
  assumes inv: "invar t s" and times: "sorted (t # rl_times op)" and within: "within_bucket l s"
  shows "within_bucket l (snd (rl_step fetch store sweep l op s))"
proof (cases op)
  case (Rl_checkpoint n t1 t2 t3 k p)
  have le: "t \<le> t1" "t1 \<le> t2" "t2 \<le> t3" using times Rl_checkpoint by simp_all
  obtain rem cur s1 where r: "get_remaining_int fetch l n t1 t2 k s = ((rem, cur), s1)"
    by (metis prod.exhaust)
  define g where "g = (if p > rem then rem else p)"
  note w = get_remaining_int_within [OF inv le(1,2) within r]
  have "rem - g \<le> max_bucket l"
    using w(1) word_sub_le [of g rem] order_trans [of "rem - g" rem] by (auto simp: g_def)
  moreover have "invar t2 s1"
    using invar_fetch [OF inv le(1,2), of k] get_remaining_int_state [of l n t1 t2 k s] r by simp
  moreover have "snd (rl_step fetch store sweep l op s) = store t3 k (rem - g, cur) s1"
    using Rl_checkpoint r by (simp add: checkpoint_def g_def Let_def)
  ultimately show ?thesis
    using w(2) store_entry [of t2 s1 t3 k "(rem - g, cur)"] store_other [of t2 s1 t3 _ k] le(3)
    unfolding within_bucket_def by (metis fst_conv option.inject prod.inject)
next
  case (Rl_get_remaining n t1 t2 k)
  obtain q s1 where r: "get_remaining_int fetch l n t1 t2 k s = (q, s1)" by fastforce
  with Rl_get_remaining times get_remaining_int_within(2) [OF inv _ _ within r] show ?thesis
    by (cases q) (simp add: get_remaining_def)
next
  case (Rl_sweep t')
  with times within_bucket_unexpired [OF within] sweep_entry [OF inv] show ?thesis by simp
qed

lemma rl_run_within:
  assumes "invar t s" and "rl_chron t ops" and "within_bucket l s"
  shows "invar (rl_run_end t ops) (rl_run fetch store sweep l ops s)
    \<and> within_bucket l (rl_run fetch store sweep l ops s)"
  using assms
proof (induction ops arbitrary: t s)
  case Nil
  then show ?case by simp
next
  case (Cons op ops)
  then show ?case using rl_step_invar [of t s op l] rl_step_within [of t s op l] by simp
qed

text \<open>A lookup within the lifetime of a checkpoint sees the quota the checkpoint left.\<close>

lemma checkpoint_then_remaining:
  assumes inv: "invar t s" and times: "sorted [t, t1, t2, t3, u1, u2]" and "u1 \<le> t3 + ttl"
    and r: "get_remaining_int fetch l n t1 t2 k s = ((rem, cur), s1)"
    and ret: "checkpoint fetch store l n t1 t2 t3 k p s = (g, s')"
  shows "fst (get_remaining fetch l n' u1 u2 k s') = fst (refill l (word_of_int n') (rem - g, cur))"
proof -
  have s': "s' = store t3 k (rem - g, cur) s1" using ret r by (auto simp: checkpoint_def Let_def)
  have i1: "invar t2 s1"
    using invar_fetch [OF inv, of t1 t2 k] get_remaining_int_state [of l n t1 t2 k s] r times by simp
  then have i2: "invar t3 s'" using s' times invar_store by simp
  obtain d where "entry s' k = Some (d, rem - g, cur)" "t3 + ttl \<le> d"
    using store_entry [OF i1, of t3 k "(rem - g, cur)"] s' times by auto
  then have "unexpired u1 (entry s' k) = Some (d, rem - g, cur)" using assms(3) by simp
  then have "fst (fetch u1 u2 k s') = Some (rem - g, cur)"
    using fetch_value [OF i2, of u1 u2 k] times by simp
  then show ?thesis
    by (cases "fetch u1 u2 k s'")
      (simp add: get_remaining_def get_remaining_int_def split: prod.split)
qed

end

section \<open>The cache as the limiter's store\<close>

lemma quota_cfg_eq: "quota_cfg = mk_cfg 100 15"
  by (simp add: quota_cfg_def mk_cfg_def)

lemma quota_ms: "expiry_ms quota_cfg = 100000" "segment_ms quota_cfg = 6250"
  by (simp_all add: expiry_ms_def segment_ms_def quota_cfg_def c_div_def)

lemma get_quota_eq: "get_quota = try_get quota_cfg"
  by (intro ext) (simp add: get_quota_def get_eq_try_get prod_eq_iff split: option.split)

lemma put_quota_eq: "put_quota = put quota_cfg"
  by (intro ext) (simp add: put_quota_def)

lemma reset_store_eq: "reset_store = clear"
  by (intro ext) (simp add: reset_store_def)

interpretation ql: quota_store get_quota put_quota reset_store cache_prune entry_of
  "cache_inv quota_cfg" 100000
  using mc.expiring_store_axioms [of 100 15]
  unfolding quota_store_def get_quota_eq put_quota_eq reset_store_eq
  by (simp add: quota_ms flip: quota_cfg_eq)

lemma rate_limit_ctor_capacity:
  assumes "rate_limit_ctor b r = Inr l"
  shows "max_bucket l = b" "rate l = r" "uint b \<le> uint r * 100"
proof -
  have le: "b \<le> r * 100" and l: "l = \<lparr>max_bucket = b, rate = r\<rparr>"
    using assms by (auto simp: rate_limit_ctor_def split: if_splits)
  then show "max_bucket l = b" "rate l = r" by simp_all
  have "uint b \<le> uint (r * 100)" using le by (simp add: word_le_def)
  also have "\<dots> \<le> uint r * 100"
    by (simp add: uint_word_ariths zmod_le_nonneg_dividend)
  finally show "uint b \<le> uint r * 100" .
qed

section \<open>Properties\<close>

text \<open>
  The limiter never over-grants: over any history of calls on any buckets, with the background
  pruning in between, the points granted to one bucket are at most the bucket size plus the rate
  times the elapsed time. Evicting idle buckets from the cache does not break the bound, because
  the constructor only accepts buckets that refill within the cache's lifetime of 100 seconds, and
  neither does the wrap of the 32-bit clock. (The bound counts twice the time a call spends between
  its own clock reading and the cache's.)
\<close>

lemma limiter_never_over_grants:
  assumes "make_rate_limit_memory b r = Inr (l, c)" and "rl_chron t ops"
  shows "int (granted get_quota put_quota cache_prune l k ops c) * 1000 \<le>
    uint b * 1000 + uint r * (rl_run_end t ops - t + total_delay ops)"
proof -
  have l: "rate_limit_ctor b r = Inr l" and c: "c = memcache_ctor"
    using assms(1) by (auto simp: make_rate_limit_memory_def split: sum.splits)
  note cap = rate_limit_ctor_capacity [OF l]
  have "cache_inv quota_cfg t c"
    using c by (simp add: cache_inv_def segs_inv_def memcache_ctor_def)
  moreover have "account (uint (max_bucket l)) (uint (rate l)) 100000 (- t) t 0 (entry_of c k)"
    using c by (simp add: account_def entry_of_def memcache_ctor_def)
  moreover have "uint (max_bucket l) * 1000 \<le> uint (rate l) * 100000" using cap by simp
  ultimately show ?thesis
    using ql.granted_account [OF _ assms(2)] cap by fastforce
qed

text \<open>
  C13. After any history of calls, a checkpoint grants the smaller of the requested points and
  what is left, and a lookup within the cache's lifetime reports exactly what the checkpoint left
  plus the points earned since, at most the bucket size. (\<open>cur\<close> is the millisecond stamp the
  remaining points were computed for; the difference to the current stamp is taken modulo
  \<open>2\<^sup>3\<^sup>2\<close>.)
\<close>

theorem checkpoint_grants_and_refills:
  assumes "make_rate_limit_memory b r = Inr (l, c0)" and "rl_chron t ops"
    and "c = rl_run get_quota put_quota cache_prune l ops c0"
    and "sorted [rl_run_end t ops, t1, t2, t3, u1, u2]" and "u1 \<le> t3 + 100000"
    and "get_remaining_int get_quota l n t1 t2 k c = ((rem, cur), c1)"
    and "checkpoint get_quota put_quota l n t1 t2 t3 k p c = (g, c')"
  shows "unat g = min (unat p) (unat rem) \<and> rem \<le> b \<and>
    unat (fst (get_remaining get_quota l n' u1 u2 k c')) =
      min (unat b) (unat rem - unat g + unat (word_of_int n' - cur) * unat r div 1000)"
proof -
  have l: "rate_limit_ctor b r = Inr l" and c0: "c0 = memcache_ctor"
    using assms(1) by (auto simp: make_rate_limit_memory_def split: sum.splits)
  note cap = rate_limit_ctor_capacity [OF l]
  have "cache_inv quota_cfg t c0" "ql.within_bucket l c0"
    using c0 by (simp_all add: cache_inv_def segs_inv_def memcache_ctor_def ql.within_bucket_def entry_of_def)
  then have inv: "cache_inv quota_cfg (rl_run_end t ops) c" "ql.within_bucket l c"
    using ql.rl_run_within [OF _ assms(2), of c0 l] assms(3) by simp_all
  have rem: "rem \<le> b"
    using ql.get_remaining_int_within(1) [OF inv(1) _ _ inv(2) assms(6)] assms(4) cap by simp
  have g: "g = (if p > rem then rem else p)" using assms(6,7) by (auto simp: checkpoint_def Let_def)
  then have "g \<le> rem" by auto
  moreover from this have "rem - g \<le> b" using rem word_sub_le [of g rem] by simp
  ultimately show ?thesis
    using ql.checkpoint_then_remaining [OF inv(1) assms(4-7), of n'] unat_refill [of "rem - g" l] cap(1,2) rem
    by (simp add: g unat_sub_if' min_def word_le_nat_alt word_less_nat_alt)
qed

theorem checkpoint_grants_and_refills_witness:
  "unat (fst (get_remaining get_quota \<lparr>max_bucket = 10, rate = 30\<rparr> 105 105 105 ''api''
     (snd (checkpoint get_quota put_quota \<lparr>max_bucket = 10, rate = 30\<rparr> 5 5 5 6 ''api'' 8 memcache_ctor)))) =
   5"
proof -
  let ?l = "\<lparr>max_bucket = 10, rate = 30\<rparr> :: rate_limit"
  have m: "make_rate_limit_memory 10 30 = Inr (?l, memcache_ctor)"
    by (simp add: make_rate_limit_memory_def rate_limit_ctor_def)
  obtain c1 where "get_quota 5 5 ''api'' memcache_ctor = (None, c1)"
    by (simp add: get_quota_eq try_get_def touch_def memcache_ctor_def prune_def)
  then have r: "get_remaining_int get_quota ?l 5 5 5 ''api'' memcache_ctor = ((10, 5), c1)"
    by (simp add: get_remaining_int_def)
  then have "checkpoint get_quota put_quota ?l 5 5 5 6 ''api'' 8 memcache_ctor =
      (8, put_quota 6 ''api'' (2, 5) c1)"
    by (simp add: checkpoint_def)
  from checkpoint_grants_and_refills [OF m, of 5 "[]" memcache_ctor 5 5 6 105 105 5 "''api''" 10 5 c1 8 8
      "put_quota 6 ''api'' (2, 5) c1" 105] r this
  show ?thesis by simp
qed

text \<open>
  The constructor's capacity check multiplies in 32 bits: it accepts exactly the bucket sizes up
  to the wrapped product, so a bucket that refills in far less than 100 seconds is rejected once
  \<open>rate * 100\<close> passes \<open>2\<^sup>3\<^sup>2\<close>, while every rate below that limit is judged exactly.
\<close>

lemma rate_limit_ctor_check:
  "(rate_limit_ctor b r = Inl Bad_bucket_size \<longleftrightarrow> (unat r * 100) mod 2 ^ 32 < unat b) \<and>
   (unat r * 100 < 2 ^ 32 \<longrightarrow>
      (rate_limit_ctor b r = Inl Bad_bucket_size \<longleftrightarrow> unat r * 100 < unat b)) \<and>
   rate_limit_ctor 1000 42949673 = Inl Bad_bucket_size"
proof -
  have "unat (r * 100) = (unat r * 100) mod 2 ^ 32" by (simp add: unat_word_ariths)
  then show ?thesis
    by (simp add: rate_limit_ctor_def word_less_nat_alt)
qed

end
