(* ===== verification/Memcache_Threads.thy ===== *)
theory Memcache_Threads
  imports Memcache
begin

text \<open>
  The cache under several threads (\<open>include/libasyik/memcache.hpp\<close>): \<open>make_memcache_mt\<close> gives a cache whose operations hold a
  mutex, \<open>make_memcache\<close> one without. Every access of an operation to \<open>map_list\<close> is a step of its own here, so that the
  steps of different threads interleave; the mutex alone makes the operations of \<open>Memcache\<close> atomic.
\<close>

section \<open>Thread policies\<close>

text \<open>\<open>single_thread\<close> and \<open>multi_thread\<close>: the guard is an integer, or a lock guard on the mutex.\<close>

datatype thread_policy = Single_thread | Multi_thread

text \<open>The mutex is its owner. Constructing the guard waits (\<open>None\<close>) while there is one.\<close>

fun guard_ctor :: "thread_policy \<Rightarrow> nat \<Rightarrow> nat option \<Rightarrow> nat option option" where
  "guard_ctor Single_thread i m = Some m"
| "guard_ctor Multi_thread i None = Some (Some i)"
| "guard_ctor Multi_thread i (Some j) = None"

fun guard_dtor :: "thread_policy \<Rightarrow> nat option \<Rightarrow> nat option" where
  "guard_dtor Single_thread m = m"
| "guard_dtor Multi_thread m = None"

section \<open>Operations in steps\<close>

text \<open>The public operations and the background loop's call of \<open>prune\<close>; \<open>C_get_or_put k v\<close> is given a \<open>make\<close> that returns \<open>v\<close>.\<close>

datatype ('k, 'v) call =
    C_put 'k 'v | C_erase 'k | C_clear | C_get 'k | C_at 'k | C_try_get 'k | C_contains 'k | C_get_or_put 'k 'v
  | C_visit 'k "'v \<Rightarrow> 'v" | C_size | C_prune

datatype 'v outcome = O_unit | O_bool bool | O_value "cache_error + 'v" | O_option "'v option" | O_count nat

text \<open>
  Where an operation is in its body: at its start, in \<open>insert\<close> after the loop that erases the key, in \<open>touch\<close> after \<open>prune\<close>, and in
  \<open>get_or_put\<close> after a miss.
\<close>

datatype 'v body = B_begin | B_erased 'v | B_pruned | B_missed

text \<open>
  A step of the body at time \<open>t\<close>: what is next or the result, the clock readings made and the segments. The result is copied before the
  guard is destroyed. \<open>None\<close>: no such place.
\<close>

definition emplace_step :: "cache_cfg \<Rightarrow> int \<Rightarrow> 'k \<Rightarrow> 'v \<Rightarrow> ('k, 'v) segs \<Rightarrow> 'v option \<times> ('k, 'v) segs" where
  "emplace_step cfg t k v ml =
     (let (y, ml1) = youngest_segment cfg t ml; ml2 = seg_update y (map_emplace k v) ml1 in (map_of (seg_at y ml2) k, ml2))"

definition value_result :: "'v option \<Rightarrow> 'v outcome" where
  "value_result r = O_value (case r of Some v \<Rightarrow> Inr v | None \<Rightarrow> Inl not_found)"

definition find_step ::
  "cache_cfg \<Rightarrow> int \<Rightarrow> 'k \<Rightarrow> ('v option \<Rightarrow> 'v body + 'v outcome) \<Rightarrow> ('k, 'v) segs \<Rightarrow> ('v body + 'v outcome) \<times> int list \<times> ('k, 'v) segs"
where
  "find_step cfg t k done ml =
     (case find_segment k ml of
        None \<Rightarrow> (done None, [], ml)
      | Some (e, v) \<Rightarrow> (case move_to_youngest cfg t k e v ml of (r, ml') \<Rightarrow> (done r, [t], ml')))"

fun body_step ::
  "cache_cfg \<Rightarrow> int \<Rightarrow> ('k, 'v) call \<Rightarrow> 'v body \<Rightarrow> ('k, 'v) segs \<Rightarrow> (('v body + 'v outcome) \<times> int list \<times> ('k, 'v) segs) option"
where
  "body_step cfg t (C_put k v) B_begin ml = Some (Inl (B_erased v), [], erase_all k ml)"
| "body_step cfg t (C_put k v) (B_erased u) ml = Some (Inr O_unit, [t], snd (emplace_step cfg t k u ml))"
| "body_step cfg t (C_erase k) B_begin ml =
     Some (Inr (O_bool (fold (\<lambda>(e, m) found. found \<or> length (map_erase k m) < length m) ml False)), [], erase_all k ml)"
| "body_step cfg t C_clear B_begin ml = Some (Inr O_unit, [], [])"
| "body_step cfg t (C_get k) B_begin ml = Some (Inl B_pruned, [t], prune t ml)"
| "body_step cfg t (C_get k) B_pruned ml = Some (find_step cfg t k (Inr \<circ> value_result) ml)"
| "body_step cfg t (C_at k) B_begin ml = Some (Inr (value_result (find_live t k ml)), [t], ml)"
| "body_step cfg t (C_try_get k) B_begin ml = Some (Inl B_pruned, [t], prune t ml)"
| "body_step cfg t (C_try_get k) B_pruned ml = Some (find_step cfg t k (Inr \<circ> O_option) ml)"
| "body_step cfg t (C_contains k) B_begin ml = Some (Inr (O_bool (find_live t k ml \<noteq> None)), [t], ml)"
| "body_step cfg t (C_get_or_put k v) B_begin ml = Some (Inl B_pruned, [t], prune t ml)"
| "body_step cfg t (C_get_or_put k v) B_pruned ml =
     Some (find_step cfg t k (\<lambda>r. case r of Some u \<Rightarrow> Inr (O_option (Some u)) | None \<Rightarrow> Inl B_missed) ml)"
| "body_step cfg t (C_get_or_put k v) B_missed ml = Some (Inl (B_erased v), [], erase_all k ml)"
| "body_step cfg t (C_get_or_put k v) (B_erased u) ml =
     (case emplace_step cfg t k u ml of (r, ml') \<Rightarrow> Some (Inr (O_option r), [t], ml'))"
| "body_step cfg t (C_visit k f) B_begin ml = Some (Inr (O_bool (find_live t k ml \<noteq> None)), [t], modify_live t k f ml)"
| "body_step cfg t C_size B_begin ml = Some (Inr (O_count (live_size t ml)), [t], ml)"
| "body_step cfg t C_prune B_begin ml = Some (Inr O_unit, [t], prune t ml)"
| "body_step cfg t _ _ ml = None"

section \<open>Threads\<close>

text \<open>
  A thread is idle, waits for the mutex, is in the body (with the clock readings so far), or is about to destroy the guard and return. The log
  lists the operations in the order in which they were finished.
\<close>

datatype ('k, 'v) thread =
    T_idle
  | T_lock "('k, 'v) call"
  | T_body "('k, 'v) call" "int list" "'v body"
  | T_unlock "('k, 'v) call" "int list" "'v outcome"

record ('k, 'v) entry =
  en_thread :: nat
  en_call :: "('k, 'v) call"
  en_times :: "int list"
  en_result :: "'v outcome"

record ('k, 'v) threads =
  th_map :: "('k, 'v) segs"
  th_mutex :: "nat option"
  th_thread :: "nat \<Rightarrow> ('k, 'v) thread"
  th_clock :: int
  th_log :: "('k, 'v) entry list"

definition threads_init :: "int \<Rightarrow> ('k, 'v) threads" where
  "threads_init t = \<lparr>th_map = map_list memcache_ctor, th_mutex = None, th_thread = (\<lambda>_. T_idle), th_clock = t, th_log = []\<rparr>"

text \<open>A step of thread \<open>i\<close> at time \<open>t\<close>; an idle thread starts the operation \<open>c\<close>.\<close>

definition thread_step ::
  "thread_policy \<Rightarrow> cache_cfg \<Rightarrow> nat \<Rightarrow> int \<Rightarrow> ('k, 'v) call \<Rightarrow> ('k, 'v) threads \<Rightarrow> ('k, 'v) threads option"
where
  "thread_step pol cfg i t c s =
     (case th_thread s i of
        T_idle \<Rightarrow> Some (s\<lparr>th_thread := (th_thread s)(i := T_lock c)\<rparr>)
      | T_lock c' \<Rightarrow>
          map_option (\<lambda>m. s\<lparr>th_mutex := m, th_thread := (th_thread s)(i := T_body c' [] B_begin)\<rparr>) (guard_ctor pol i (th_mutex s))
      | T_body c' ts b \<Rightarrow>
          map_option
            (\<lambda>(nx, rd, ml). s\<lparr>th_map := ml,
               th_thread := (th_thread s)(i := (case nx of Inl b' \<Rightarrow> T_body c' (ts @ rd) b' | Inr r \<Rightarrow> T_unlock c' (ts @ rd) r)),
               th_clock := max t (th_clock s)\<rparr>)
            (body_step cfg (max t (th_clock s)) c' b (th_map s))
      | T_unlock c' ts r \<Rightarrow>
          Some (s\<lparr>th_mutex := guard_dtor pol (th_mutex s), th_thread := (th_thread s)(i := T_idle),
                 th_log := th_log s @ [\<lparr>en_thread = i, en_call = c', en_times = ts, en_result = r\<rparr>]\<rparr>))"

inductive threads_step :: "thread_policy \<Rightarrow> cache_cfg \<Rightarrow> ('k, 'v) threads \<Rightarrow> ('k, 'v) threads \<Rightarrow> bool" for pol cfg where
  step: "thread_step pol cfg i t c s = Some s' \<Longrightarrow> threads_step pol cfg s s'"

section \<open>Operations in one\<close>

text \<open>An operation as \<open>Memcache\<close> defines it, with the clock readings it made.\<close>

fun atomic :: "cache_cfg \<Rightarrow> ('k, 'v) call \<Rightarrow> int list \<Rightarrow> ('k, 'v) memcache \<Rightarrow> 'v outcome \<times> ('k, 'v) memcache" where
  "atomic cfg (C_put k v) ts c = (O_unit, put cfg (last ts) k v c)"
| "atomic cfg (C_erase k) ts c = map_prod O_bool id (erase k c)"
| "atomic cfg C_clear ts c = (O_unit, clear c)"
| "atomic cfg (C_get k) ts c = map_prod O_value id (get cfg (hd ts) (last ts) k c)"
| "atomic cfg (C_at k) ts c = (O_value (at (hd ts) k c), c)"
| "atomic cfg (C_try_get k) ts c = map_prod O_option id (try_get cfg (hd ts) (last ts) k c)"
| "atomic cfg (C_contains k) ts c = (O_bool (contains (hd ts) k c), c)"
| "atomic cfg (C_get_or_put k v) ts c = map_prod O_option id (get_or_put cfg (hd ts) (last ts) (last ts) k (\<lambda>_. v) c)"
| "atomic cfg (C_visit k f) ts c = map_prod O_bool id (visit (hd ts) k f c)"
| "atomic cfg C_size ts c = (O_count (cache_size (hd ts) c), c)"
| "atomic cfg C_prune ts c = (O_unit, cache_prune (hd ts) c)"

text \<open>The log run from a cache as a sequence of whole operations: the cache at the end, if every result is the logged one.\<close>

fun replay :: "cache_cfg \<Rightarrow> ('k, 'v) entry list \<Rightarrow> ('k, 'v) memcache \<Rightarrow> ('k, 'v) memcache option" where
  "replay cfg [] c = Some c"
| "replay cfg (en # ens) c =
     (case atomic cfg (en_call en) (en_times en) c of
        (r, c') \<Rightarrow> if r = en_result en then replay cfg ens c' else None)"

section \<open>The steps of one operation\<close>

text \<open>An operation in its body that found the cache \<open>c0\<close>: what it has read and what the segments are.\<close>

definition missed :: "'k \<Rightarrow> int list \<Rightarrow> ('k, 'v) memcache \<Rightarrow> ('k, 'v) segs \<Rightarrow> bool" where
  "missed k ts c0 ml \<longleftrightarrow> (\<exists>t. ts = [t] \<and> ml = prune t (map_list c0) \<and> find_segment k ml = None)"

fun partial :: "('k, 'v) call \<Rightarrow> int list \<Rightarrow> 'v body \<Rightarrow> ('k, 'v) memcache \<Rightarrow> ('k, 'v) segs \<Rightarrow> bool" where
  "partial c ts B_begin c0 ml \<longleftrightarrow> ts = [] \<and> ml = map_list c0"
| "partial (C_put k v) ts (B_erased u) c0 ml \<longleftrightarrow> u = v \<and> ts = [] \<and> ml = erase_all k (map_list c0)"
| "partial (C_get k) ts B_pruned c0 ml \<longleftrightarrow> (\<exists>t. ts = [t] \<and> ml = prune t (map_list c0))"
| "partial (C_try_get k) ts B_pruned c0 ml \<longleftrightarrow> (\<exists>t. ts = [t] \<and> ml = prune t (map_list c0))"
| "partial (C_get_or_put k v) ts B_pruned c0 ml \<longleftrightarrow> (\<exists>t. ts = [t] \<and> ml = prune t (map_list c0))"
| "partial (C_get_or_put k v) ts B_missed c0 ml \<longleftrightarrow> missed k ts c0 ml"
| "partial (C_get_or_put k v) ts (B_erased u) c0 ml \<longleftrightarrow> u = v \<and> (\<exists>ml1. missed k ts c0 ml1 \<and> ml = erase_all k ml1)"
| "partial c ts b c0 ml \<longleftrightarrow> False"

lemma map_of_at_or_new: "map_of (at_or_new e ml) e \<noteq> None"
  by (induction ml) auto

lemma youngest_segment_present: "youngest_segment cfg t ml = (y, ml') \<Longrightarrow> map_of ml' y \<noteq> None"
  using map_of_at_or_new by (fastforce simp: youngest_segment_def Let_def split: list.splits if_splits)

lemma seg_at_update: "map_of ml y \<noteq> None \<Longrightarrow> seg_at y (seg_update y f ml) = f (seg_at y ml)"
  by (induction ml) (auto simp: seg_at_def)

lemma move_finds: "\<exists>u ml'. move_to_youngest cfg t k e v ml = (Some u, ml')"
proof -
  obtain y ml2 where y: "youngest_segment cfg t ml = (y, ml2)" by force
  have "map_of (map_emplace k v m) k \<noteq> None" for m
    by (auto simp: std_map split: option.split)
  with seg_at_update [OF youngest_segment_present [OF y]] show ?thesis by (auto simp: move_to_youngest_def y Let_def)
qed

text \<open>A step gets on, and a finished body has done the whole operation.\<close>

definition advances :: "cache_cfg \<Rightarrow> ('k, 'v) call \<Rightarrow> int list \<Rightarrow> ('v body + 'v outcome) \<Rightarrow> ('k, 'v) memcache \<Rightarrow> ('k, 'v) segs \<Rightarrow> bool" where
  "advances cfg c ts nx c0 ml \<longleftrightarrow>
     (case nx of
        Inl b \<Rightarrow> partial c ts b c0 ml
      | Inr r \<Rightarrow> atomic cfg c ts c0 = (r, c0\<lparr>map_list := ml\<rparr>) \<and> (ts \<noteq> [] \<or> c = C_clear \<or> (\<exists>k. c = C_erase k)))"

lemma find_step_touch:
  obtains r rd ml' where "find_step cfg t k done (prune t1 m) = (done r, rd, ml')" "rd = [] \<or> rd = [t]"
    "touch cfg t1 (last (t1 # rd)) k m = (r, ml')"
    "r = None \<longrightarrow> rd = [] \<and> ml' = prune t1 m \<and> find_segment k (prune t1 m) = None"
proof (cases "find_segment k (prune t1 m)")
  case None
  then show ?thesis using that [of None "[]" "prune t1 m"] by (simp add: find_step_def touch_def)
next
  case (Some p)
  obtain e v where p: "p = (e, v)" by force
  obtain u ml' where "move_to_youngest cfg t k e v (prune t1 m) = (Some u, ml')" using move_finds [of cfg t k e v "prune t1 m"] by blast
  then show ?thesis using that [of "Some u" "[t]" ml'] Some p by (simp add: find_step_def touch_def)
qed

lemmas op_defs =
  value_result_def put_def insert_entry_def emplace_step_def erase_def clear_def get_def try_get_def at_def contains_def visit_def
  cache_size_def cache_prune_def get_or_put_def missed_def

lemma body_advances:
  assumes "partial c ts b c0 ml"
  obtains nx rd ml' where "body_step cfg t c b ml = Some (nx, rd, ml')" "rd = [] \<or> rd = [t]" "advances cfg c (ts @ rd) nx c0 ml'"
proof (cases "b = B_pruned")
  case False
  then have "\<exists>nx rd ml'. body_step cfg t c b ml = Some (nx, rd, ml') \<and> (rd = [] \<or> rd = [t]) \<and> advances cfg c (ts @ rd) nx c0 ml'"
    using assms
    by (cases "(cfg, t, c, b, ml)" rule: body_step.cases) (auto simp: advances_def op_defs touch_def case_prod_beta Let_def)
  then show ?thesis using that by blast
next
  case True
  with assms obtain t1 where t1: "ts = [t1]" "ml = prune t1 (map_list c0)" by (cases c) auto
  have "\<exists>nx rd ml'. body_step cfg t c b ml = Some (nx, rd, ml') \<and> (rd = [] \<or> rd = [t]) \<and> advances cfg c (ts @ rd) nx c0 ml'"
  proof (cases c)
    case (C_get k)
    then show ?thesis
      using True t1 find_step_touch [of cfg t k "Inr \<circ> value_result" t1 "map_list c0"] by (fastforce simp: advances_def op_defs)
  next
    case (C_try_get k)
    then show ?thesis
      using True t1 find_step_touch [of cfg t k "Inr \<circ> O_option" t1 "map_list c0"] by (fastforce simp: advances_def op_defs)
  next
    case (C_get_or_put k v)
    obtain r rd ml' where "find_step cfg t k (\<lambda>r. case r of Some u \<Rightarrow> Inr (O_option (Some u)) | None \<Rightarrow> Inl B_missed) (prune t1 (map_list c0)) =
        ((case r of Some u \<Rightarrow> Inr (O_option (Some u)) | None \<Rightarrow> Inl B_missed), rd, ml')" "rd = [] \<or> rd = [t]"
      "touch cfg t1 (last (t1 # rd)) k (map_list c0) = (r, ml')"
      "r = None \<longrightarrow> rd = [] \<and> ml' = prune t1 (map_list c0) \<and> find_segment k (prune t1 (map_list c0)) = None"
      by (rule find_step_touch [of cfg t k "\<lambda>r. case r of Some u \<Rightarrow> Inr (O_option (Some u)) | None \<Rightarrow> Inl B_missed" t1 "map_list c0"])
    then show ?thesis using C_get_or_put True t1 by (cases r) (auto simp: advances_def op_defs)
  qed (use assms True in simp_all)
  then show ?thesis using that by blast
qed

section \<open>The mutex makes operations atomic\<close>

fun holds :: "('k, 'v) thread \<Rightarrow> bool" where
  "holds (T_body c ts b) = True"
| "holds (T_unlock c ts r) = True"
| "holds _ = False"

fun readings :: "('k, 'v) thread \<Rightarrow> int list" where
  "readings (T_body c ts b) = ts"
| "readings (T_unlock c ts r) = ts"
| "readings _ = []"

definition log_times :: "('k, 'v) threads \<Rightarrow> int list" where
  "log_times s = concat (map en_times (th_log s))"

text \<open>What the owner of the mutex has done to the cache \<open>c0\<close> that the finished operations left.\<close>

fun doing :: "cache_cfg \<Rightarrow> ('k, 'v) thread \<Rightarrow> ('k, 'v) memcache \<Rightarrow> ('k, 'v) segs \<Rightarrow> bool" where
  "doing cfg (T_body c ts b) c0 ml \<longleftrightarrow> partial c ts b c0 ml"
| "doing cfg (T_unlock c ts r) c0 ml \<longleftrightarrow> advances cfg c ts (Inr r) c0 ml"
| "doing cfg _ c0 ml \<longleftrightarrow> ml = map_list c0"

definition timed :: "('k, 'v) entry \<Rightarrow> bool" where
  "timed en \<longleftrightarrow> en_times en \<noteq> [] \<or> en_call en = C_clear \<or> (\<exists>k. en_call en = C_erase k)"

definition owner_thread :: "('k, 'v) threads \<Rightarrow> ('k, 'v) thread" where
  "owner_thread s = (case th_mutex s of None \<Rightarrow> T_idle | Some i \<Rightarrow> th_thread s i)"

definition threads_inv :: "cache_cfg \<Rightarrow> int \<Rightarrow> ('k, 'v) threads \<Rightarrow> bool" where
  "threads_inv cfg t0 s \<longleftrightarrow>
     (\<forall>i. holds (th_thread s i) \<longleftrightarrow> th_mutex s = Some i) \<and>
     (\<exists>c0. replay cfg (th_log s) memcache_ctor = Some c0 \<and> doing cfg (owner_thread s) c0 (th_map s)) \<and>
     sorted (t0 # log_times s @ readings (owner_thread s) @ [th_clock s]) \<and> list_all timed (th_log s)"

lemma threads_inv_init: "threads_inv cfg t (threads_init t)"
  by (simp add: threads_inv_def threads_init_def owner_thread_def log_times_def)

lemma replay_snoc: "replay cfg (l @ [en]) c =
    Option.bind (replay cfg l c) (\<lambda>c1. case atomic cfg (en_call en) (en_times en) c1 of
      (r, c') \<Rightarrow> if r = en_result en then Some c' else None)"
  by (induction cfg l c rule: replay.induct) (auto split: prod.split)

lemma log_times_snoc: "th_log s' = th_log s @ [en] \<Longrightarrow> log_times s' = log_times s @ en_times en"
  by (simp add: log_times_def)

lemma owner_thread_other [simp]:
  "th_mutex s = Some j \<Longrightarrow> owner_thread s = th_thread s j" "th_mutex s = None \<Longrightarrow> owner_thread s = T_idle"
  by (simp_all add: owner_thread_def)

lemma sorted_times_snoc: "sorted (xs @ [y :: int]) \<Longrightarrow> y \<le> z \<Longrightarrow> sorted (xs @ [z]) \<and> sorted (xs @ [z, z])"
  by (auto simp: sorted_append)

lemma threads_inv_step:
  assumes "threads_inv cfg t0 s" and "thread_step Multi_thread cfg i t c s = Some s'"
  shows "threads_inv cfg t0 s'"
proof (cases "th_thread s i")
  case T_idle
  then have "th_mutex s \<noteq> Some i" using assms(1) by (metis holds.simps(3) threads_inv_def)
  then have "owner_thread s' = owner_thread s" using assms(2) T_idle
    by (cases "th_mutex s") (auto simp: thread_step_def owner_thread_def)
  moreover have "th_log s' = th_log s \<and> th_map s' = th_map s \<and> th_mutex s' = th_mutex s \<and> th_clock s' = th_clock s"
    "holds (th_thread s' j) = holds (th_thread s j)" for j
    using assms(2) T_idle by (auto simp: thread_step_def split: if_splits)
  ultimately show ?thesis using assms(1) by (simp add: threads_inv_def log_times_def)
next
  case (T_lock c')
  then have "th_mutex s = None" using assms(2) by (cases "th_mutex s") (auto simp: thread_step_def)
  then show ?thesis using assms T_lock by (auto simp: threads_inv_def thread_step_def log_times_def split: if_splits)
next
  case (T_body c' ts b)
  then have m: "th_mutex s = Some i" using assms(1) by (auto simp: threads_inv_def)
  let ?t = "max t (th_clock s)"
  obtain c0 where c0: "replay cfg (th_log s) memcache_ctor = Some c0" "partial c' ts b c0 (th_map s)"
    using assms(1) T_body m by (auto simp: threads_inv_def)
  obtain nx rd ml' where bs: "body_step cfg ?t c' b (th_map s) = Some (nx, rd, ml')" "rd = [] \<or> rd = [?t]" "advances cfg c' (ts @ rd) nx c0 ml'"
    using body_advances [OF c0(2)] by blast
  let ?th = "case nx of Inl b' \<Rightarrow> T_body c' (ts @ rd) b' | Inr r \<Rightarrow> T_unlock c' (ts @ rd) r"
  have s': "s' = s\<lparr>th_map := ml', th_thread := (th_thread s)(i := ?th), th_clock := ?t\<rparr>"
    using assms(2) T_body bs(1) by (simp add: thread_step_def)
  have "sorted ((t0 # log_times s @ ts) @ [th_clock s])" using assms(1) T_body m by (auto simp: threads_inv_def)
  from sorted_times_snoc [OF this, of ?t] bs(2) have "sorted (t0 # log_times s @ readings ?th @ [?t])" by (auto split: sum.split)
  moreover have "doing cfg ?th c0 ml'" using bs(3) by (auto simp: advances_def split: sum.split)
  moreover have "holds ?th" by (cases nx) simp_all
  ultimately show ?thesis using assms(1) m c0(1) by (auto simp: threads_inv_def s' log_times_def split: if_splits)
next
  case (T_unlock c' ts r)
  then have m: "th_mutex s = Some i" using assms(1) by (auto simp: threads_inv_def)
  obtain c0 where c0: "replay cfg (th_log s) memcache_ctor = Some c0" "advances cfg c' ts (Inr r) c0 (th_map s)"
    using assms(1) T_unlock m by (auto simp: threads_inv_def)
  let ?en = "\<lparr>en_thread = i, en_call = c', en_times = ts, en_result = r\<rparr>"
  have s': "s' = s\<lparr>th_mutex := None, th_thread := (th_thread s)(i := T_idle), th_log := th_log s @ [?en]\<rparr>"
    using assms(2) T_unlock by (simp add: thread_step_def)
  have "replay cfg (th_log s @ [?en]) memcache_ctor = Some (c0\<lparr>map_list := th_map s\<rparr>)" "timed ?en"
    using c0 by (auto simp: replay_snoc advances_def timed_def)
  then show ?thesis using assms(1) m T_unlock by (auto simp: threads_inv_def s' log_times_def split: if_splits)
qed

lemma threads_inv_run: "(threads_step Multi_thread cfg)\<^sup>*\<^sup>* (threads_init t) s \<Longrightarrow> threads_inv cfg t s"
  by (induction rule: rtranclp_induct) (auto simp: threads_inv_init elim!: threads_step.cases intro: threads_inv_step)

text \<open>Some thread can always go on, and the owner of the mutex gets closer to releasing it with every step.\<close>

fun steps_left :: "('k, 'v) thread \<Rightarrow> nat" where
  "steps_left (T_body c ts B_begin) = 5"
| "steps_left (T_body c ts B_pruned) = 4"
| "steps_left (T_body c ts B_missed) = 3"
| "steps_left (T_body c ts (B_erased v)) = 2"
| "steps_left (T_unlock c ts r) = 1"
| "steps_left _ = 0"

lemma owner_goes_on:
  assumes "threads_inv cfg t0 s" and "th_mutex s = Some j"
  shows "\<exists>s'. thread_step Multi_thread cfg j t c s = Some s' \<and> steps_left (th_thread s' j) < steps_left (th_thread s j)"
proof -
  have "holds (th_thread s j)" using assms by (simp add: threads_inv_def)
  then consider c' ts b where "th_thread s j = T_body c' ts b" | c' ts r where "th_thread s j = T_unlock c' ts r"
    by (cases "th_thread s j") auto
  then show ?thesis
  proof cases
    case 1
    let ?t = "max t (th_clock s)"
    obtain c0 where c0: "partial c' ts b c0 (th_map s)" using assms 1 by (auto simp: threads_inv_def)
    obtain nx rd ml' where bs: "body_step cfg ?t c' b (th_map s) = Some (nx, rd, ml')" using body_advances [OF c0] by metis
    have "steps_left (case nx of Inl b' \<Rightarrow> T_body c' (ts @ rd) b' | Inr r \<Rightarrow> T_unlock c' (ts @ rd) r) < steps_left (T_body c' ts b)"
      using bs by (cases "(cfg, ?t, c', b, th_map s)" rule: body_step.cases) (auto simp: find_step_def split: option.splits prod.splits)
    then show ?thesis using 1 bs by (auto simp: thread_step_def)
  next
    case 2
    then show ?thesis by (simp add: thread_step_def)
  qed
qed

lemma threads_progress:
  assumes "threads_inv cfg t0 s" and "th_thread s i \<noteq> T_idle"
  shows "\<exists>j s'. th_thread s j \<noteq> T_idle \<and> thread_step Multi_thread cfg j t c s = Some s'"
proof (cases "th_mutex s")
  case (Some j)
  then have "holds (th_thread s j)" using assms(1) by (simp add: threads_inv_def)
  then show ?thesis using owner_goes_on [OF assms(1) Some, of t c] by (metis holds.simps(3))
next
  case None
  then have "\<not> holds (th_thread s i)" using assms(1) by (auto simp: threads_inv_def)
  then obtain c' where "th_thread s i = T_lock c'" using assms(2) by (cases "th_thread s i") auto
  then have "\<exists>s'. thread_step Multi_thread cfg i t c s = Some s'" using None by (simp add: thread_step_def)
  then show ?thesis using assms(2) by blast
qed

section \<open>One value is created\<close>

fun call_key :: "('k, 'v) call \<Rightarrow> 'k option" where
  "call_key (C_put k v) = Some k"
| "call_key (C_erase k) = Some k"
| "call_key (C_get k) = Some k"
| "call_key (C_try_get k) = Some k"
| "call_key (C_get_or_put k v) = Some k"
| "call_key (C_visit k f) = Some k"
| "call_key _ = None"

text \<open>An operation as one of \<open>Memcache\<close>'s histories that changes the cache in the same way, if it may change it.\<close>

fun op_of :: "int \<Rightarrow> ('k, 'v) call \<Rightarrow> int list \<Rightarrow> ('k, 'v) cache_op option" where
  "op_of t (C_put k v) ts = Some (Op_put (last ts) k v)"
| "op_of t (C_erase k) ts = Some (Op_erase t k)"
| "op_of t (C_get k) ts = Some (Op_get (hd ts) (last ts) k)"
| "op_of t (C_try_get k) ts = Some (Op_get (hd ts) (last ts) k)"
| "op_of t (C_get_or_put k v) ts = Some (Op_get_or_put (hd ts) (last ts) (last ts) k v)"
| "op_of t (C_visit k f) ts = Some (Op_visit (hd ts) k f)"
| "op_of t C_prune ts = Some (Op_prune (hd ts))"
| "op_of t _ ts = None"

lemma atomic_op_of:
  "snd (atomic cfg c ts m) = (case op_of t c ts of Some op \<Rightarrow> cache_step cfg op m | None \<Rightarrow> if c = C_clear then clear m else m)"
  by (cases c) (simp_all add: get_eq_try_get)

lemma op_of_times:
  assumes "sorted (t # ts)" and "ts \<noteq> [] \<or> (\<exists>k. c = C_erase k)" and "op_of t c ts = Some op"
  shows "sorted (t # op_times op)" "op_end op \<le> last (t # ts)" "op_key op = call_key c"
proof -
  have "t \<le> hd ts \<and> hd ts \<le> last ts \<and> t \<le> last ts" if "ts \<noteq> []" using assms(1) that by (cases ts) auto
  then show "sorted (t # op_times op)" "op_end op \<le> last (t # ts)" "op_key op = call_key c"
    using assms by (cases c; auto simp: op_end_def)+
qed

lemma atomic_spec:
  assumes "cfg_ok cfg" and "cache_inv cfg t m" and "sorted (t # en_times en)" and "timed en"
    and "atomic cfg (en_call en) (en_times en) m = (r, m')"
  shows "cache_inv cfg (last (t # en_times en)) m' \<and>
    (call_key (en_call en) \<noteq> Some k \<and> en_call en \<noteq> C_clear \<and> last (t # en_times en) \<le> now
       \<longrightarrow> unexpired now (entry_of m' k) = unexpired now (entry_of m k))"
proof (cases "op_of t (en_call en) (en_times en)")
  case None
  have "t \<le> last (t # en_times en)" using assms(3) by (cases "en_times en") auto
  moreover have "cache_inv cfg t (clear m)" by (simp add: cache_inv_def segs_inv_def clear_def)
  moreover have "m' = (if en_call en = C_clear then clear m else m)"
    using assms(5) atomic_op_of [of cfg "en_call en" "en_times en" m t] None by simp
  ultimately show ?thesis using assms(2) by (auto intro: cache_inv_later)
next
  case (Some op)
  then have "en_call en \<noteq> C_clear" by auto
  then have shape: "en_times en \<noteq> [] \<or> (\<exists>k. en_call en = C_erase k)" using assms(4) by (auto simp: timed_def)
  note op = op_of_times [OF assms(3) shape Some]
  have "m' = cache_step cfg op m" using assms(5) atomic_op_of [of cfg "en_call en" "en_times en" m t] Some by simp
  then show ?thesis using cache_step_spec [OF assms(1,2) op(1), of k now] op(2,3) by (auto intro: cache_inv_later)
qed

definition quiet :: "'k \<Rightarrow> ('k, 'v) entry \<Rightarrow> bool" where
  "quiet k en \<longleftrightarrow> call_key (en_call en) \<noteq> Some k \<and> en_call en \<noteq> C_clear"

lemma replay_spec:
  assumes "cfg_ok cfg" and "cache_inv cfg t m" and "sorted (t # concat (map en_times l))" and "list_all timed l"
    and "replay cfg l m = Some m'"
  shows "cache_inv cfg (last (t # concat (map en_times l))) m' \<and>
    (list_all (quiet k) l \<and> last (t # concat (map en_times l)) \<le> now \<longrightarrow> unexpired now (entry_of m' k) = unexpired now (entry_of m k))"
  using assms(2-5)
proof (induction l arbitrary: t m)
  case (Cons en l)
  let ?t = "last (t # en_times en)"
  obtain r m1 where a: "atomic cfg (en_call en) (en_times en) m = (r, m1)" by force
  have s: "sorted (t # en_times en)" "sorted (?t # concat (map en_times l))"
    using Cons.prems(2) by (auto simp: sorted_append)
  have le: "?t \<le> last (?t # concat (map en_times l))" using s(2) by (cases "concat (map en_times l)") auto
  have last: "last (t # concat (map en_times (en # l))) = last (?t # concat (map en_times l))" by simp
  have m1: "replay cfg l m1 = Some m'" using Cons.prems(4) a by (auto split: if_splits)
  note spec = atomic_spec [OF assms(1) Cons.prems(1) s(1) _ a, of k now]
  have "cache_inv cfg ?t m1" using spec Cons.prems(3) by simp
  note ih = Cons.IH [OF this s(2) _ m1]
  show ?case unfolding last using ih spec Cons.prems(3) le by (auto simp: quiet_def)
qed simp

lemma get_or_put_finds:
  assumes "cfg_ok cfg" and "cache_inv cfg t c" and "t \<le> u1" "u1 \<le> u2" and "unexpired u1 (entry_of c k) = Some (d, v)"
  shows "fst (get_or_put cfg u1 u2 u3 k mk c) = Some v"
  using touch_value [OF assms(1) assms(2) [unfolded cache_inv_def] assms(3,4), of k] assms(5)
  by (cases "touch cfg u1 u2 k (map_list c)") (simp add: entry_of_def get_or_put_simps)

lemma sorted_split: "sorted ((t :: int) # xs @ ys) \<Longrightarrow> sorted (t # xs) \<and> sorted (last (t # xs) # ys)"
  by (auto simp: sorted_append)

lemma replay_append: "replay cfg (xs @ ys) m = Option.bind (replay cfg xs m) (replay cfg ys)"
  by (induction cfg xs m rule: replay.induct) (auto split: prod.split)

lemma sorted_hd_last: "sorted ((t :: int) # xs) \<Longrightarrow> xs \<noteq> [] \<Longrightarrow> t \<le> hd xs \<and> hd xs \<le> last xs"
  by (cases xs) auto

text \<open>An operation in the middle of a log.\<close>

lemma replay_middle:
  assumes "cfg_ok cfg" and "cache_inv cfg t m" and "sorted (t # concat (map en_times (xs @ en # ys)))"
    and "list_all timed (xs @ en # ys)" and "replay cfg (xs @ en # ys) m = Some c"
  obtains T m1 m2 where "T = last (t # concat (map en_times xs))" "replay cfg xs m = Some m1" "cache_inv cfg T m1" "sorted (T # en_times en)"
    "atomic cfg (en_call en) (en_times en) m1 = (en_result en, m2)" "cache_inv cfg (last (T # en_times en)) m2"
    "sorted (last (T # en_times en) # concat (map en_times ys))" "replay cfg ys m2 = Some c"
proof -
  let ?T = "last (t # concat (map en_times xs))"
  obtain m1 where m1: "replay cfg xs m = Some m1" "replay cfg (en # ys) m1 = Some c"
    using assms(5) by (auto simp: replay_append bind_eq_Some_conv simp del: replay.simps)
  obtain m2 where m2: "atomic cfg (en_call en) (en_times en) m1 = (en_result en, m2)" "replay cfg ys m2 = Some c"
    using m1(2) by (auto split: prod.splits if_splits)
  have s: "sorted (t # concat (map en_times xs))" "sorted (?T # en_times en @ concat (map en_times ys))"
    using assms(3) sorted_split [of t "concat (map en_times xs)" "en_times en @ concat (map en_times ys)"] by simp_all
  note s' = sorted_split [OF s(2)]
  have inv1: "cache_inv cfg ?T m1" using replay_spec [OF assms(1,2) s(1) _ m1(1)] assms(4) by simp
  moreover have "cache_inv cfg (last (?T # en_times en)) m2" using atomic_spec [OF assms(1) inv1 _ _ m2(1)] s' assms(4) by simp
  ultimately show ?thesis using that [OF refl] m1(1) m2 s' by blast
qed

text \<open>Within a lifetime of one \<open>get_or_put\<close>, the next one for the key finds its value, whichever threads they are on.\<close>

lemma logged_get_or_put_once:
  assumes cfg: "cfg_ok cfg" and run: "replay cfg (l1 @ e1 # l2 @ e2 # l3) memcache_ctor = Some c"
    and srt: "sorted (t # concat (map en_times (l1 @ e1 # l2 @ e2 # l3)))" and tm: "list_all timed (l1 @ e1 # l2 @ e2 # l3)"
    and e1: "en_call e1 = C_get_or_put k v1" and e2: "en_call e2 = C_get_or_put k v2" and l2: "list_all (quiet k) l2"
    and soon: "hd (en_times e2) \<le> last (en_times e1) + expiry_ms cfg"
  shows "\<exists>v. en_result e1 = O_option (Some v) \<and> en_result e2 = O_option (Some v)"
proof -
  have "cache_inv cfg t memcache_ctor" by (simp add: cache_inv_def segs_inv_def memcache_ctor_def)
  from replay_middle [OF cfg this srt tm run] obtain T1 c1 c2 where
    c1: "cache_inv cfg T1 c1" "sorted (T1 # en_times e1)" "atomic cfg (en_call e1) (en_times e1) c1 = (en_result e1, c2)"
    and c2: "cache_inv cfg (last (T1 # en_times e1)) c2" "sorted (last (T1 # en_times e1) # concat (map en_times (l2 @ e2 # l3)))"
      "replay cfg (l2 @ e2 # l3) c2 = Some c" .
  have "list_all timed (l2 @ e2 # l3)" using tm by simp
  from replay_middle [OF cfg c2(1,2) this c2(3)] obtain T3 c3 c4 where
    T3: "T3 = last (last (T1 # en_times e1) # concat (map en_times l2))" and c3: "replay cfg l2 c2 = Some c3"
    and inv3: "cache_inv cfg T3 c3" and s3: "sorted (T3 # en_times e2)"
    and c4: "atomic cfg (en_call e2) (en_times e2) c3 = (en_result e2, c4)" .
  have ne: "en_times e1 \<noteq> []" "en_times e2 \<noteq> []" using tm e1 e2 by (auto simp: timed_def)
  have ord: "T1 \<le> hd (en_times e1)" "hd (en_times e1) \<le> last (en_times e1)" "T3 \<le> hd (en_times e2)" "hd (en_times e2) \<le> last (en_times e2)"
    using sorted_hd_last [OF c1(2) ne(1)] sorted_hd_last [OF s3 ne(2)] by simp_all
  obtain r where r: "get_or_put cfg (hd (en_times e1)) (last (en_times e1)) (last (en_times e1)) k (\<lambda>_. v1) c1 = (r, c2)"
    "en_result e1 = O_option r"
    using c1(3) e1 by (auto simp: map_prod_def split: prod.splits)
  from get_or_put_result [OF cfg c1(1) ord(1,2) order_refl r(1)] obtain v d where
    v: "r = Some v" "entry_of c2 k = Some (d, v)" "last (en_times e1) + expiry_ms cfg \<le> d" .
  have "sorted (last (T1 # en_times e1) # concat (map en_times l2))"
    using sorted_split [OF c2(2) [unfolded map_append concat_append]] by blast
  from replay_spec [OF cfg c2(1) this _ c3, of k "hd (en_times e2)"] tm l2 ord(3) T3 v soon
  have "unexpired (hd (en_times e2)) (entry_of c3 k) = Some (d, v)" by simp
  then have "fst (get_or_put cfg (hd (en_times e2)) (last (en_times e2)) (last (en_times e2)) k (\<lambda>_. v2) c3) = Some v"
    by (rule get_or_put_finds [OF cfg inv3 ord(3,4)])
  then show ?thesis using c4 e2 r(2) v(1) by (auto simp: map_prod_def split: prod.splits)
qed

section \<open>Schedules\<close>

text \<open>A schedule says which thread takes the next step, at which time, and what it starts if it is idle.\<close>

fun run_schedule ::
  "thread_policy \<Rightarrow> cache_cfg \<Rightarrow> (nat \<times> int \<times> ('k, 'v) call) list \<Rightarrow> ('k, 'v) threads \<Rightarrow> ('k, 'v) threads option"
where
  "run_schedule pol cfg [] s = Some s"
| "run_schedule pol cfg ((i, t, c) # sch) s = Option.bind (thread_step pol cfg i t c s) (run_schedule pol cfg sch)"

lemma run_schedule_reaches: "run_schedule pol cfg sch s = Some s' \<Longrightarrow> (threads_step pol cfg)\<^sup>*\<^sup>* s s'"
  by (induction pol cfg sch s rule: run_schedule.induct)
    (auto simp: bind_eq_Some_conv intro: converse_rtranclp_into_rtranclp step)

text \<open>Two threads that both call \<open>get_or_put\<close> for one key: the second starts while the first is in its body.\<close>

definition demo_schedule :: "(nat \<times> int \<times> (nat, nat) call) list" where
  "demo_schedule =
     [(0, 0, C_get_or_put 5 10), (0, 1, C_clear), (0, 2, C_clear), (1, 3, C_get_or_put 5 20), (0, 4, C_clear), (0, 5, C_clear),
      (0, 6, C_clear), (0, 7, C_clear), (1, 8, C_clear), (1, 9, C_clear), (1, 10, C_clear), (1, 11, C_clear)]"

lemma demo_schedule_log:
  "map_option (map (\<lambda>en. (en_thread en, en_times en, en_result en)) \<circ> th_log)
     (run_schedule Multi_thread (mk_cfg 2 9) demo_schedule (threads_init 0)) =
     Some [(0, [2, 6], O_option (Some 10)), (1, [9, 10], O_option (Some 10))]"
  by code_simp

text \<open>Without the mutex, as \<open>make_memcache\<close> builds the cache, both threads create a value.\<close>

lemma single_thread_creates_twice:
  "map_option (map en_result \<circ> th_log)
     (run_schedule Single_thread (mk_cfg 2 9)
       ([(0, 0, C_get_or_put 5 10), (0, 1, C_clear), (0, 2, C_clear), (0, 3, C_clear),
         (1, 4, C_get_or_put 5 20), (1, 5, C_clear), (1, 6, C_clear), (1, 7, C_clear),
         (0, 8, C_clear), (0, 9, C_clear), (0, 10, C_clear), (1, 11, C_clear), (1, 12, C_clear), (1, 13, C_clear)] ::
         (nat \<times> int \<times> (nat, nat) call) list)
       (threads_init 0)) = Some [O_option (Some 10), O_option (Some 20)]"
  by code_simp

section \<open>Properties\<close>

text \<open>
  C7. The cache of \<open>make_memcache_mt\<close> is linearisable: however the steps of the threads interleave, the operations that have finished
  returned what they return when they are run whole, one after the other, in the order in which they gave up the mutex, with clock
  readings that never go back, and when no thread is in an operation the cache is the one this run leaves. Of two \<open>get_or_put\<close> for a key that
  follow each other within a lifetime only one creates the value and both return it. Some thread that has not finished
  can always go on.
\<close>

theorem concurrent_cache_linearisable:
  assumes "cfg_ok cfg" and "(threads_step Multi_thread cfg)\<^sup>*\<^sup>* (threads_init t) s"
  shows "(\<exists>c. replay cfg (th_log s) memcache_ctor = Some c \<and> (th_mutex s = None \<longrightarrow> th_map s = map_list c)) \<and>
    sorted (t # concat (map en_times (th_log s))) \<and>
    (\<forall>l1 e1 l2 e2 l3 k v1 v2. th_log s = l1 @ e1 # l2 @ e2 # l3 \<and>
       en_call e1 = C_get_or_put k v1 \<and> en_call e2 = C_get_or_put k v2 \<and> list_all (quiet k) l2 \<and>
       hd (en_times e2) \<le> last (en_times e1) + expiry_ms cfg
       \<longrightarrow> (\<exists>v. en_result e1 = O_option (Some v) \<and> en_result e2 = O_option (Some v))) \<and>
    (\<forall>i. th_thread s i \<noteq> T_idle \<longrightarrow> (\<exists>j s'. th_thread s j \<noteq> T_idle \<and> thread_step Multi_thread cfg j now c s = Some s'))"
proof -
  have inv: "threads_inv cfg t s" using assms(2) by (rule threads_inv_run)
  then obtain c0 where c0: "replay cfg (th_log s) memcache_ctor = Some c0" "doing cfg (owner_thread s) c0 (th_map s)"
    and srt: "sorted (t # log_times s @ readings (owner_thread s) @ [th_clock s])" and tm: "list_all timed (th_log s)"
    by (auto simp: threads_inv_def simp del: sorted_wrt.simps)
  have times: "sorted (t # concat (map en_times (th_log s)))" using sorted_split [OF srt] by (simp add: log_times_def)
  have "\<exists>v. en_result e1 = O_option (Some v) \<and> en_result e2 = O_option (Some v)"
    if "th_log s = l1 @ e1 # l2 @ e2 # l3" "en_call e1 = C_get_or_put k v1" "en_call e2 = C_get_or_put k v2" "list_all (quiet k) l2"
      "hd (en_times e2) \<le> last (en_times e1) + expiry_ms cfg" for l1 e1 l2 e2 l3 k v1 v2
    using logged_get_or_put_once [OF assms(1) _ _ _ that(2-5)] c0(1) tm times unfolding that(1) by blast
  then show ?thesis using c0 times threads_progress [OF inv, of _ now c] by auto
qed

theorem concurrent_cache_linearisable_witness:
  "\<exists>s c. run_schedule Multi_thread (mk_cfg 2 9) demo_schedule (threads_init 0) = Some s \<and>
     replay (mk_cfg 2 9) (th_log s) memcache_ctor = Some c \<and> map en_result (th_log s) = [O_option (Some 10), O_option (Some 10)]"
proof -
  obtain s where s: "run_schedule Multi_thread (mk_cfg 2 9) demo_schedule (threads_init 0) = Some s"
    and l: "map en_result (th_log s) = [O_option (Some 10), O_option (Some 10)]"
    using demo_schedule_log by auto
  have "\<exists>c. replay (mk_cfg 2 9) (th_log s) memcache_ctor = Some c"
    using concurrent_cache_linearisable [OF cfg_ok_mk_cfg run_schedule_reaches [OF s], of 0 C_clear] by blast
  then show ?thesis using s l by auto
qed

end
