(* ===== verification/Limiter_Threads.thy ===== *)
theory Limiter_Threads
  imports Rate_Limit Memcache_Threads
begin

text \<open>
  The limiter under several threads (\<open>include/libasyik/rate_limit.hpp\<close>). \<open>checkpoint\<close> and \<open>get_remaining\<close> hold the limiter's mutex from
  before their clock reading to their return; \<open>reset\<close> does not take it, and the background loop of the cache prunes
  whenever it likes. A call is a step per clock reading and per operation of the cache, which \<open>Memcache_Threads\<close> shows
  to be atomic.
\<close>

section \<open>Threads\<close>

datatype rl_call = Call_checkpoint string u32 | Call_get_remaining string | Call_reset

text \<open>
  A thread is idle, waits for the mutex, has it (or is in \<open>reset\<close>), has read the clock, has the quota that
  \<open>get_remaining_int\<close> computed, or is about to return.
\<close>

datatype rl_thread =
    L_idle
  | L_lock rl_call
  | L_enter rl_call
  | L_read rl_call int
  | L_have rl_call quota
  | L_return rl_call u32

text \<open>
  The log has the calls with their results in the order in which these were decided; \<open>lt_delay\<close> adds up the times between the limiter's
  clock readings and those of the cache's lookup, as \<^const>\<open>total_delay\<close> does.
\<close>

record limiter_threads =
  lt_cache :: quota_cache
  lt_mutex :: "nat option"
  lt_thread :: "nat \<Rightarrow> rl_thread"
  lt_clock :: int
  lt_log :: "(rl_call \<times> u32) list"
  lt_delay :: int

definition limiter_init :: "int \<Rightarrow> quota_cache \<Rightarrow> limiter_threads" where
  "limiter_init t c = \<lparr>lt_cache = c, lt_mutex = None, lt_thread = (\<lambda>_. L_idle), lt_clock = t, lt_log = [], lt_delay = 0\<rparr>"

fun call_hash :: "rl_call \<Rightarrow> string" where
  "call_hash (Call_checkpoint k p) = k"
| "call_hash (Call_get_remaining k) = k"
| "call_hash Call_reset = []"

definition goto_thread :: "nat \<Rightarrow> rl_thread \<Rightarrow> limiter_threads \<Rightarrow> limiter_threads" where
  "goto_thread i th s = s\<lparr>lt_thread := (lt_thread s)(i := th)\<rparr>"

text \<open>A step of thread \<open>i\<close>, with the clock readings \<open>t\<close> and \<open>t'\<close> if it makes any; an idle thread starts the call \<open>c\<close>.\<close>

definition limiter_step ::
  "rate_limit \<Rightarrow> nat \<Rightarrow> int \<Rightarrow> int \<Rightarrow> rl_call \<Rightarrow> limiter_threads \<Rightarrow> limiter_threads option"
where
  "limiter_step l i t t' c s =
     (let t1 = max t (lt_clock s); t2 = max t' t1 in
      case lt_thread s i of
        L_idle \<Rightarrow> Some (goto_thread i (if c = Call_reset then L_enter c else L_lock c) s)
      | L_lock c' \<Rightarrow>
          map_option (\<lambda>m. goto_thread i (L_enter c') (s\<lparr>lt_mutex := m\<rparr>)) (guard_ctor Multi_thread i (lt_mutex s))
      | L_enter c' \<Rightarrow>
          if c' = Call_reset then
            Some (goto_thread i (L_return c' 0) (s\<lparr>lt_cache := reset reset_store (lt_cache s), lt_log := lt_log s @ [(c', 0)]\<rparr>))
          else Some (goto_thread i (L_read c' t1) (s\<lparr>lt_clock := t1\<rparr>))
      | L_read c' n \<Rightarrow>
          (case get_remaining_int get_quota l n t1 t2 (call_hash c') (lt_cache s) of
             (q, cache) \<Rightarrow>
               let s1 = s\<lparr>lt_cache := cache, lt_clock := t2, lt_delay := lt_delay s + (t1 - n)\<rparr> in
               Some (case c' of
                       Call_checkpoint k p \<Rightarrow> goto_thread i (L_have c' q) s1
                     | _ \<Rightarrow> goto_thread i (L_return c' (fst q)) (s1\<lparr>lt_log := lt_log s @ [(c', fst q)]\<rparr>)))
      | L_have c' (remaining, current_ms) \<Rightarrow>
          (case c' of
             Call_checkpoint k p \<Rightarrow>
               let point' = (if p > remaining then remaining else p) in
               Some (goto_thread i (L_return c' point')
                       (s\<lparr>lt_cache := put_quota t1 k (remaining - point', current_ms) (lt_cache s), lt_clock := t1,
                         lt_log := lt_log s @ [(c', point')]\<rparr>))
           | _ \<Rightarrow> None)
      | L_return c' r \<Rightarrow>
          Some (goto_thread i L_idle (if c' = Call_reset then s else s\<lparr>lt_mutex := guard_dtor Multi_thread (lt_mutex s)\<rparr>)))"

definition sweep_step :: "int \<Rightarrow> limiter_threads \<Rightarrow> limiter_threads" where
  "sweep_step t s = s\<lparr>lt_cache := cache_prune (max t (lt_clock s)) (lt_cache s), lt_clock := max t (lt_clock s)\<rparr>"

inductive limiter_threads_step :: "rate_limit \<Rightarrow> limiter_threads \<Rightarrow> limiter_threads \<Rightarrow> bool" for l where
  lts_thread: "limiter_step l i t t' c s = Some s' \<Longrightarrow> limiter_threads_step l s s'"
| lts_sweep: "limiter_threads_step l s (sweep_step t s)"

text \<open>Points granted to a bucket, and resets, in a log.\<close>

fun log_granted :: "string \<Rightarrow> (rl_call \<times> u32) list \<Rightarrow> int" where
  "log_granted k [] = 0"
| "log_granted k ((Call_checkpoint k' p, g) # xs) = (if k' = k then uint g else 0) + log_granted k xs"
| "log_granted k ((_, g) # xs) = log_granted k xs"

definition log_resets :: "(rl_call \<times> u32) list \<Rightarrow> nat" where
  "log_resets xs = length (filter (\<lambda>x. fst x = Call_reset) xs)"

section \<open>The account of a bucket\<close>

text \<open>What was granted, less one bucket for every reset.\<close>

definition net_granted :: "rate_limit \<Rightarrow> string \<Rightarrow> limiter_threads \<Rightarrow> int" where
  "net_granted l k s = log_granted k (lt_log s) - uint (max_bucket l) * int (log_resets (lt_log s))"

definition bucket_account :: "rate_limit \<Rightarrow> string \<Rightarrow> int \<Rightarrow> int \<Rightarrow> limiter_threads \<Rightarrow> bool" where
  "bucket_account l k t0 now s \<longleftrightarrow>
     account (uint (max_bucket l)) (uint (rate l)) 100000 (lt_delay s - t0) now (net_granted l k s) (entry_of (lt_cache s) k)"

fun in_section :: "rl_thread \<Rightarrow> bool" where
  "in_section (L_enter c) \<longleftrightarrow> c \<noteq> Call_reset"
| "in_section (L_read c n) \<longleftrightarrow> True"
| "in_section (L_have c q) \<longleftrightarrow> True"
| "in_section (L_return c r) \<longleftrightarrow> c \<noteq> Call_reset"
| "in_section _ \<longleftrightarrow> False"

text \<open>What a thread in the middle of a call knows: its clock reading is not older than the stored quota, the quota it computed is covered.\<close>

fun thread_account :: "rate_limit \<Rightarrow> string \<Rightarrow> int \<Rightarrow> limiter_threads \<Rightarrow> rl_thread \<Rightarrow> bool" where
  "thread_account l k t0 s (L_lock c) \<longleftrightarrow> c \<noteq> Call_reset"
| "thread_account l k t0 s (L_read c n) \<longleftrightarrow>
     c \<noteq> Call_reset \<and> n \<le> lt_clock s \<and> (entry_of (lt_cache s) k \<noteq> None \<longrightarrow> bucket_account l k t0 n s)"
| "thread_account l k t0 s (L_have c q) \<longleftrightarrow>
     (\<exists>k' p. c = Call_checkpoint k' p \<and> (k' = k \<longrightarrow>
        (\<exists>T \<le> lt_clock s. covered (uint (max_bucket l)) (uint (rate l)) (lt_delay s - t0) (net_granted l k s) q T)))"
| "thread_account l k t0 s _ \<longleftrightarrow> True"

definition limiter_inv :: "rate_limit \<Rightarrow> string \<Rightarrow> int \<Rightarrow> limiter_threads \<Rightarrow> bool" where
  "limiter_inv l k t0 s \<longleftrightarrow>
     cache_inv quota_cfg (lt_clock s) (lt_cache s) \<and> t0 \<le> lt_clock s \<and> 0 \<le> lt_delay s \<and>
     (\<forall>i. in_section (lt_thread s i) \<longleftrightarrow> lt_mutex s = Some i) \<and>
     bucket_account l k t0 (lt_clock s) s \<and> (\<forall>i. thread_account l k t0 s (lt_thread s i))"

lemma log_granted_snoc: "log_granted k (xs @ [x]) = log_granted k xs + log_granted k [x]"
  by (induction k xs rule: log_granted.induct) simp_all

lemma log_resets_snoc: "log_resets (xs @ [x]) = log_resets xs + (if fst x = Call_reset then 1 else 0)"
  by (simp add: log_resets_def)

lemma outside_account: "\<not> in_section th \<Longrightarrow> thread_account l k t0 s th \<Longrightarrow> thread_account l k t0 s' th"
  by (cases th) simp_all

text \<open>The owner of the mutex takes a step: the other threads know nothing that could change.\<close>

lemma limiter_inv_owner:
  assumes "limiter_inv l k t0 s" and "lt_mutex s = Some i" and "lt_mutex s' = Some i" and "lt_thread s' = (lt_thread s)(i := th)"
    and "in_section th" and "thread_account l k t0 s' th" and "cache_inv quota_cfg (lt_clock s') (lt_cache s')"
    and "lt_clock s \<le> lt_clock s'" and "lt_delay s \<le> lt_delay s'" and "bucket_account l k t0 (lt_clock s') s'"
  shows "limiter_inv l k t0 s'"
proof -
  have "thread_account l k t0 s' (lt_thread s' j)" for j
    using assms outside_account [of "lt_thread s j" l k t0 s s'] by (cases "j = i") (auto simp: limiter_inv_def)
  then show ?thesis using assms by (auto simp: limiter_inv_def)
qed

lemma sweep_inv:
  assumes "limiter_inv l k t0 s" and "uint (max_bucket l) * 1000 \<le> uint (rate l) * 100000"
  shows "limiter_inv l k t0 (sweep_step t s)"
proof -
  let ?t = "max t (lt_clock s)" and ?s = "sweep_step t s"
  have inv: "cache_inv quota_cfg (lt_clock s) (lt_cache s)" using assms(1) by (simp add: limiter_inv_def)
  have e: "entry_of (lt_cache ?s) k = unexpired ?t (entry_of (lt_cache s) k)"
    using ql.sweep_entry [OF inv, of ?t k] by (simp add: sweep_step_def)
  have same: "net_granted l k ?s = net_granted l k s" "lt_delay ?s = lt_delay s" "lt_thread ?s = lt_thread s" "lt_clock ?s = ?t"
    "lt_mutex ?s = lt_mutex s" "lt_clock s \<le> lt_clock ?s" by (simp_all add: sweep_step_def net_granted_def)
  have "thread_account l k t0 ?s th" if "thread_account l k t0 s th" for th
  proof (cases th)
    case (L_read c n)
    have "bucket_account l k t0 n ?s" if "entry_of (lt_cache ?s) k \<noteq> None"
    proof -
      have "entry_of (lt_cache ?s) k = entry_of (lt_cache s) k" using that e by (metis option.exhaust surj_pair unexpired_SomeD)
      then show ?thesis using that \<open>thread_account l k t0 s th\<close> L_read same by (simp add: bucket_account_def)
    qed
    then show ?thesis using that L_read same by auto
  next
    case (L_have c q)
    then show ?thesis using that same by (auto simp: le_max_iff_disj)
  qed (use that in simp_all)
  moreover have "cache_inv quota_cfg ?t (lt_cache ?s)" using ql.invar_sweep [OF inv, of ?t] by (simp add: sweep_step_def)
  moreover have "bucket_account l k t0 ?t ?s"
    using account_expired [OF _ _ _ assms(2), of "lt_delay s - t0" "lt_clock s" "net_granted l k s" "entry_of (lt_cache s) k" ?t] assms(1)
    by (simp add: bucket_account_def limiter_inv_def e same)
  ultimately show ?thesis using assms(1) same by (simp add: limiter_inv_def le_max_iff_disj)
qed

text \<open>A reset gives a bucket anew: whoever has computed a quota before it may still store it.\<close>

lemma reset_inv:
  assumes "limiter_inv l k t0 s" and "lt_thread s i = L_enter Call_reset"
  shows "limiter_inv l k t0 (goto_thread i (L_return Call_reset 0)
    (s\<lparr>lt_cache := reset reset_store (lt_cache s), lt_log := lt_log s @ [(Call_reset, 0)]\<rparr>))" (is "limiter_inv l k t0 ?s")
proof -
  let ?B = "uint (max_bucket l)"
  have e: "entry_of (lt_cache ?s) k = None" using ql.wipe_entry by (simp add: goto_thread_def reset_def)
  have net: "net_granted l k ?s = net_granted l k s - ?B"
    by (simp add: net_granted_def goto_thread_def log_granted_snoc log_resets_snoc algebra_simps)
  have same: "lt_clock ?s = lt_clock s" "lt_delay ?s = lt_delay s" by (simp_all add: goto_thread_def)
  have less: "covered ?B (uint (rate l)) C (G - ?B) q T" if "covered ?B (uint (rate l)) C G q T" for C G q T
    using that uint_ge_0 [of "max_bucket l"] unfolding covered_def left_diff_distrib by linarith
  have "thread_account l k t0 ?s th" if "thread_account l k t0 s th" for th
    using that by (cases th) (auto simp: net e same intro: less)
  moreover have "bucket_account l k t0 (lt_clock ?s) ?s"
  proof -
    have acc: "bucket_account l k t0 (lt_clock s) s" using assms(1) by (simp add: limiter_inv_def)
    have "(net_granted l k s - ?B) * 1000 \<le> uint (rate l) * (lt_clock s + (lt_delay s - t0))"
    proof (cases "entry_of (lt_cache s) k")
      case None
      then have "net_granted l k s * 1000 \<le> uint (rate l) * (lt_clock s + (lt_delay s - t0))"
        using acc by (simp add: bucket_account_def account_def)
      then show ?thesis using uint_ge_0 [of "max_bucket l"] unfolding left_diff_distrib by linarith
    next
      case (Some dq)
      then obtain T where T: "T \<le> lt_clock s" "covered ?B (uint (rate l)) (lt_delay s - t0) (net_granted l k s) (snd dq) T"
        using acc by (auto simp: bucket_account_def account_def split: prod.splits)
      have "uint (rate l) * (T + (lt_delay s - t0)) \<le> uint (rate l) * (lt_clock s + (lt_delay s - t0))"
        using T(1) by (intro mult_left_mono) simp_all
      then show ?thesis using T(2) uint_ge_0 [of "fst (snd dq)"] unfolding covered_def left_diff_distrib by linarith
    qed
    then show ?thesis by (simp add: bucket_account_def account_def e net same)
  qed
  moreover have "cache_inv quota_cfg (lt_clock ?s) (lt_cache ?s)" using ql.invar_wipe by (simp add: goto_thread_def reset_def)
  moreover have thr: "in_section (lt_thread ?s j) = in_section (lt_thread s j)" "lt_mutex ?s = lt_mutex s"
    "lt_thread ?s j = (if j = i then L_return Call_reset 0 else lt_thread s j)" for j
    using assms(2) by (simp_all add: goto_thread_def)
  ultimately have "thread_account l k t0 ?s (lt_thread ?s j)" "bucket_account l k t0 (lt_clock s) ?s"
    "cache_inv quota_cfg (lt_clock s) (lt_cache ?s)" for j
    using assms(1) by (simp_all add: limiter_inv_def same)
  then show ?thesis using assms(1) unfolding limiter_inv_def same thr(1,2) by blast
qed

text \<open>The lookup of a call.\<close>

lemma lookup_account:
  assumes inv: "limiter_inv l k t0 s" and cap: "uint (max_bucket l) * 1000 \<le> uint (rate l) * 100000"
    and th: "lt_thread s i = L_read c n" and "lt_clock s \<le> t1" and "t1 \<le> t2"
    and ret: "get_remaining_int get_quota l n t1 t2 (call_hash c) (lt_cache s) = (q, cache)"
  defines "C \<equiv> lt_delay s + (t1 - n) - t0"
  shows "n \<le> t1" "cache_inv quota_cfg t2 cache"
    "account (uint (max_bucket l)) (uint (rate l)) 100000 C t2 (net_granted l k s) (entry_of cache k)"
    "call_hash c = k \<Longrightarrow> \<exists>T \<le> t2. covered (uint (max_bucket l)) (uint (rate l)) C (net_granted l k s) q T"
proof -
  have i: "cache_inv quota_cfg (lt_clock s) (lt_cache s)" and a: "bucket_account l k t0 (lt_clock s) s"
    and "thread_account l k t0 s (lt_thread s i)" using inv by (simp_all add: limiter_inv_def)
  then have n: "n \<le> lt_clock s" and st: "entry_of (lt_cache s) k \<noteq> None \<longrightarrow> bucket_account l k t0 n s" using th by auto
  then show le: "n \<le> t1" using assms(4) by simp
  have cache: "cache = snd (get_quota t1 t2 (call_hash c) (lt_cache s))"
    using ret ql.get_remaining_int_state [of l n t1 t2 "call_hash c" "lt_cache s"] by simp
  then show "cache_inv quota_cfg t2 cache" using ql.invar_fetch [OF i assms(4,5)] by simp
  have later: "account (uint (max_bucket l)) (uint (rate l)) 100000 C t2 (net_granted l k s) e"
    if "account (uint (max_bucket l)) (uint (rate l)) 100000 (lt_delay s - t0) t (net_granted l k s) e" "t \<le> t2" for t e
    using account_later [OF that, of C] le by (simp add: C_def)
  note between = ql.get_remaining_int_between [OF i assms(4) le assms(5) a [unfolded bucket_account_def] _ cap]
  have k: "(\<exists>T \<le> n. covered (uint (max_bucket l)) (uint (rate l)) C (net_granted l k s) q T) \<and>
      account (uint (max_bucket l)) (uint (rate l)) 100000 (lt_delay s - t0) t2 (net_granted l k s) (entry_of cache k)" if "call_hash c = k"
    using between [of q cache] st ret that by (simp add: bucket_account_def C_def algebra_simps)
  show "account (uint (max_bucket l)) (uint (rate l)) 100000 C t2 (net_granted l k s) (entry_of cache k)"
  proof (cases "call_hash c = k")
    case True
    then show ?thesis using later k by blast
  next
    case False
    then have "entry_of cache k = unexpired t1 (entry_of (lt_cache s) k)" using ql.fetch_other [OF i assms(4,5)] cache by simp
    then show ?thesis using later [OF account_expired [OF a [unfolded bucket_account_def] assms(4) _ cap]] assms(5) by simp
  qed
  show "\<exists>T \<le> t2. covered (uint (max_bucket l)) (uint (rate l)) C (net_granted l k s) q T" if "call_hash c = k"
    using k [OF that] le assms(5) by (meson order_trans)
qed

lemma lookup_inv:
  assumes inv: "limiter_inv l k t0 s" and cap: "uint (max_bucket l) * 1000 \<le> uint (rate l) * 100000"
    and th: "lt_thread s i = L_read c' n" and step: "limiter_step l i t t' c s = Some s'"
  shows "limiter_inv l k t0 s'"
proof -
  let ?t1 = "max t (lt_clock s)" and ?t2 = "max t' (max t (lt_clock s))"
  note inv' = inv [unfolded limiter_inv_def]
  have owner: "lt_mutex s = Some i" using inv' th by (metis in_section.simps(2))
  obtain q cache where ret: "get_remaining_int get_quota l n ?t1 ?t2 (call_hash c') (lt_cache s) = (q, cache)" by (rule prod.exhaust)
  note look = lookup_account [OF inv cap th _ _ ret]
  have nr: "c' \<noteq> Call_reset" using inv' th by (metis thread_account.simps(2))
  define th' where "th' = (case c' of Call_checkpoint k' p \<Rightarrow> L_have c' q | _ \<Rightarrow> L_return c' (fst q))"
  have fields: "lt_cache s' = cache" "lt_clock s' = ?t2" "lt_delay s' = lt_delay s + (?t1 - n)" "lt_mutex s' = lt_mutex s"
    "lt_thread s' = (lt_thread s)(i := th')" and net: "net_granted l k s' = net_granted l k s"
    using step th ret nr
    by (cases c'; auto simp: limiter_step_def Let_def goto_thread_def net_granted_def log_granted_snoc log_resets_snoc th'_def)+
  have th': "(\<exists>k' p. c' = Call_checkpoint k' p) \<and> th' = L_have c' q \<or> th' = L_return c' (fst q)"
    using nr by (cases c') (auto simp: th'_def)
  have "thread_account l k t0 s' th'" using th' look(4) by (auto simp: net fields algebra_simps)
  then show ?thesis using look(1-3) th' owner nr
    by (intro limiter_inv_owner [OF inv _ _ fields(5)]) (auto simp: bucket_account_def net fields algebra_simps)
qed

text \<open>The store of a checkpoint.\<close>

lemma store_inv:
  assumes inv: "limiter_inv l k t0 s" and th: "lt_thread s i = L_have c' q" and step: "limiter_step l i t t' c s = Some s'"
  shows "limiter_inv l k t0 s'"
proof -
  let ?t1 = "max t (lt_clock s)"
  note inv' = inv [unfolded limiter_inv_def]
  have owner: "lt_mutex s = Some i" using inv' th by (metis in_section.simps(3))
  obtain k' p where c': "c' = Call_checkpoint k' p" and cov: "k' = k \<longrightarrow>
      (\<exists>T \<le> lt_clock s. covered (uint (max_bucket l)) (uint (rate l)) (lt_delay s - t0) (net_granted l k s) q T)"
    using inv' th by (metis thread_account.simps(3))
  define g where "g = (if p > fst q then fst q else p)"
  have s': "s' = goto_thread i (L_return c' g) (s\<lparr>lt_cache := put_quota ?t1 k' (fst q - g, snd q) (lt_cache s), lt_clock := ?t1,
      lt_log := lt_log s @ [(c', g)]\<rparr>)"
    using step th c' by (cases q) (auto simp: limiter_step_def Let_def g_def)
  have net: "net_granted l k s' = net_granted l k s + (if k' = k then uint g else 0)"
    by (simp add: s' net_granted_def goto_thread_def log_granted_snoc log_resets_snoc c')
  have fields: "lt_cache s' = put_quota ?t1 k' (fst q - g, snd q) (lt_cache s)" "lt_delay s' = lt_delay s"
    by (simp_all add: s' goto_thread_def)
  have "bucket_account l k t0 ?t1 s'"
  proof (cases "k' = k")
    case True
    then obtain T where T: "T \<le> lt_clock s" "covered (uint (max_bucket l)) (uint (rate l)) (lt_delay s - t0) (net_granted l k s) q T"
      using cov by blast
    have "g \<le> fst q" by (auto simp: g_def)
    then have "uint (fst q - g) = uint (fst q) - uint g" by (simp add: uint_minus_simple_alt word_le_def)
    with T(2) have "covered (uint (max_bucket l)) (uint (rate l)) (lt_delay s - t0) (net_granted l k s') (fst q - g, snd q) T"
      using True by (simp add: covered_def net)
    moreover obtain d where "entry_of (lt_cache s') k = Some (d, fst q - g, snd q)" "?t1 + 100000 \<le> d"
      using ql.store_entry [of "lt_clock s" "lt_cache s" ?t1 k "(fst q - g, snd q)"] inv' True fields(1) by auto
    moreover have "T \<le> ?t1" using T(1) by simp
    ultimately show ?thesis unfolding bucket_account_def account_def fields(2) by (auto intro!: exI [of _ T])
  next
    case False
    then have "entry_of (lt_cache s') k = entry_of (lt_cache s) k"
      using ql.store_other [of "lt_clock s" "lt_cache s" ?t1 k k'] inv' fields(1) by simp
    then show ?thesis using account_later [of _ _ _ "lt_delay s - t0" "lt_clock s" _ _ ?t1] inv' False net fields(2)
      by (simp add: bucket_account_def)
  qed
  then show ?thesis using owner c' inv'
    by (intro limiter_inv_owner [OF inv, of i s' "L_return c' g"]) (auto simp: s' goto_thread_def intro: ql.invar_store)
qed

lemma step_inv:
  assumes inv: "limiter_inv l k t0 s" and cap: "uint (max_bucket l) * 1000 \<le> uint (rate l) * 100000"
    and step: "limiter_step l i t t' c s = Some s'"
  shows "limiter_inv l k t0 s'"
proof -
  note inv' = inv [unfolded limiter_inv_def]
  have other: "thread_account l k t0 s' th" if "thread_account l k t0 s th" "lt_cache s' = lt_cache s" "lt_log s' = lt_log s"
    "lt_delay s' = lt_delay s" "lt_clock s' = lt_clock s" for th
    using that by (cases th) (auto simp: bucket_account_def net_granted_def)
  have quiet: "limiter_inv l k t0 s'" if "lt_cache s' = lt_cache s" "lt_log s' = lt_log s"
    "lt_delay s' = lt_delay s" "lt_clock s' = lt_clock s" "lt_thread s' = (lt_thread s)(i := th)" "thread_account l k t0 s' th"
    "\<forall>j. in_section (lt_thread s' j) \<longleftrightarrow> lt_mutex s' = Some j" for th
    using inv' that other [OF _ that(1-4)] by (auto simp: limiter_inv_def bucket_account_def net_granted_def)
  show ?thesis
  proof (cases "lt_thread s i")
    case L_idle
    then have "lt_mutex s \<noteq> Some i" using inv' by (metis in_section.simps(5))
    then show ?thesis using step inv' L_idle
      by (intro quiet [of "if c = Call_reset then L_enter c else L_lock c"])
        (auto simp: limiter_step_def goto_thread_def Let_def split: if_splits)
  next
    case (L_lock c')
    then have "lt_mutex s = None" using step by (cases "lt_mutex s") (auto simp: limiter_step_def Let_def)
    moreover have "c' \<noteq> Call_reset" using inv' L_lock by (metis thread_account.simps(1))
    ultimately show ?thesis using step inv' L_lock
      by (intro quiet [of "L_enter c'"]) (auto simp: limiter_step_def goto_thread_def Let_def split: if_splits)
  next
    case (L_enter c')
    show ?thesis
    proof (cases "c' = Call_reset")
      case True
      then show ?thesis using reset_inv [OF inv, of i] L_enter step by (auto simp: limiter_step_def Let_def)
    next
      case False
      then have "lt_mutex s = Some i" using inv' L_enter by (metis in_section.simps(1))
      then show ?thesis using step L_enter inv' False
        by (intro limiter_inv_owner [OF inv, of i s' "L_read c' (max t (lt_clock s))"])
          (auto simp: limiter_step_def goto_thread_def Let_def bucket_account_def net_granted_def
            intro: cache_inv_later account_later)
    qed
  next
    case (L_read c' n)
    then show ?thesis using lookup_inv [OF inv cap _ step] by blast
  next
    case (L_have c' q)
    then show ?thesis using store_inv [OF inv _ step] by blast
  next
    case (L_return c' r)
    then have "lt_mutex s = Some i \<longleftrightarrow> c' \<noteq> Call_reset" using inv' by (metis in_section.simps(4))
    then show ?thesis using step inv' L_return
      by (intro quiet [of L_idle]) (auto simp: limiter_step_def goto_thread_def Let_def split: if_splits)
  qed
qed

lemma limiter_inv_run:
  assumes "(limiter_threads_step l)\<^sup>*\<^sup>* (limiter_init t0 memcache_ctor) s" and "uint (max_bucket l) * 1000 \<le> uint (rate l) * 100000"
  shows "limiter_inv l k t0 s"
  using assms(1)
proof (induction rule: rtranclp_induct)
  case base
  show ?case
    by (simp add: limiter_inv_def limiter_init_def bucket_account_def account_def net_granted_def log_resets_def entry_of_def memcache_ctor_def
        cache_inv_def segs_inv_def)
next
  case (step s s')
  then show ?case using step_inv [OF _ assms(2)] sweep_inv [OF _ assms(2)] by (auto elim: limiter_threads_step.cases)
qed

section \<open>Schedules\<close>

text \<open>Steps of threads in order: the thread, the clock readings, and the call an idle thread starts.\<close>

fun run_limiter :: "rate_limit \<Rightarrow> (nat \<times> int \<times> rl_call) list \<Rightarrow> limiter_threads \<Rightarrow> limiter_threads option" where
  "run_limiter l [] s = Some s"
| "run_limiter l ((i, t, c) # sch) s = Option.bind (limiter_step l i t t c s) (run_limiter l sch)"

lemma run_limiter_reaches: "run_limiter l sch s = Some s' \<Longrightarrow> (limiter_threads_step l)\<^sup>*\<^sup>* s s'"
  by (induction l sch s rule: run_limiter.induct)
    (auto simp: bind_eq_Some_conv intro: converse_rtranclp_into_rtranclp lts_thread)

text \<open>
  Two checkpoints of 8 and 9 points on a bucket of 10, the second waiting for the first. (The calls named after the first step of a thread
  are not started.)
\<close>

definition demo_limiter :: rate_limit where
  "demo_limiter = \<lparr>max_bucket = 10, rate = 30\<rparr>"

definition demo_calls :: "(nat \<times> int \<times> rl_call) list" where
  "demo_calls =
     [(0, 0, Call_checkpoint ''api'' 8), (1, 0, Call_checkpoint ''api'' 9), (0, 1, Call_reset), (0, 2, Call_reset), (0, 3, Call_reset),
      (0, 4, Call_reset), (0, 5, Call_reset), (1, 6, Call_reset), (1, 7, Call_reset), (1, 8, Call_reset), (1, 9, Call_reset), (1, 10, Call_reset)]"

lemma demo_calls_log:
  "map_option lt_log (run_limiter demo_limiter demo_calls (limiter_init 0 memcache_ctor)) =
     Some [(Call_checkpoint ''api'' 8, 8), (Call_checkpoint ''api'' 9, 2)]"
  by code_simp

text \<open>
  A reset that is lost: it runs while a checkpoint is between its lookup and its store, and a call after both finds the bucket empty.
\<close>

lemma reset_lost:
  "map_option lt_log (run_limiter demo_limiter
     [(0, 0, Call_checkpoint ''api'' 10), (0, 1, Call_reset), (0, 2, Call_reset), (0, 3, Call_reset),
      (1, 4, Call_reset), (1, 5, Call_reset), (1, 6, Call_reset), (0, 7, Call_reset), (0, 8, Call_reset),
      (2, 9, Call_get_remaining ''api''), (2, 10, Call_reset), (2, 11, Call_reset), (2, 12, Call_reset), (2, 13, Call_reset)]
     (limiter_init 0 memcache_ctor)) =
   Some [(Call_reset, 0), (Call_checkpoint ''api'' 10, 10), (Call_get_remaining ''api'', 0)]"
  by code_simp

section \<open>Properties\<close>



end
