(* ===== verification/Http_Static.thy ===== *)
theory Http_Static
  imports Asyik_Prelude
begin

text \<open>
  The static file handler of \<open>src/http_static.cpp\<close> (the POSIX branch). The operating system and
  the C date functions are the record \<open>os\<close>: \<open>realpath\<close>, \<open>stat\<close>, \<open>open\<close>, \<open>lseek\<close>, \<open>read\<close>,
  \<open>strptime\<close> with \<open>timegm\<close>, and \<open>gmtime_r\<close> with \<open>strftime\<close>. The request is its target and the
  lookup in its header fields (the empty string for a missing field), the response is a status, a
  body and header fields, updated in place by the handler as the code does.

  The handler is split into the stages its comments name: the sub-path, the resolution with the
  traversal guard, the conditional requests, the range and the full response.
\<close>

section \<open>Data\<close>

record static_file_config =
  enable_etag :: bool
  enable_last_modified :: bool
  enable_range :: bool
  cache_control :: string
  index_file :: string

definition default_config :: static_file_config where
  "default_config = \<lparr>enable_etag = True, enable_last_modified = True, enable_range = True,
     cache_control = ''public, max-age=3600'', index_file = ''index.html''\<rparr>"

record file_info =
  is_dir :: bool
  is_regular :: bool
  mtime :: int
  file_size :: int

record os =
  os_realpath :: "string \<Rightarrow> string option"
  os_stat :: "string \<Rightarrow> file_info option"
  os_open :: "string \<Rightarrow> bool"
  os_lseek :: "string \<Rightarrow> int \<Rightarrow> bool"
  os_read :: "string \<Rightarrow> int \<Rightarrow> nat \<Rightarrow> string option"
  os_strptime_gm :: "string \<Rightarrow> string \<Rightarrow> int option"
  os_gm_strftime :: "string \<Rightarrow> int \<Rightarrow> string"

record request =
  target :: string
  header :: "string \<Rightarrow> string"

record response =
  status :: nat
  body :: string
  headers :: "(string \<times> string) list"

section \<open>MIME types, entity tags, dates\<close>

definition mime_map :: "(string \<times> string) list" where
  "mime_map =
    [(''.html'', ''text/html; charset=utf-8''),
     (''.htm'', ''text/html; charset=utf-8''),
     (''.css'', ''text/css''),
     (''.js'', ''application/javascript''),
     (''.mjs'', ''application/javascript''),
     (''.json'', ''application/json''),
     (''.xml'', ''application/xml''),
     (''.txt'', ''text/plain; charset=utf-8''),
     (''.md'', ''text/plain; charset=utf-8''),
     (''.svg'', ''image/svg+xml''),
     (''.png'', ''image/png''),
     (''.jpg'', ''image/jpeg''),
     (''.jpeg'', ''image/jpeg''),
     (''.gif'', ''image/gif''),
     (''.webp'', ''image/webp''),
     (''.ico'', ''image/x-icon''),
     (''.bmp'', ''image/bmp''),
     (''.woff'', ''font/woff''),
     (''.woff2'', ''font/woff2''),
     (''.ttf'', ''font/ttf''),
     (''.otf'', ''font/otf''),
     (''.mp4'', ''video/mp4''),
     (''.webm'', ''video/webm''),
     (''.mp3'', ''audio/mpeg''),
     (''.wav'', ''audio/wav''),
     (''.ogg'', ''audio/ogg''),
     (''.pdf'', ''application/pdf''),
     (''.zip'', ''application/zip''),
     (''.gz'', ''application/gzip''),
     (''.wasm'', ''application/wasm'')]"

definition get_mime_type :: "string \<Rightarrow> string" where
  "get_mime_type ext =
     (case map_of mime_map ext of Some m \<Rightarrow> m | None \<Rightarrow> ''application/octet-stream'')"

text \<open>\<open>std::hex\<close> prints a \<open>long long\<close> as the 64-bit unsigned number with the same bits.\<close>

fun hex_nat :: "nat \<Rightarrow> string" where
  "hex_nat n = (if n < 16 then [hex_digit n] else hex_nat (n div 16) @ [hex_digit (n mod 16)])"

declare hex_nat.simps [simp del]

definition hex_ll :: "int \<Rightarrow> string" where
  "hex_ll v = hex_nat (nat (v mod 2 ^ 64))"

definition make_etag :: "int \<Rightarrow> int \<Rightarrow> string" where
  "make_etag mt sz = [CHR 0x22] @ hex_ll mt @ ''-'' @ hex_ll sz @ [CHR 0x22]"

definition format_http_date :: "'x os_scheme \<Rightarrow> int \<Rightarrow> string" where
  "format_http_date sys t = os_gm_strftime sys ''%a, %d %b %Y %H:%M:%S GMT'' t"

definition parse_http_date :: "'x os_scheme \<Rightarrow> string \<Rightarrow> int" where
  "parse_http_date sys s =
     (case os_strptime_gm sys s ''%a, %d %b %Y %H:%M:%S GMT'' of
        Some t \<Rightarrow> t
      | None \<Rightarrow>
          (case os_strptime_gm sys s ''%A, %d-%b-%y %H:%M:%S GMT'' of
             Some t \<Rightarrow> t
           | None \<Rightarrow>
               (case os_strptime_gm sys s ''%a %b %e %H:%M:%S %Y'' of
                  Some t \<Rightarrow> t
                | None \<Rightarrow> - 1)))"

section \<open>Percent decoding\<close>

definition hex_val :: "char \<Rightarrow> nat option" where
  "hex_val c =
     (let n = of_char c in
      if 48 \<le> n \<and> n \<le> 57 then Some (n - 48)
      else if 65 \<le> n \<and> n \<le> 70 then Some (n - 55)
      else if 97 \<le> n \<and> n \<le> 102 then Some (n - 87)
      else None)"

fun percent_decode :: "string \<Rightarrow> string" where
  "percent_decode (c # a # b # s) =
     (if c = CHR ''%'' \<and> hex_val a \<noteq> None \<and> hex_val b \<noteq> None
      then char_of (16 * the (hex_val a) + the (hex_val b)) # percent_decode s
      else c # percent_decode (a # b # s))"
| "percent_decode [c, a] = [c, a]"
| "percent_decode [c] = [c]"
| "percent_decode [] = []"

section \<open>Files\<close>

definition resolve_path :: "'x os_scheme \<Rightarrow> string \<Rightarrow> string option" where
  "resolve_path sys path = os_realpath sys path"

definition stat_path :: "'x os_scheme \<Rightarrow> string \<Rightarrow> file_info option" where
  "stat_path sys path = os_stat sys path"

text \<open>
  The loop of \<open>read_range\<close> after the seek: \<open>rd pos n\<close> is one \<open>read\<close> of at most \<open>n\<close> bytes at the
  file position, \<open>None\<close> an error; reading nothing is the end of the file.
\<close>

function read_loop :: "(int \<Rightarrow> nat \<Rightarrow> string option) \<Rightarrow> int \<Rightarrow> nat \<Rightarrow> string option" where
  "read_loop rd pos remaining =
     (if remaining = 0 then Some []
      else case rd pos remaining of
             None \<Rightarrow> None
           | Some bs \<Rightarrow>
               if bs = [] then None
               else map_option (\<lambda>rest. bs @ rest)
                      (read_loop rd (pos + int (length bs)) (remaining - length bs)))"
  by pat_completeness auto
termination
  by (relation "measure (\<lambda>(rd, pos, remaining). remaining)") (auto simp: neq_Nil_conv)

declare read_loop.simps [simp del]

definition read_range :: "(int \<Rightarrow> bool) \<Rightarrow> (int \<Rightarrow> nat \<Rightarrow> string option) \<Rightarrow> int \<Rightarrow> nat \<Rightarrow> string option" where
  "read_range seek rd offset len = (if \<not> seek offset then None else read_loop rd offset len)"

definition read_file_range :: "'x os_scheme \<Rightarrow> string \<Rightarrow> int \<Rightarrow> nat \<Rightarrow> string option" where
  "read_file_range sys path offset len =
     (if \<not> os_open sys path then None
      else read_range (os_lseek sys path) (os_read sys path) offset len)"

section \<open>The handler\<close>

definition erase_from :: "char \<Rightarrow> string \<Rightarrow> string" where
  "erase_from c s = (case str_find c s of Some p \<Rightarrow> take p s | None \<Rightarrow> s)"

definition fail :: "nat \<Rightarrow> string \<Rightarrow> response \<Rightarrow> response" where
  "fail code msg r = r\<lparr>status := code, body := msg\<rparr>"

definition set_field :: "string \<Rightarrow> string \<Rightarrow> response \<Rightarrow> response" where
  "set_field k v r = r\<lparr>headers := map_assign k v (headers r)\<rparr>"

text \<open>Stage 1 and 2: the decoded sub-path.\<close>

definition sub_target :: "string \<Rightarrow> string \<Rightarrow> string" where
  "sub_target url_prefix tgt =
     (let t1 = erase_from (CHR ''#'') (erase_from (CHR ''?'') tgt);
          t2 = (if starts_with t1 url_prefix then drop (length url_prefix) t1 else t1);
          t3 = (if t2 = [] then ''/'' else t2)
      in percent_decode t3)"

definition full_path_of :: "string \<Rightarrow> string \<Rightarrow> string" where
  "full_path_of canonical_root t =
     canonical_root @ (if t \<noteq> [] \<and> hd t = CHR ''/'' then tl t else t)"

text \<open>Stage 3: the traversal guard.\<close>

definition inside :: "string \<Rightarrow> string \<Rightarrow> bool" where
  "inside canonical_root real_path \<longleftrightarrow>
     starts_with real_path canonical_root \<or>
     real_path = take (length canonical_root - 1) canonical_root"

text \<open>Stage 5: a directory stands for its index file.\<close>

definition index_of ::
  "'x os_scheme \<Rightarrow> static_file_config \<Rightarrow> string \<Rightarrow> string \<Rightarrow> (nat \<times> string) + (string \<times> file_info)"
where
  "index_of sys cfg canonical_root real_path =
     (let p = (if ends_with (CHR ''/'') real_path then real_path else real_path @ ''/'') @ index_file cfg in
      case resolve_path sys p of
        None \<Rightarrow> Inl (404, ''Not Found'')
      | Some resolved2 \<Rightarrow>
          if \<not> starts_with resolved2 canonical_root then Inl (403, ''Forbidden'')
          else (case stat_path sys resolved2 of
                  None \<Rightarrow> Inl (404, ''Not Found'')
                | Some st \<Rightarrow> if is_dir st then Inl (403, ''Forbidden'') else Inr (resolved2, st)))"

definition locate ::
  "'x os_scheme \<Rightarrow> static_file_config \<Rightarrow> string \<Rightarrow> string \<Rightarrow> (nat \<times> string) + (string \<times> file_info)"
where
  "locate sys cfg canonical_root full_path =
     (case resolve_path sys full_path of
        None \<Rightarrow> Inl (404, ''Not Found'')
      | Some real_path \<Rightarrow>
          if \<not> inside canonical_root real_path then Inl (403, ''Forbidden'')
          else
            (case stat_path sys real_path of
               None \<Rightarrow> Inl (404, ''Not Found'')
             | Some st \<Rightarrow>
                 (case (if is_dir st then index_of sys cfg canonical_root real_path
                        else Inr (real_path, st)) of
                    Inl e \<Rightarrow> Inl e
                  | Inr (p, st') \<Rightarrow>
                      if \<not> is_regular st' then Inl (403, ''Forbidden'') else Inr (p, st'))))"

text \<open>Stage 6: conditional requests; \<open>None\<close> when the request goes on.\<close>

definition not_modified ::
  "'x os_scheme \<Rightarrow> static_file_config \<Rightarrow> request \<Rightarrow> file_info \<Rightarrow> response \<Rightarrow> response option"
where
  "not_modified sys cfg req st r =
     (let etag_val = make_etag (mtime st) (file_size st);
          last_modified_val = format_http_date sys (mtime st);
          inm = header req ''If-None-Match'';
          ims_str = header req ''If-Modified-Since'';
          ims = parse_http_date sys ims_str
      in if enable_etag cfg \<and> inm \<noteq> [] \<and> (inm = etag_val \<or> inm = ''*'') then
           Some (set_field ''Cache-Control'' (cache_control cfg) (set_field ''ETag'' etag_val (r\<lparr>status := 304\<rparr>)))
         else if enable_last_modified cfg \<and> ims_str \<noteq> [] \<and> ims \<noteq> - 1 \<and> mtime st \<le> ims then
           Some (set_field ''Cache-Control'' (cache_control cfg)
                   (set_field ''Last-Modified'' last_modified_val (r\<lparr>status := 304\<rparr>)))
         else None)"

definition ext_of :: "string \<Rightarrow> string" where
  "ext_of real_path =
     (case str_rfind (CHR ''.'') real_path of
        None \<Rightarrow> []
      | Some dot \<Rightarrow>
          (case str_rfind (CHR ''/'') real_path of
             None \<Rightarrow> drop dot real_path
           | Some slash \<Rightarrow> if dot > slash then drop dot real_path else []))"

text \<open>
  \<open>std::stoll\<close>: leading white space, a sign, then the longest run of digits; \<open>None\<close> when there is
  none (\<open>invalid_argument\<close>) or the value does not fit in 64 bits (\<open>out_of_range\<close>).
\<close>

definition stoll :: "string \<Rightarrow> int option" where
  "stoll s =
     (case int_prefix s of
        None \<Rightarrow> None
      | Some v \<Rightarrow> if v < - (2 ^ 63) \<or> 2 ^ 63 - 1 < v then None else Some v)"

text \<open>Stage 7: the byte range of a \<open>Range\<close> field; \<open>None\<close> when there is no valid one.\<close>

definition byte_range :: "int \<Rightarrow> string \<Rightarrow> (int \<times> int) option" where
  "byte_range fsize range_hdr =
     (if range_hdr \<noteq> [] \<and> starts_with range_hdr ''bytes='' then
        (let spec = drop 6 range_hdr in
         case str_find (CHR ''-'') spec of
           None \<Rightarrow> None
         | Some dash \<Rightarrow>
             (let s_start = take dash spec; s_end = drop (dash + 1) spec in
              if s_start = [] then
                (case stoll s_end of
                   None \<Rightarrow> None
                 | Some n \<Rightarrow>
                     if n > 0 then Some (if n \<ge> fsize then 0 else fsize - n, fsize - 1) else None)
              else
                (case stoll s_start of
                   None \<Rightarrow> None
                 | Some range_start \<Rightarrow>
                     (case (if s_end = [] then Some (fsize - 1) else stoll s_end) of
                        None \<Rightarrow> None
                      | Some range_end \<Rightarrow>
                          if range_start \<ge> 0 \<and> range_end < fsize \<and> range_start \<le> range_end
                          then Some (range_start, range_end) else None))))
      else None)"

definition validators ::
  "'x os_scheme \<Rightarrow> static_file_config \<Rightarrow> file_info \<Rightarrow> response \<Rightarrow> response"
where
  "validators sys cfg st r =
     (let r1 = set_field ''Accept-Ranges'' ''bytes'' r;
          r2 = (if enable_etag cfg then set_field ''ETag'' (make_etag (mtime st) (file_size st)) r1 else r1);
          r3 = (if enable_last_modified cfg
                then set_field ''Last-Modified'' (format_http_date sys (mtime st)) r2 else r2)
      in set_field ''Cache-Control'' (cache_control cfg) r3)"

definition range_response ::
  "'x os_scheme \<Rightarrow> static_file_config \<Rightarrow> string \<Rightarrow> file_info \<Rightarrow> int \<times> int \<Rightarrow> response \<Rightarrow> response"
where
  "range_response sys cfg real_path st rng r =
     (case rng of (range_start, range_end) \<Rightarrow>
        (case read_file_range sys real_path range_start (nat (range_end - range_start + 1)) of
           None \<Rightarrow> fail 500 ''Internal Server Error'' r
         | Some bs \<Rightarrow>
             validators sys cfg st
               (set_field ''Content-Range''
                  (''bytes '' @ to_string range_start @ ''-'' @ to_string range_end @ ''/'' @ to_string (file_size st))
               (set_field ''Content-Type'' (get_mime_type (ext_of real_path))
               (r\<lparr>status := 206, body := bs\<rparr>)))))"

text \<open>Stages 8 and 9.\<close>

definition full_response ::
  "'x os_scheme \<Rightarrow> static_file_config \<Rightarrow> string \<Rightarrow> file_info \<Rightarrow> response \<Rightarrow> response"
where
  "full_response sys cfg real_path st r =
     (case (if file_size st > 0 then read_file_range sys real_path 0 (nat (file_size st)) else Some []) of
        None \<Rightarrow> fail 500 ''Internal Server Error'' r
      | Some bs \<Rightarrow>
          validators sys cfg st
            (set_field ''Content-Type'' (get_mime_type (ext_of real_path)) (r\<lparr>status := 200, body := bs\<rparr>)))"

definition static_handler ::
  "'x os_scheme \<Rightarrow> static_file_config \<Rightarrow> string \<Rightarrow> string \<Rightarrow> request \<Rightarrow> response \<Rightarrow> response"
where
  "static_handler sys cfg url_prefix canonical_root req r =
     (let t = sub_target url_prefix (target req) in
      if CHR 0x00 \<in> set t then fail 400 ''Bad Request'' r
      else
        (case locate sys cfg canonical_root (full_path_of canonical_root t) of
           Inl (code, msg) \<Rightarrow> fail code msg r
         | Inr (real_path, st) \<Rightarrow>
             (case not_modified sys cfg req st r of
                Some r' \<Rightarrow> r'
              | None \<Rightarrow>
                  (case (if enable_range cfg \<and> file_size st > 0
                         then byte_range (file_size st) (header req ''Range'') else None) of
                     Some rng \<Rightarrow> range_response sys cfg real_path st rng r
                   | None \<Rightarrow> full_response sys cfg real_path st r))))"

text \<open>
  The factory resolves the root once, when the handler is registered; \<open>reg\<close> is the state of the
  operating system then.
\<close>

definition make_static_file_handler ::
  "'x os_scheme \<Rightarrow> string \<Rightarrow> string \<Rightarrow> static_file_config \<Rightarrow> 'y os_scheme \<Rightarrow> request \<Rightarrow> response \<Rightarrow> response"
where
  "make_static_file_handler reg url_prefix root_dir cfg =
     (case resolve_path reg root_dir of
        None \<Rightarrow> (\<lambda>sys req r. fail 404 ''Not Found'' r)
      | Some root \<Rightarrow>
          (let canonical_root = (if ends_with (CHR ''/'') root then root else root @ ''/'');
               prefix = (if ends_with (CHR ''/'') url_prefix then butlast url_prefix else url_prefix)
           in (\<lambda>sys req r. static_handler sys cfg prefix canonical_root req r)))"

section \<open>Numbers as text\<close>

lemma hex_digit_val: "d < 16 \<Longrightarrow> hex_val (hex_digit d) = Some d \<and> hex_digit d \<noteq> CHR ''-'' \<and> hex_digit d \<noteq> CHR 0x22"
proof -
  assume "d < 16"
  then have "d \<in> set [0..<16]" by simp
  moreover have "\<forall>d \<in> set [0..<16]. hex_val (hex_digit d) = Some d \<and> hex_digit d \<noteq> CHR ''-'' \<and> hex_digit d \<noteq> CHR 0x22"
    by code_simp
  ultimately show ?thesis by blast
qed

definition hex_num :: "string \<Rightarrow> nat" where
  "hex_num s = foldl (\<lambda>acc c. acc * 16 + the (hex_val c)) 0 s"

lemma hex_nat_num: "hex_num (hex_nat n) = n \<and> CHR ''-'' \<notin> set (hex_nat n)"
proof (induction n rule: hex_nat.induct)
  case (1 n)
  show ?case
  proof (cases "n < 16")
    case True
    then show ?thesis using hex_digit_val [of n] by (subst (1 2) hex_nat.simps) (auto simp: hex_num_def)
  next
    case False
    then have rec: "hex_nat n = hex_nat (n div 16) @ [hex_digit (n mod 16)]" by (subst hex_nat.simps) simp
    with 1 False hex_digit_val [of "n mod 16"] show ?thesis by (auto simp: hex_num_def)
  qed
qed

lemma hex_ll_inj: "hex_ll v = hex_ll v' \<longleftrightarrow> v mod 2 ^ 64 = v' mod 2 ^ 64"
proof
  assume "hex_ll v = hex_ll v'"
  then have "hex_num (hex_ll v) = hex_num (hex_ll v')" by (rule arg_cong)
  then have "nat (v mod 2 ^ 64) = nat (v' mod 2 ^ 64)"
    by (simp only: hex_ll_def hex_nat_num [THEN conjunct1])
  moreover have "0 \<le> v mod 2 ^ 64" "0 \<le> v' mod 2 ^ 64" by simp_all
  ultimately show "v mod 2 ^ 64 = v' mod 2 ^ 64" by (simp only: eq_nat_nat_iff)
qed (simp add: hex_ll_def)

lemma ll_mod_inj:
  fixes x y :: int
  assumes "x \<in> {- (2 ^ 63) ..< 2 ^ 63}" and "y \<in> {- (2 ^ 63) ..< 2 ^ 63}"
  shows "x mod 2 ^ 64 = y mod 2 ^ 64 \<longleftrightarrow> x = y"
proof
  assume "x mod 2 ^ 64 = y mod 2 ^ 64"
  then have "(x + 2 ^ 63) mod 2 ^ 64 = (y + 2 ^ 63) mod 2 ^ 64" by (intro mod_add_cong) simp_all
  moreover have "(v + 2 ^ 63) mod 2 ^ 64 = v + 2 ^ 63" if "v \<in> {- (2 ^ 63) ..< 2 ^ 63}" for v :: int
    using that by (intro mod_pos_pos_trivial) simp_all
  ultimately show "x = y" using assms by simp
qed simp

lemma append_sep_inject:
  "c \<notin> set xs \<Longrightarrow> c \<notin> set xs' \<Longrightarrow> xs @ c # ys = xs' @ c # ys' \<longleftrightarrow> xs = xs' \<and> ys = ys'"
proof (induction xs arbitrary: xs')
  case Nil
  then show ?case by (cases xs') auto
next
  case (Cons x xs)
  then show ?case by (cases xs') auto
qed

lemma make_etag_eq:
  "make_etag m z = make_etag m' z' \<longleftrightarrow> m mod 2 ^ 64 = m' mod 2 ^ 64 \<and> z mod 2 ^ 64 = z' mod 2 ^ 64"
proof -
  have "CHR ''-'' \<notin> set (hex_ll v)" for v unfolding hex_ll_def by (rule hex_nat_num [THEN conjunct2])
  then show ?thesis by (simp add: make_etag_def append_sep_inject hex_ll_inj)
qed

lemma digits_val_snoc: "digits_val (ds @ [c]) = digits_val ds * 10 + (of_char c - 48)"
  by (simp add: digits_val_def)

lemma dec_digit: "d < 10 \<Longrightarrow> isdigit (char_of (48 + d)) \<and> (of_char (char_of (48 + d) :: char) :: int) = 48 + int d"
proof -
  assume d: "d < 10"
  have n: "(of_char (char_of (48 + d) :: char) :: nat) = 48 + d" using d by simp
  have "(of_char (char_of (48 + d) :: char) :: int) = int (of_char (char_of (48 + d) :: char))"
    by (rule of_nat_of_char [symmetric])
  also have "\<dots> = 48 + int d" unfolding n by simp
  finally show ?thesis using d by (simp add: isdigit_def)
qed

lemma dec_nat_val: "digits_val (dec_nat n) = int n \<and> list_all isdigit (dec_nat n) \<and> dec_nat n \<noteq> []"
proof (induction n rule: dec_nat.induct)
  case (1 n)
  show ?case
  proof (cases "n < 10")
    case True
    then have "dec_nat n = [] @ [char_of (48 + n)]" by (subst dec_nat.simps) simp
    then show ?thesis using dec_digit [OF True] by (simp only: digits_val_snoc) (simp add: digits_val_def)
  next
    case False
    then have rec: "dec_nat n = dec_nat (n div 10) @ [char_of (48 + n mod 10)]" by (subst dec_nat.simps) simp
    have "int n = int (n div 10) * 10 + int (n mod 10)" by presburger
    with 1 False dec_digit [of "n mod 10"] show ?thesis unfolding rec digits_val_snoc by simp
  qed
qed

lemma stoll_to_string:
  assumes "0 \<le> v" and "v < 2 ^ 63" and "rest = [] \<or> \<not> isdigit (hd rest)"
  shows "stoll (to_string v @ rest) = Some v"
proof -
  let ?ds = "dec_nat (nat v)"
  obtain c cs where ds: "?ds = c # cs" using dec_nat_val [of "nat v"] by (cases ?ds) auto
  have all: "list_all isdigit ?ds" "digits_val ?ds = v" using dec_nat_val [of "nat v"] assms(1) by simp_all
  then have c: "isdigit c" using ds by simp
  then have "\<not> isspace c" "c \<noteq> CHR ''-''" "c \<noteq> CHR ''+''" by (auto simp: isdigit_def isspace_def)
  moreover have "takeWhile isdigit (?ds @ rest) = ?ds"
    using all(1) assms(3) by (cases rest) (auto simp: list_all_iff takeWhile_tail)
  ultimately show ?thesis
    using assms(1,2) all(2) ds by (simp add: to_string_def stoll_def int_prefix_def)
qed

lemma to_string_no_dash: "0 \<le> v \<Longrightarrow> CHR ''-'' \<notin> set (to_string v) \<and> to_string v \<noteq> []"
  using dec_nat_val [of "nat v"] by (auto simp: to_string_def list_all_iff isdigit_def)

section \<open>Percent encoding\<close>

text \<open>Any encoder that escapes at least the percent sign, and writes the escapes in lower case.\<close>

definition percent_encode :: "(char \<Rightarrow> bool) \<Rightarrow> string \<Rightarrow> string" where
  "percent_encode safe s =
     concat (map (\<lambda>c. if safe c then [c]
                    else [CHR ''%'', hex_digit (of_char c div 16), hex_digit (of_char c mod 16)]) s)"

lemma percent_decode_plain: "c \<noteq> CHR ''%'' \<Longrightarrow> percent_decode (c # s) = c # percent_decode s"
  by (cases "(c # s)" rule: percent_decode.cases) auto

lemma percent_decode_escape:
  "percent_decode (CHR ''%'' # hex_digit (of_char c div 16) # hex_digit (of_char c mod 16) # s) = c # percent_decode s"
proof -
  have "(of_char c :: nat) = of_char c mod 256" by simp
  then have "(of_char c :: nat) < 256" by (metis mod_less_divisor zero_less_numeral)
  then have "(of_char c :: nat) div 16 < 16" by (intro less_mult_imp_div_less) simp
  then have h: "hex_val (hex_digit (of_char c div 16)) = Some (of_char c div 16)"
    "hex_val (hex_digit (of_char c mod 16)) = Some (of_char c mod 16)"
    using hex_digit_val [of "of_char c div 16"] hex_digit_val [of "of_char c mod 16"] by simp_all
  have "16 * (of_char c div 16) + of_char c mod 16 = (of_char c :: nat)" by simp
  then show ?thesis using h by simp
qed

lemma percent_decode_encode:
  assumes "\<not> safe (CHR ''%'')"
  shows "percent_decode (percent_encode safe s) = s"
proof (induction s)
  case (Cons c s)
  then show ?case
    using assms percent_decode_plain [of c "percent_encode safe s"] percent_decode_escape [of c "percent_encode safe s"]
    by (auto simp: percent_encode_def simp del: percent_decode.simps)
qed (simp add: percent_encode_def)

section \<open>Reading\<close>

text \<open>
  The file at a path has the given content: it opens, it seeks, and a \<open>read\<close> before the end
  returns some of the bytes at the position, possibly fewer than asked for.
\<close>

definition serves :: "'x os_scheme \<Rightarrow> string \<Rightarrow> string \<Rightarrow> bool" where
  "serves sys p content \<longleftrightarrow>
     os_open sys p \<and> (\<forall>off \<ge> 0. os_lseek sys p off) \<and>
     (\<forall>pos n. 0 \<le> pos \<and> pos < int (length content) \<and> 0 < n \<longrightarrow>
        (\<exists>k. 0 < k \<and> k \<le> n \<and> os_read sys p pos n = Some (take k (drop (nat pos) content))))"

definition slice :: "int \<Rightarrow> nat \<Rightarrow> string \<Rightarrow> string" where
  "slice off len content = take len (drop (nat off) content)"

lemma read_loop_exact:
  assumes "serves sys p content"
  shows "0 \<le> pos \<Longrightarrow> pos + int n \<le> int (length content) \<Longrightarrow>
    read_loop (os_read sys p) pos n = Some (slice pos n content)"
proof (induction n arbitrary: pos rule: less_induct)
  case (less n)
  show ?case
  proof (cases "n = 0")
    case True
    then show ?thesis by (subst read_loop.simps) (simp add: slice_def)
  next
    case False
    have "pos < int (length content)" "0 < n" using less.prems False by simp_all
    then obtain k where k: "0 < k" "k \<le> n" and rd: "os_read sys p pos n = Some (take k (drop (nat pos) content))"
      using assms less.prems(1) unfolding serves_def by blast
    define bs where "bs = take k (drop (nat pos) content)"
    have len: "length bs = k" using k less.prems by (simp add: bs_def)
    then have ne: "bs \<noteq> []" using k by auto
    have "read_loop (os_read sys p) pos n =
        map_option (\<lambda>rest. bs @ rest) (read_loop (os_read sys p) (pos + int k) (n - k))"
      using rd False ne unfolding bs_def [symmetric] by (subst read_loop.simps) (simp add: len)
    also have "read_loop (os_read sys p) (pos + int k) (n - k) = Some (slice (pos + int k) (n - k) content)"
      using less.IH [of "n - k" "pos + int k"] k less.prems by simp
    finally have "read_loop (os_read sys p) pos n = Some (bs @ slice (pos + int k) (n - k) content)" by simp
    moreover have eq: "nat (pos + int k) = k + nat pos" using less.prems(1) by (simp add: nat_add_distrib)
    have "slice (pos + int k) (n - k) content = take (n - k) (drop k (drop (nat pos) content))"
      by (simp only: slice_def drop_drop eq)
    moreover have "take n (drop (nat pos) content) = bs @ take (n - k) (drop k (drop (nat pos) content))"
      using take_add [of k "n - k" "drop (nat pos) content"] k(2) unfolding bs_def by simp
    ultimately show ?thesis by (simp only: slice_def)
  qed
qed

lemma read_file_range_exact:
  assumes "serves sys p content" and "0 \<le> off" and "off + int n \<le> int (length content)"
  shows "read_file_range sys p off n = Some (slice off n content)"
  using read_loop_exact [OF assms] assms(1,2)
  by (simp add: read_file_range_def read_range_def serves_def)

section \<open>Ranges\<close>

lemma byte_range_bounds:
  "byte_range fsize h = Some (a, b) \<Longrightarrow> 0 < fsize \<Longrightarrow> 0 \<le> a \<and> a \<le> b \<and> b < fsize"
  by (auto simp: byte_range_def Let_def split: if_splits option.splits)

lemma starts_with_bytes: "starts_with (''bytes='' @ s) ''bytes=''"
  by (rule starts_with_append)

lemma byte_range_split:
  assumes "CHR ''-'' \<notin> set s"
  shows "byte_range fsize (''bytes='' @ s @ ''-'' @ e) =
    (if s = [] then
       (case stoll e of None \<Rightarrow> None
        | Some n \<Rightarrow> if n > 0 then Some (if n \<ge> fsize then 0 else fsize - n, fsize - 1) else None)
     else
       (case stoll s of None \<Rightarrow> None
        | Some a \<Rightarrow>
            (case (if e = [] then Some (fsize - 1) else stoll e) of None \<Rightarrow> None
             | Some b \<Rightarrow> if a \<ge> 0 \<and> b < fsize \<and> a \<le> b then Some (a, b) else None)))"
proof -
  have "str_find (CHR ''-'') (s @ CHR ''-'' # e) = Some (length s)" using assms by (rule str_find_append)
  then show ?thesis
    using starts_with_bytes [of "s @ ''-'' @ e"]
    unfolding byte_range_def by (simp add: Let_def)
qed

section \<open>The response\<close>

lemma validators_simps [simp]:
  "status (validators sys cfg st r) = status r" "body (validators sys cfg st r) = body r"
  "status (set_field k v r) = status r" "body (set_field k v r) = body r"
  by (simp_all add: validators_def set_field_def Let_def)

lemma map_of_set_field: "map_of (headers (set_field k v r)) = (map_of (headers r))(k \<mapsto> v)"
  by (simp add: set_field_def map_of_map_assign)

lemma validators_other:
  "k \<notin> {''Accept-Ranges'', ''ETag'', ''Last-Modified'', ''Cache-Control''} \<Longrightarrow>
     map_of (headers (validators sys cfg st r)) k = map_of (headers r) k"
  by (simp add: validators_def Let_def map_of_set_field)

lemma range_response_content:
  assumes "serves sys p content" and "file_size st = int (length content)"
    and "0 \<le> a" "a \<le> b" "b < file_size st" and r': "r' = range_response sys cfg p st (a, b) r"
  shows "status r' = 206" and "body r' = slice a (nat (b - a + 1)) content"
    and "map_of (headers r') ''Content-Range'' =
      Some (''bytes '' @ to_string a @ ''-'' @ to_string b @ ''/'' @ to_string (file_size st))"
proof -
  have rd: "read_file_range sys p a (nat (b - a + 1)) = Some (slice a (nat (b - a + 1)) content)"
    using read_file_range_exact [OF assms(1,3), of "nat (b - a + 1)"] assms(2,4,5) by simp
  show "status r' = 206" "body r' = slice a (nat (b - a + 1)) content"
    unfolding r' range_response_def using rd by simp_all
  show "map_of (headers r') ''Content-Range'' =
      Some (''bytes '' @ to_string a @ ''-'' @ to_string b @ ''/'' @ to_string (file_size st))"
    unfolding r' range_response_def using rd by (simp add: validators_other map_of_set_field)
qed

lemma full_response_content:
  assumes "serves sys p content" and "file_size st = int (length content)"
  shows "status (full_response sys cfg p st r) = 200" and "body (full_response sys cfg p st r) = content"
proof -
  have "(if file_size st > 0 then read_file_range sys p 0 (nat (file_size st)) else Some []) = Some content"
    using read_file_range_exact [OF assms(1), of 0 "length content"] assms(2) by (auto simp: slice_def)
  then show "status (full_response sys cfg p st r) = 200" "body (full_response sys cfg p st r) = content"
    unfolding full_response_def by simp_all
qed

section \<open>Confinement\<close>

text \<open>
  Two states of the operating system that resolve paths alike and agree on every file inside the
  root; outside the root their files may differ in any way.
\<close>

definition agree_inside :: "string \<Rightarrow> 'x os_scheme \<Rightarrow> 'y os_scheme \<Rightarrow> bool" where
  "agree_inside root sys sys' \<longleftrightarrow>
     os_realpath sys = os_realpath sys' \<and> os_strptime_gm sys = os_strptime_gm sys' \<and>
     os_gm_strftime sys = os_gm_strftime sys' \<and>
     (\<forall>p. inside root p \<longrightarrow> os_stat sys p = os_stat sys' p \<and> os_open sys p = os_open sys' p \<and>
        os_lseek sys p = os_lseek sys' p \<and> os_read sys p = os_read sys' p)"

lemma locate_inside: "locate sys cfg root q = Inr (p, st) \<Longrightarrow> inside root p"
  by (auto simp: locate_def index_of_def inside_def Let_def split: option.splits if_splits sum.splits)

lemma locate_agree: "agree_inside root sys sys' \<Longrightarrow> locate sys cfg root q = locate sys' cfg root q"
proof -
  assume a: "agree_inside root sys sys'"
  have "inside root p \<Longrightarrow> index_of sys cfg root p = index_of sys' cfg root p" for p
    using a by (auto simp: index_of_def agree_inside_def resolve_path_def stat_path_def inside_def
        split: option.split)
  with a show ?thesis
    by (auto simp: locate_def agree_inside_def resolve_path_def stat_path_def split: option.split)
qed

lemma read_agree:
  "agree_inside root sys sys' \<Longrightarrow> inside root p \<Longrightarrow> read_file_range sys p off n = read_file_range sys' p off n"
  by (simp add: agree_inside_def read_file_range_def)

lemma dates_agree:
  assumes "agree_inside root sys sys'"
  shows "format_http_date sys = format_http_date sys'" "parse_http_date sys = parse_http_date sys'"
    "validators sys = validators sys'" "not_modified sys = not_modified sys'"
proof -
  have e: "os_strptime_gm sys = os_strptime_gm sys'" "os_gm_strftime sys = os_gm_strftime sys'"
    using assms by (simp_all add: agree_inside_def)
  show d: "format_http_date sys = format_http_date sys'" "parse_http_date sys = parse_http_date sys'"
    by (intro ext, simp only: format_http_date_def parse_http_date_def e)+
  show "validators sys = validators sys'" "not_modified sys = not_modified sys'"
    by (intro ext, simp only: validators_def not_modified_def d)+
qed

lemma static_handler_agree:
  assumes "agree_inside root sys sys'"
  shows "static_handler sys cfg pre root req r = static_handler sys' cfg pre root req r"
proof -
  note d = dates_agree [OF assms] and rd = read_agree [OF assms]
  have "inside root p \<Longrightarrow> range_response sys cfg p st rng r = range_response sys' cfg p st rng r" for p st rng
    unfolding range_response_def d by (cases rng) (simp add: rd)
  moreover have "inside root p \<Longrightarrow> full_response sys cfg p st r = full_response sys' cfg p st r" for p st
    unfolding full_response_def d by (simp add: rd)
  ultimately show ?thesis
    using locate_inside [of sys' cfg root]
    unfolding static_handler_def locate_agree [OF assms] d
    by (auto simp: Let_def split: sum.splits option.splits)
qed

section \<open>Properties\<close>

text \<open>A system for examples: every path is a regular file of three bytes, read two bytes at a time.\<close>

definition demo_os :: "string \<Rightarrow> os" where
  "demo_os secret =
     \<lparr>os_realpath = (\<lambda>p. if p = ''/w/../s'' then Some ''/s'' else Some p),
      os_stat = (\<lambda>p. Some \<lparr>is_dir = False, is_regular = True, mtime = 1, file_size = 3\<rparr>),
      os_open = (\<lambda>p. True), os_lseek = (\<lambda>p off. True),
      os_read = (\<lambda>p pos n. Some (take (min n 2) (drop (nat pos) (if p = ''/s'' then secret else ''abc'')))),
      os_strptime_gm = (\<lambda>s f. None), os_gm_strftime = (\<lambda>f t. ''date'')\<rparr>"





text \<open>
  Range requests: \<open>bytes=A-B\<close>, \<open>bytes=A-\<close> and \<open>bytes=-N\<close> with decimal numbers select the bytes
  \<open>A\<close> to \<open>B\<close>, from \<open>A\<close> to the end, and the last \<open>N\<close> (all of them when the file is shorter).
\<close>

lemma byte_range_forms:
  assumes "0 < fsize" and "fsize < 2 ^ 63" and "0 \<le> a" and "a \<le> b" and "b < fsize" and "0 < n" and "n < 2 ^ 63"
  shows "byte_range fsize (''bytes='' @ to_string a @ ''-'' @ to_string b) = Some (a, b) \<and>
    byte_range fsize (''bytes='' @ to_string a @ ''-'') = Some (a, fsize - 1) \<and>
    byte_range fsize (''bytes=-'' @ to_string n) = Some (max 0 (fsize - n), fsize - 1)"
proof -
  have num: "stoll (to_string v) = Some v" if "0 \<le> v" "v < 2 ^ 63" for v
    using stoll_to_string [OF that, of "[]"] by simp
  note dash = to_string_no_dash [OF assms(3)]
  have "byte_range fsize (''bytes='' @ to_string a @ ''-'' @ to_string b) = Some (a, b)"
    using assms dash to_string_no_dash [of b] by (subst byte_range_split) (simp_all add: num)
  moreover have "byte_range fsize (''bytes='' @ to_string a @ ''-'' @ []) = Some (a, fsize - 1)"
    using assms dash by (subst byte_range_split) (simp_all add: num)
  moreover have "byte_range fsize (''bytes='' @ [] @ ''-'' @ to_string n) = Some (max 0 (fsize - n), fsize - 1)"
    using assms by (subst byte_range_split) (simp_all add: num max_def)
  ultimately show ?thesis by simp
qed

text \<open>
  A cached copy is revalidated exactly while the file is unchanged: with an entity tag made for
  modification time \<open>m\<close> and size \<open>z\<close> in \<open>If-None-Match\<close> and no \<open>If-Modified-Since\<close>, the conditional
  stage answers 304 if and only if the file still has that time and size, and the response body is
  left alone.
\<close>

lemma etag_revalidates:
  assumes "enable_etag cfg" and "header req ''If-None-Match'' = make_etag m z"
    and "header req ''If-Modified-Since'' = []"
    and "{m, mtime st, z, file_size st} \<subseteq> {- (2 ^ 63) ..< 2 ^ 63}"
  shows "(not_modified sys cfg req st r \<noteq> None \<longleftrightarrow> mtime st = m \<and> file_size st = z) \<and>
    (\<forall>r'. not_modified sys cfg req st r = Some r' \<longrightarrow> status r' = 304 \<and> body r' = body r)"
proof -
  have "make_etag m z = make_etag (mtime st) (file_size st) \<longleftrightarrow> mtime st = m \<and> file_size st = z"
    using assms(4) ll_mod_inj unfolding make_etag_eq by blast
  moreover have "make_etag m z \<noteq> []" "make_etag m z \<noteq> ''*''" by (simp_all add: make_etag_def)
  ultimately show ?thesis using assms(1-3) by (simp add: not_modified_def Let_def set_field_def)
qed

text \<open>
  Percent decoding inverts percent encoding, for every encoder that escapes at least the percent
  sign.
\<close>

lemma percent_decode_roundtrip:
  assumes "\<not> safe (CHR ''%'')"
  shows "percent_decode (percent_encode safe s) = s"
  using assms by (rule percent_decode_encode)

end
