(* ===== verification/Std_Regex.thy ===== *)
theory Std_Regex
  imports Asyik_Prelude
begin

text \<open>
  The fragment of \<open>std::regex\<close> (ECMAScript grammar) that the patterns built by the library fall
  into: literal and escaped characters, character classes with ranges, \<open>*\<close>, \<open>+\<close> and \<open>?\<close> on a
  character or a class, \<open>?\<close> on a group, capturing groups, alternatives, \<open>^\<close> and \<open>$\<close>. A pattern
  string is parsed into a syntax tree, and a backtracking matcher lists the ways a pattern matches
  in the order ECMAScript tries them, so that \<open>regex_search\<close> takes the first. \<open>rx_compile\<close> is
  \<open>None\<close> for a pattern outside the fragment.
\<close>

section \<open>Syntax\<close>

datatype cls_item = Cchar char | Crange char char | Cspace | Cdigit

datatype re =
    REmpty
  | RBegin
  | REnd
  | RCls bool "cls_item list"
  | RStar bool "cls_item list"
  | RPlus bool "cls_item list"
  | ROpt re
  | RSeq re re
  | RAlt re re
  | RGroup nat re

fun item_match :: "char \<Rightarrow> cls_item \<Rightarrow> bool" where
  "item_match c (Cchar a) = (c = a)"
| "item_match c (Crange a b) = ((of_char a :: nat) \<le> of_char c \<and> (of_char c :: nat) \<le> of_char b)"
| "item_match c Cspace = isspace c"
| "item_match c Cdigit = isdigit c"

definition cls_match :: "bool \<Rightarrow> cls_item list \<Rightarrow> char \<Rightarrow> bool" where
  "cls_match neg items c \<longleftrightarrow> (list_ex (item_match c) items \<noteq> neg)"

section \<open>Parsing\<close>

text \<open>
  An open group: its number, the finished alternatives and the terms of the current one, both in
  reverse.
\<close>

type_synonym frame = "nat \<times> re list \<times> re list"

definition seq_of :: "re list \<Rightarrow> re" where
  "seq_of ts = foldr RSeq ts REmpty"

fun alt_of :: "re list \<Rightarrow> re" where
  "alt_of [] = REmpty"
| "alt_of [r] = r"
| "alt_of (r # rs) = RAlt r (alt_of rs)"

definition close_frame :: "frame \<Rightarrow> re" where
  "close_frame f = (case f of (i, alts, ts) \<Rightarrow> alt_of (rev (seq_of (rev ts) # alts)))"

fun push_term :: "re \<Rightarrow> frame list \<Rightarrow> frame list" where
  "push_term r [] = []"
| "push_term r ((i, alts, ts) # st) = (i, alts, r # ts) # st"

text \<open>A quantifier applies to the last term.\<close>

fun quantify :: "char \<Rightarrow> re \<Rightarrow> re option" where
  "quantify q (RCls n is) =
     (if q = CHR ''*'' then Some (RStar n is)
      else if q = CHR ''+'' then Some (RPlus n is)
      else Some (ROpt (RCls n is)))"
| "quantify q (RGroup i r) = (if q = CHR ''?'' then Some (ROpt (RGroup i r)) else None)"
| "quantify q r = None"

definition escape_item :: "char \<Rightarrow> cls_item option" where
  "escape_item c =
     (if c = CHR ''s'' then Some Cspace
      else if c = CHR ''d'' then Some Cdigit
      else if isalnum c then None
      else Some (Cchar c))"

text \<open>
  The parser reads the pattern once, left to right: \<open>g\<close> is the number of groups opened, \<open>m\<close> the
  character class being read (its negation and its items so far), \<open>st\<close> the open groups.
\<close>

fun rx_parse :: "nat \<Rightarrow> (bool \<times> cls_item list) option \<Rightarrow> frame list \<Rightarrow> string \<Rightarrow> re option" where
  "rx_parse g m st [] = (case (m, st) of (None, [f]) \<Rightarrow> Some (close_frame f) | _ \<Rightarrow> None)"
| "rx_parse g (Some (neg, is)) st (c # s) =
     (if c = CHR '']'' then rx_parse g None (push_term (RCls neg is) st) s
      else if c = CHR 0x5C then
        (case s of [] \<Rightarrow> None
         | d # s' \<Rightarrow> (case escape_item d of None \<Rightarrow> None
                     | Some i \<Rightarrow> rx_parse g (Some (neg, is @ [i])) st s'))
      else (case s of
              d # b # s' \<Rightarrow>
                (if d = CHR ''-'' \<and> b \<noteq> CHR '']'' then
                   (if b = CHR 0x5C then None else rx_parse g (Some (neg, is @ [Crange c b])) st s')
                 else rx_parse g (Some (neg, is @ [Cchar c])) st s)
            | _ \<Rightarrow> rx_parse g (Some (neg, is @ [Cchar c])) st s))"
| "rx_parse g None st (c # s) =
     (if c = CHR 0x5C then
        (case s of [] \<Rightarrow> None
         | d # s' \<Rightarrow> (case escape_item d of None \<Rightarrow> None
                     | Some i \<Rightarrow> rx_parse g None (push_term (RCls False [i]) st) s'))
      else if c = CHR ''['' then
        (case s of
           CHR ''^'' # s' \<Rightarrow> rx_parse g (Some (True, [])) st s'
         | _ \<Rightarrow> rx_parse g (Some (False, [])) st s)
      else if c = CHR ''('' then
        (case s of
           CHR ''?'' # s' \<Rightarrow> None
         | _ \<Rightarrow> rx_parse (Suc g) None ((Suc g, [], []) # st) s)
      else if c = CHR '')'' then
        (case st of
           f # f' # st' \<Rightarrow> rx_parse g None (push_term (RGroup (fst f) (close_frame f)) (f' # st')) s
         | _ \<Rightarrow> None)
      else if c = CHR ''|'' then
        (case st of
           (i, alts, ts) # st' \<Rightarrow> rx_parse g None ((i, seq_of (rev ts) # alts, []) # st') s
         | [] \<Rightarrow> None)
      else if c = CHR ''*'' \<or> c = CHR ''+'' \<or> c = CHR ''?'' then
        (case st of
           (i, alts, t # ts) # st' \<Rightarrow>
             (case quantify c t of None \<Rightarrow> None | Some t' \<Rightarrow> rx_parse g None ((i, alts, t' # ts) # st') s)
         | _ \<Rightarrow> None)
      else if c = CHR ''^'' then rx_parse g None (push_term RBegin st) s
      else if c = CHR ''$'' then rx_parse g None (push_term REnd st) s
      else if c = CHR ''.'' then rx_parse g None (push_term (RCls True [Cchar (CHR 0x0A), Cchar (CHR 0x0D)]) st) s
      else if c = CHR ''{'' then None
      else rx_parse g None (push_term (RCls False [Cchar c]) st) s)"

definition rx_compile :: "string \<Rightarrow> re option" where
  "rx_compile p = rx_parse 0 None [(0, [], [])] p"

section \<open>Matching\<close>

text \<open>
  A position in the subject: the number of characters before it, the characters from it on, and
  the captures so far, the latest first.
\<close>

type_synonym pos = "nat \<times> string \<times> (nat \<times> string) list"

fun rx_step :: "bool \<Rightarrow> cls_item list \<Rightarrow> pos \<Rightarrow> pos list" where
  "rx_step n is (k, [], cs) = []"
| "rx_step n is (k, c # s, cs) = (if cls_match n is c then [(Suc k, s, cs)] else [])"

text \<open>Greedy repetition: the longest run first.\<close>

fun rx_star :: "bool \<Rightarrow> cls_item list \<Rightarrow> nat \<Rightarrow> string \<Rightarrow> (nat \<times> string) list \<Rightarrow> pos list" where
  "rx_star n is k [] cs = [(k, [], cs)]"
| "rx_star n is k (c # s) cs = (if cls_match n is c then rx_star n is (Suc k) s cs else []) @ [(k, c # s, cs)]"

fun rx_match :: "re \<Rightarrow> pos \<Rightarrow> pos list" where
  "rx_match REmpty p = [p]"
| "rx_match RBegin p = (if fst p = 0 then [p] else [])"
| "rx_match REnd p = (if fst (snd p) = [] then [p] else [])"
| "rx_match (RCls n is) p = rx_step n is p"
| "rx_match (RStar n is) p = (case p of (k, s, cs) \<Rightarrow> rx_star n is k s cs)"
| "rx_match (RPlus n is) p =
     concat (map (\<lambda>(k, s, cs). rx_star n is k s cs) (rx_step n is p))"
| "rx_match (ROpt r) p = filter (\<lambda>q. fst q \<noteq> fst p) (rx_match r p) @ [p]"
| "rx_match (RSeq a b) p = concat (map (rx_match b) (rx_match a p))"
| "rx_match (RAlt a b) p = rx_match a p @ rx_match b p"
| "rx_match (RGroup i r) p =
     map (\<lambda>(k, s, cs). (k, s, (i, take (k - fst p) (fst (snd p))) # cs)) (rx_match r p)"

fun rx_groups :: "re \<Rightarrow> nat" where
  "rx_groups (ROpt r) = rx_groups r"
| "rx_groups (RSeq a b) = rx_groups a + rx_groups b"
| "rx_groups (RAlt a b) = rx_groups a + rx_groups b"
| "rx_groups (RGroup i r) = Suc (rx_groups r)"
| "rx_groups _ = 0"

text \<open>
  The \<open>smatch\<close> of a match: the text matched, then the text of each group, empty for a group that
  took no part.
\<close>

definition smatch_of :: "re \<Rightarrow> nat \<Rightarrow> string \<Rightarrow> pos \<Rightarrow> string list" where
  "smatch_of r k s q =
     (case q of (k', s', cs) \<Rightarrow>
        take (k' - k) s # map (\<lambda>i. case map_of cs i of None \<Rightarrow> [] | Some x \<Rightarrow> x) [1..<Suc (rx_groups r)])"

fun rx_search_from :: "re \<Rightarrow> nat \<Rightarrow> string \<Rightarrow> string list option" where
  "rx_search_from r k s =
     (case rx_match r (k, s, []) of
        q # _ \<Rightarrow> Some (smatch_of r k s q)
      | [] \<Rightarrow> (case s of [] \<Rightarrow> None | c # s' \<Rightarrow> rx_search_from r (Suc k) s'))"

declare rx_search_from.simps [simp del]

definition rx_search :: "string \<Rightarrow> re \<Rightarrow> string list option" where
  "rx_search s r = rx_search_from r 0 s"

section \<open>What a match means\<close>

text \<open>The collection \<open>rx_sem\<close> describes the matches of each construct as a set.\<close>

named_theorems rx_sem \<open>the matches of a pattern as a set\<close>

lemma rx_star_sem [rx_sem]:
  "q \<in> set (rx_star n is k s cs) \<longleftrightarrow>
     (\<exists>x s'. s = x @ s' \<and> list_all (cls_match n is) x \<and> q = (k + length x, s', cs))"
proof (induction n "is" k s cs rule: rx_star.induct)
  case (2 n "is" k c s cs)
  show ?case
  proof
    assume "q \<in> set (rx_star n is k (c # s) cs)"
    then consider "q = (k, c # s, cs)" | "cls_match n is c" "q \<in> set (rx_star n is (Suc k) s cs)"
      by (auto split: if_splits)
    then show "\<exists>x s'. c # s = x @ s' \<and> list_all (cls_match n is) x \<and> q = (k + length x, s', cs)"
    proof cases
      case 1
      then show ?thesis by (simp add: exI [of _ "[]"])
    next
      case c: 2
      then obtain x s' where "s = x @ s'" "list_all (cls_match n is) x" "q = (Suc k + length x, s', cs)"
        using 2 by blast
      then show ?thesis using c(1) by (intro exI [of _ "c # x"] exI [of _ s']) simp
    qed
  next
    assume "\<exists>x s'. c # s = x @ s' \<and> list_all (cls_match n is) x \<and> q = (k + length x, s', cs)"
    then obtain x s' where x: "c # s = x @ s'" "list_all (cls_match n is) x" "q = (k + length x, s', cs)"
      by blast
    show "q \<in> set (rx_star n is k (c # s) cs)"
    proof (cases x)
      case (Cons d y)
      with x have "cls_match n is c" "s = y @ s'" "list_all (cls_match n is) y"
        "q = (Suc k + length y, s', cs)" by simp_all
      then have "q \<in> set (rx_star n is (Suc k) s cs)" using 2 by blast
      with \<open>cls_match n is c\<close> show ?thesis by simp
    qed (use x in auto)
  qed
qed simp

lemma rx_step_sem [rx_sem]:
  "q \<in> set (rx_step n is (k, s, cs)) \<longleftrightarrow> (\<exists>c s'. s = c # s' \<and> cls_match n is c \<and> q = (Suc k, s', cs))"
  by (cases s) auto

lemma rx_plus_sem [rx_sem]:
  "q \<in> set (rx_match (RPlus n is) (k, s, cs)) \<longleftrightarrow>
     (\<exists>x s'. s = x @ s' \<and> x \<noteq> [] \<and> list_all (cls_match n is) x \<and> q = (k + length x, s', cs))"
proof
  assume "q \<in> set (rx_match (RPlus n is) (k, s, cs))"
  then obtain c s1 where "s = c # s1" "cls_match n is c" "q \<in> set (rx_star n is (Suc k) s1 cs)"
    by (cases s) (auto split: if_splits)
  moreover from this obtain x s' where "s1 = x @ s'" "list_all (cls_match n is) x"
    "q = (Suc k + length x, s', cs)" unfolding rx_star_sem by blast
  ultimately show "\<exists>x s'. s = x @ s' \<and> x \<noteq> [] \<and> list_all (cls_match n is) x \<and> q = (k + length x, s', cs)"
    by (intro exI [of _ "c # x"] exI [of _ s']) simp
next
  assume "\<exists>x s'. s = x @ s' \<and> x \<noteq> [] \<and> list_all (cls_match n is) x \<and> q = (k + length x, s', cs)"
  then obtain c y s' where "s = c # y @ s'" "cls_match n is c" "list_all (cls_match n is) y"
    "q = (Suc k + length y, s', cs)" by (auto simp: neq_Nil_conv)
  then show "q \<in> set (rx_match (RPlus n is) (k, s, cs))" by (auto simp: rx_star_sem)
qed

lemma rx_group_sem [rx_sem]:
  "q \<in> set (rx_match (RGroup i r) (k, s, cs)) \<longleftrightarrow>
     (\<exists>k' s' cs'. (k', s', cs') \<in> set (rx_match r (k, s, cs)) \<and> q = (k', s', (i, take (k' - k) s) # cs'))"
  by (force simp: image_iff)

lemma rx_seq_sem:
  "q \<in> set (rx_match (RSeq a b) p) \<longleftrightarrow> (\<exists>p'. p' \<in> set (rx_match a p) \<and> q \<in> set (rx_match b p'))"
  by auto

lemma seq_of_simps [simp]: "seq_of [] = REmpty" "seq_of (r # rs) = RSeq r (seq_of rs)"
  by (simp_all add: seq_of_def)

text \<open>An anchored pattern only matches at the start of the subject.\<close>

lemma rx_search_from_anchored: "0 < k \<Longrightarrow> rx_search_from (RSeq RBegin r) k s = None"
proof (induction s arbitrary: k)
  case Nil
  then show ?case by (subst rx_search_from.simps) simp
next
  case (Cons c s)
  then show ?case by (subst rx_search_from.simps) simp
qed

lemma rx_search_anchored:
  "rx_search s (RSeq RBegin r) =
     (case rx_match r (0, s, []) of q # _ \<Rightarrow> Some (smatch_of (RSeq RBegin r) 0 s q) | [] \<Rightarrow> None)"
proof -
  have "s = c # s' \<Longrightarrow> rx_search_from (RSeq RBegin r) (Suc 0) s' = None" for c s'
    by (simp add: rx_search_from_anchored del: rx_search_from.simps)
  then show ?thesis
    unfolding rx_search_def by (subst rx_search_from.simps) (auto split: list.splits)
qed

end
