(* ===== verification/Route_Spec.thy ===== *)
theory Route_Spec
  imports Std_Regex
begin

text \<open>
  Route specifications (\<open>src/http_common.cpp\<close>): \<open>route_spec_to_regex\<close> turns a specification such
  as \<open>/api/<int>/items\<close> into an ECMAScript pattern by escaping, replacing the tags and adding
  anchors, an optional trailing slash and an optional query. \<open>regex_replace\<close> is modelled on the
  strings; the logged warning about raw patterns has no effect on the result.
\<close>

section \<open>Building the pattern\<close>

definition specialChars :: string where
  "specialChars = ''-[]{}/()*+?.,^$|#''"

definition escape_specials :: "string \<Rightarrow> string" where
  "escape_specials s = concat (map (\<lambda>c. if c \<in> set specialChars then [CHR 0x5C, c] else [c]) s)"

text \<open>A match of \<open><\s*name\s*>\<close> at the start of the string: what follows it.\<close>

definition match_tag :: "string \<Rightarrow> string \<Rightarrow> string option" where
  "match_tag name s =
     (case s of
        c # s1 \<Rightarrow>
          (let s2 = dropWhile isspace s1 in
           if c = CHR ''<'' \<and> starts_with s2 name then
             (case dropWhile isspace (drop (length name) s2) of
                d # s4 \<Rightarrow> if d = CHR ''>'' then Some s4 else None
              | [] \<Rightarrow> None)
           else None)
      | [] \<Rightarrow> None)"

lemma match_tag_shorter:
  assumes "match_tag name s = Some s'"
  shows "length s' < length s"
proof (cases s)
  case (Cons c s1)
  define u where "u = drop (length name) (dropWhile isspace s1)"
  have u: "length (dropWhile isspace u) \<le> length s1"
    using length_dropWhile_le [of isspace u] length_dropWhile_le [of isspace s1] by (simp add: u_def)
  have "(case dropWhile isspace u of d # s4 \<Rightarrow> if d = CHR ''>'' then Some s4 else None | [] \<Rightarrow> None) = Some s'"
    using assms unfolding Cons match_tag_def Let_def list.case u_def by (metis option.distinct(1))
  then obtain d where "dropWhile isspace u = d # s'"
    by (cases "dropWhile isspace u") (simp_all split: if_splits)
  with u Cons show ?thesis by simp
qed (use assms in \<open>simp add: match_tag_def\<close>)

function replace_tag :: "string \<Rightarrow> string \<Rightarrow> string \<Rightarrow> string" where
  "replace_tag name rep [] = []"
| "replace_tag name rep (c # s) =
     (case match_tag name (c # s) of
        Some s' \<Rightarrow> rep @ replace_tag name rep s'
      | None \<Rightarrow> c # replace_tag name rep s)"
  by pat_completeness auto
termination
  by (relation "measure (\<lambda>(n, r, s). length s)") (auto dest: match_tag_shorter)

text \<open>
  The four steps. On an empty specification the code reads \<open>regex_spec[regex_spec.length() - 1]\<close>
  out of range; that undefined behaviour is \<open>None\<close>.
\<close>

definition route_spec_to_regex :: "string \<Rightarrow> string option" where
  "route_spec_to_regex route_spc =
     (if route_spc = [] then None
      else
        (let s1 = (if last route_spc = CHR ''/'' then butlast route_spc else route_spc);
             s2 = escape_specials s1;
             s3 = replace_tag ''int'' ''([0-9]+)'' s2;
             s4 = replace_tag ''string'' (''([^'' @ [CHR 0x5C] @ ''/'' @ [CHR 0x5C] @ ''?'' @ [CHR 0x5C] @ ''s]+)'') s3;
             s5 = replace_tag ''path'' (''([^?#'' @ [CHR 0x5C] @ ''s]*)'') s4
         in Some (''^'' @ s5 @ [CHR 0x5C] @ ''/?(|'' @ [CHR 0x5C] @ ''?[^'' @ [CHR 0x5C] @ ''?'' @ [CHR 0x5C] @ ''s]*)$'')))"

section \<open>Specifications\<close>

text \<open>
  What a specification means, without regular expressions: a list of literal characters and tags.
  A tag may have spaces inside its brackets.
\<close>

datatype tag = Tag_int | Tag_string | Tag_path

datatype seg = Lit char | Tag tag string string

fun tag_name :: "tag \<Rightarrow> string" where
  "tag_name Tag_int = ''int''"
| "tag_name Tag_string = ''string''"
| "tag_name Tag_path = ''path''"

fun seg_text :: "seg \<Rightarrow> string" where
  "seg_text (Lit c) = [c]"
| "seg_text (Tag t v w) = CHR ''<'' # v @ tag_name t @ w @ ''>''"

fun wf_seg :: "seg \<Rightarrow> bool" where
  "wf_seg (Lit c) = (c \<noteq> CHR ''<'' \<and> c \<noteq> CHR 0x5C)"
| "wf_seg (Tag t v w) = (list_all isspace v \<and> list_all isspace w)"

definition spec_text :: "seg list \<Rightarrow> string" where
  "spec_text sg = concat (map seg_text sg)"

definition trim_spec :: "seg list \<Rightarrow> seg list" where
  "trim_spec sg = (if sg \<noteq> [] \<and> last sg = Lit (CHR ''/'') then butlast sg else sg)"

text \<open>The text a segment accepts.\<close>

fun seg_accepts :: "seg \<Rightarrow> string \<Rightarrow> bool" where
  "seg_accepts (Lit c) x = (x = [c])"
| "seg_accepts (Tag Tag_int v w) x = (x \<noteq> [] \<and> list_all isdigit x)"
| "seg_accepts (Tag Tag_string v w) x =
     (x \<noteq> [] \<and> list_all (\<lambda>c. c \<noteq> CHR ''/'' \<and> c \<noteq> CHR ''?'' \<and> \<not> isspace c) x)"
| "seg_accepts (Tag Tag_path v w) x =
     list_all (\<lambda>c. c \<noteq> CHR ''?'' \<and> c \<noteq> CHR ''#'' \<and> \<not> isspace c) x"

definition query_ok :: "string \<Rightarrow> bool" where
  "query_ok q \<longleftrightarrow> q = [] \<or>
     (hd q = CHR ''?'' \<and> list_all (\<lambda>c. c \<noteq> CHR ''?'' \<and> \<not> isspace c) (tl q))"

fun is_tag :: "seg \<Rightarrow> bool" where
  "is_tag (Lit c) = False"
| "is_tag (Tag t v w) = True"

text \<open>The pieces that stand for tags.\<close>

definition tag_pieces :: "seg list \<Rightarrow> string list \<Rightarrow> string list" where
  "tag_pieces sg xs = map snd (filter (is_tag \<circ> fst) (zip sg xs))"

section \<open>The pattern of a specification\<close>

fun tag_pattern :: "tag \<Rightarrow> string" where
  "tag_pattern Tag_int = ''([0-9]+)''"
| "tag_pattern Tag_string = ''([^'' @ [CHR 0x5C] @ ''/'' @ [CHR 0x5C] @ ''?'' @ [CHR 0x5C] @ ''s]+)''"
| "tag_pattern Tag_path = ''([^?#'' @ [CHR 0x5C] @ ''s]*)''"

text \<open>The text of a segment when the tags in \<open>D\<close> have been replaced.\<close>

fun emit :: "tag set \<Rightarrow> seg \<Rightarrow> string" where
  "emit D (Lit c) = (if c \<in> set specialChars then [CHR 0x5C, c] else [c])"
| "emit D (Tag t v w) = (if t \<in> D then tag_pattern t else seg_text (Tag t v w))"

definition emits :: "tag set \<Rightarrow> seg list \<Rightarrow> string" where
  "emits D sg = concat (map (emit D) sg)"

lemma emits_simps [simp]: "emits D [] = []" "emits D (g # sg) = emit D g @ emits D sg"
  by (simp_all add: emits_def)

lemma space_not_special: "isspace c \<Longrightarrow> c \<notin> set specialChars \<and> c \<noteq> CHR ''>'' \<and> c \<noteq> CHR ''<''"
  by (auto simp: isspace_def specialChars_def)

lemma escape_append: "escape_specials (s @ t) = escape_specials s @ escape_specials t"
  by (simp add: escape_specials_def)

lemma escape_spaces: "list_all isspace v \<Longrightarrow> escape_specials v = v"
  by (induction v) (auto simp: escape_specials_def dest: space_not_special)

lemma escape_seg: "wf_seg g \<Longrightarrow> escape_specials (seg_text g) = emit {} g"
proof (cases g)
  case (Tag t v w)
  assume "wf_seg g"
  with Tag have v: "escape_specials v = v" "escape_specials w = w" by (simp_all add: escape_spaces)
  have "escape_specials (tag_name t) = tag_name t"
    by (cases t) (simp_all add: escape_specials_def specialChars_def)
  moreover have "escape_specials ''>'' = ''>''" "escape_specials ''<'' = ''<''"
    by (simp_all add: escape_specials_def specialChars_def)
  ultimately show ?thesis
    using Tag v escape_append [of "''<''"] by (simp add: escape_append)
qed (simp add: escape_specials_def)

lemma escape_spec: "list_all wf_seg sg \<Longrightarrow> escape_specials (spec_text sg) = emits {} sg"
  by (induction sg) (simp_all add: spec_text_def escape_append escape_seg, simp add: escape_specials_def)

lemma dropWhile_spaces: "list_all isspace v \<Longrightarrow> \<not> isspace c \<Longrightarrow> dropWhile isspace (v @ c # s) = c # s"
  by (induction v) auto

lemma match_tag_hit:
  assumes "list_all isspace v" "list_all isspace w"
  shows "match_tag (tag_name t) (CHR ''<'' # v @ tag_name t @ w @ CHR ''>'' # s) = Some s"
proof -
  obtain c n where n: "tag_name t = c # n" "\<not> isspace c" by (cases t) (auto simp: isspace_def)
  have "dropWhile isspace (v @ tag_name t @ w @ CHR ''>'' # s) = tag_name t @ w @ CHR ''>'' # s"
    using dropWhile_spaces [OF assms(1) n(2)] n(1) by simp
  moreover have "dropWhile isspace (w @ CHR ''>'' # s) = CHR ''>'' # s"
    using dropWhile_spaces [OF assms(2), of "CHR ''>''"] by (simp add: isspace_def)
  ultimately show ?thesis by (simp add: match_tag_def)
qed

lemma match_tag_not: "c \<noteq> CHR ''<'' \<Longrightarrow> match_tag n (c # s) = None"
  by (simp add: match_tag_def)

lemma match_tag_other:
  assumes "t \<noteq> t'" "list_all isspace v"
  shows "match_tag (tag_name t) (CHR ''<'' # v @ tag_name t' @ s) = None"
proof -
  obtain c n where n: "tag_name t' = c # n" "\<not> isspace c" by (cases t') (auto simp: isspace_def)
  have "dropWhile isspace (v @ tag_name t' @ s) = tag_name t' @ s"
    using dropWhile_spaces [OF assms(2) n(2)] n(1) by simp
  moreover have "\<not> starts_with (tag_name t' @ s) (tag_name t)"
    using assms(1) by (cases t; cases t') simp_all
  ultimately show ?thesis by (simp add: match_tag_def)
qed

lemma replace_tag_plain:
  "CHR ''<'' \<notin> set s \<Longrightarrow> replace_tag n r (s @ u) = s @ replace_tag n r u"
  by (induction s) (auto simp: match_tag_not)

lemma no_bracket_pattern: "CHR ''<'' \<notin> set (tag_pattern t)"
  by (cases t) simp_all

lemma no_bracket_name: "CHR ''<'' \<notin> set (tag_name t)"
  by (cases t) simp_all

lemma no_bracket_spaces: "list_all isspace v \<Longrightarrow> CHR ''<'' \<notin> set v"
  by (induction v) (auto dest: space_not_special)

lemma replace_tag_emits:
  assumes "list_all wf_seg sg" and "t \<notin> D"
  shows "replace_tag (tag_name t) (tag_pattern t) (emits D sg) = emits (insert t D) sg"
  using assms(1)
proof (induction sg)
  case (Cons g sg)
  show ?case
  proof (cases g)
    case (Lit c)
    with Cons have "CHR ''<'' \<notin> set (emit D g)" by auto
    from replace_tag_plain [OF this] Lit Cons show ?thesis by simp
  next
    case (Tag t' v w)
    then have sp: "list_all isspace v" "list_all isspace w" using Cons.prems by simp_all
    consider "t' = t" | "t' \<noteq> t" "t' \<in> D" | "t' \<noteq> t" "t' \<notin> D" by blast
    then show ?thesis
    proof cases
      case 1
      with Tag Cons assms(2) match_tag_hit [OF sp, of t "emits D sg"] show ?thesis by simp
    next
      case 2
      with Tag Cons replace_tag_plain [OF no_bracket_pattern [of t']] show ?thesis by simp
    next
      case 3
      have "CHR ''<'' \<notin> set (v @ tag_name t' @ w @ ''>'')" using sp by (simp add: no_bracket_name no_bracket_spaces)
      from replace_tag_plain [OF this] 3 Tag Cons
        match_tag_other [OF 3(1) [symmetric] sp(1), of "w @ CHR ''>'' # emits D sg"]
      show ?thesis by simp
    qed
  qed
qed simp

section \<open>The compiled pattern\<close>

fun tag_re :: "tag \<Rightarrow> re" where
  "tag_re Tag_int = RPlus False [Crange (CHR ''0'') (CHR ''9'')]"
| "tag_re Tag_string = RPlus True [Cchar (CHR ''/''), Cchar (CHR ''?''), Cspace]"
| "tag_re Tag_path = RStar True [Cchar (CHR ''?''), Cchar (CHR ''#''), Cspace]"

text \<open>The terms of a specification, with the groups numbered from \<open>Suc g\<close>.\<close>

fun spec_res :: "nat \<Rightarrow> seg list \<Rightarrow> re list" where
  "spec_res g [] = []"
| "spec_res g (Lit c # sg) = RCls False [Cchar c] # spec_res g sg"
| "spec_res g (Tag t v w # sg) = RGroup (Suc g) (seq_of [tag_re t]) # spec_res (Suc g) sg"

definition tags :: "seg list \<Rightarrow> nat" where
  "tags sg = length (filter is_tag sg)"

lemma tags_simps [simp]: "tags [] = 0" "tags (Lit c # sg) = tags sg" "tags (Tag t v w # sg) = Suc (tags sg)"
  by (simp_all add: tags_def)

definition query_re :: re where
  "query_re = RAlt REmpty (seq_of [RCls False [Cchar (CHR ''?'')], RStar True [Cchar (CHR ''?''), Cspace]])"

definition tail_res :: "nat \<Rightarrow> re list" where
  "tail_res n = [ROpt (RCls False [Cchar (CHR ''/'')]), RGroup (Suc n) query_re, REnd]"

definition spec_re :: "seg list \<Rightarrow> re" where
  "spec_re sg = seq_of (RBegin # spec_res 0 sg @ tail_res (tags sg))"

lemma escape_item_special: "c \<in> set specialChars \<Longrightarrow> escape_item c = Some (Cchar c)"
  by (auto simp: specialChars_def escape_item_def isalnum_def isdigit_def)

lemma rx_parse_lit:
  assumes "c \<noteq> CHR 0x5C"
  shows "rx_parse g None ((i, alts, ts) # st) (emit D (Lit c) @ r) =
    rx_parse g None ((i, alts, RCls False [Cchar c] # ts) # st) r"
proof (cases "c \<in> set specialChars")
  case True
  then show ?thesis by (simp add: escape_item_special)
next
  case False
  with assms show ?thesis by (auto simp: specialChars_def)
qed

lemma rx_parse_tag:
  "rx_parse g None ((i, alts, ts) # st) (tag_pattern t @ r) =
    rx_parse (Suc g) None ((i, alts, RGroup (Suc g) (seq_of [tag_re t]) # ts) # st) r"
  by (cases t) (simp_all add: escape_item_def isalnum_def isdigit_def close_frame_def)

lemma rx_parse_emits:
  "list_all wf_seg sg \<Longrightarrow> rx_parse g None ((i, alts, ts) # st) (emits UNIV sg @ r) =
    rx_parse (g + tags sg) None ((i, alts, rev (spec_res g sg) @ ts) # st) r"
proof (induction g sg arbitrary: ts rule: spec_res.induct)
  case (2 g c sg)
  then show ?case using rx_parse_lit [of c g i alts ts st UNIV] by simp
next
  case (3 g t v w sg)
  then show ?case by (simp add: rx_parse_tag)
qed simp

lemma rx_parse_tail:
  "rx_parse g None [(0, [], ts)]
     ([CHR 0x5C] @ ''/?(|'' @ [CHR 0x5C] @ ''?[^'' @ [CHR 0x5C] @ ''?'' @ [CHR 0x5C] @ ''s]*)$'') =
   Some (seq_of (rev ts @ tail_res g))"
  by (simp add: escape_item_def isalnum_def isdigit_def close_frame_def tail_res_def query_re_def seq_of_def)

lemma spec_text_trim:
  assumes "list_all wf_seg sg" and "sg \<noteq> []"
  shows "spec_text sg \<noteq> [] \<and> spec_text (trim_spec sg) =
    (if last (spec_text sg) = CHR ''/'' then butlast (spec_text sg) else spec_text sg)"
proof -
  obtain sg' g where sg: "sg = sg' @ [g]" using assms(2) by (metis rev_exhaust)
  show ?thesis
  proof (cases g)
    case (Lit c)
    with sg show ?thesis by (simp add: spec_text_def trim_spec_def)
  next
    case (Tag t v w)
    with sg show ?thesis by (simp add: spec_text_def trim_spec_def)
  qed
qed

lemma wf_trim: "list_all wf_seg sg \<Longrightarrow> list_all wf_seg (trim_spec sg)"
  by (simp add: trim_spec_def list_all_iff in_set_butlastD)

lemma UNIV_tag: "(UNIV :: tag set) = {Tag_path, Tag_string, Tag_int}"
  by (auto intro: tag.exhaust)

lemma route_spec_to_regex_eq:
  assumes "list_all wf_seg sg" and "sg \<noteq> []"
  shows "route_spec_to_regex (spec_text sg) =
    Some (''^'' @ emits UNIV (trim_spec sg) @
      [CHR 0x5C] @ ''/?(|'' @ [CHR 0x5C] @ ''?[^'' @ [CHR 0x5C] @ ''?'' @ [CHR 0x5C] @ ''s]*)$'')"
proof -
  note wf = wf_trim [OF assms(1)]
  have "replace_tag ''int'' (tag_pattern Tag_int) (emits {} (trim_spec sg)) = emits {Tag_int} (trim_spec sg)"
    using replace_tag_emits [OF wf, of Tag_int "{}"] by simp
  moreover have "replace_tag ''string'' (tag_pattern Tag_string) (emits {Tag_int} (trim_spec sg)) =
      emits {Tag_string, Tag_int} (trim_spec sg)"
    using replace_tag_emits [OF wf, of Tag_string "{Tag_int}"] by simp
  moreover have "replace_tag ''path'' (tag_pattern Tag_path) (emits {Tag_string, Tag_int} (trim_spec sg)) =
      emits UNIV (trim_spec sg)"
    using replace_tag_emits [OF wf, of Tag_path "{Tag_string, Tag_int}"] unfolding UNIV_tag by simp
  ultimately show ?thesis
    using spec_text_trim [OF assms] escape_spec [OF wf]
    by (simp add: route_spec_to_regex_def Let_def)
qed

lemma rx_compile_spec:
  assumes "list_all wf_seg sg" and "sg \<noteq> []"
  shows "\<exists>p. route_spec_to_regex (spec_text sg) = Some p \<and> rx_compile p = Some (spec_re (trim_spec sg))"
proof -
  let ?tail = "[CHR 0x5C] @ ''/?(|'' @ [CHR 0x5C] @ ''?[^'' @ [CHR 0x5C] @ ''?'' @ [CHR 0x5C] @ ''s]*)$''"
  have "rx_compile (''^'' @ emits UNIV (trim_spec sg) @ ?tail) =
      rx_parse 0 None [(0, [], [RBegin])] (emits UNIV (trim_spec sg) @ ?tail)"
    unfolding rx_compile_def by (subst append_Cons, subst rx_parse.simps) simp
  also have "\<dots> = Some (spec_re (trim_spec sg))"
    unfolding rx_parse_emits [OF wf_trim [OF assms(1)]] rx_parse_tail by (simp add: spec_re_def)
  finally show ?thesis using route_spec_to_regex_eq [OF assms] by blast
qed

section \<open>What the pattern accepts\<close>

lemma cls_match_simps [simp]:
  "cls_match False [Cchar a] = (\<lambda>c. c = a)"
  "cls_match False [Crange (CHR ''0'') (CHR ''9'')] = isdigit"
  "cls_match True [Cchar a, Cchar b, Cspace] = (\<lambda>c. c \<noteq> a \<and> c \<noteq> b \<and> \<not> isspace c)"
  "cls_match True [Cchar a, Cspace] = (\<lambda>c. c \<noteq> a \<and> \<not> isspace c)"
  by (auto simp: cls_match_def isdigit_def fun_eq_iff)

lemma tag_re_sem:
  "q \<in> set (rx_match (tag_re t) (k, s, cs)) \<longleftrightarrow>
     (\<exists>x s'. s = x @ s' \<and> seg_accepts (Tag t v w) x \<and> q = (k + length x, s', cs))"
  by (cases t) (auto simp: rx_sem simp del: rx_match.simps(6))

text \<open>The captures after the segments \<open>sg\<close> took the pieces \<open>xs\<close>.\<close>

fun caps :: "nat \<Rightarrow> seg list \<Rightarrow> string list \<Rightarrow> (nat \<times> string) list \<Rightarrow> (nat \<times> string) list" where
  "caps g (Lit c # sg) (x # xs) cs = caps g sg xs cs"
| "caps g (Tag t v w # sg) (x # xs) cs = caps (Suc g) sg xs ((Suc g, x) # cs)"
| "caps g sg xs cs = cs"

lemma list_all2_Cons_ex:
  "(\<exists>xs. list_all2 P (g # sg) xs \<and> Q xs) \<longleftrightarrow> (\<exists>x xs. P g x \<and> list_all2 P sg xs \<and> Q (x # xs))"
  by (auto simp: list_all2_Cons1)

lemma spec_res_sem:
  "q \<in> set (rx_match (seq_of (spec_res g sg @ rs)) (k, s, cs)) \<longleftrightarrow>
     (\<exists>xs. list_all2 seg_accepts sg xs \<and> (\<exists>s'. s = concat xs @ s' \<and>
        q \<in> set (rx_match (seq_of rs) (k + length (concat xs), s', caps g sg xs cs))))"
proof (induction g sg arbitrary: k s cs rule: spec_res.induct)
  case (2 g c sg)
  have "q \<in> set (rx_match (seq_of (spec_res g (Lit c # sg) @ rs)) (k, s, cs)) \<longleftrightarrow>
      (\<exists>s1. s = c # s1 \<and> q \<in> set (rx_match (seq_of (spec_res g sg @ rs)) (Suc k, s1, cs)))"
    by (cases s) auto
  then show ?case unfolding 2 list_all2_Cons_ex by auto
next
  case (3 g t v w sg)
  have group: "p \<in> set (rx_match (RGroup (Suc g) (seq_of [tag_re t])) (k, s, cs)) \<longleftrightarrow>
      (\<exists>x s1. s = x @ s1 \<and> seg_accepts (Tag t v w) x \<and> p = (k + length x, s1, (Suc g, x) # cs))" for p
    unfolding rx_group_sem by (auto simp: tag_re_sem [of _ t _ _ _ v w])
  have "q \<in> set (rx_match (seq_of (spec_res g (Tag t v w # sg) @ rs)) (k, s, cs)) \<longleftrightarrow>
      (\<exists>x s1. s = x @ s1 \<and> seg_accepts (Tag t v w) x \<and>
        q \<in> set (rx_match (seq_of (spec_res (Suc g) sg @ rs)) (k + length x, s1, (Suc g, x) # cs)))"
    unfolding spec_res.simps append_Cons seq_of_simps(2) [of "RGroup _ _"] rx_seq_sem group by blast
  then show ?case
    unfolding 3 list_all2_Cons_ex
    by (simp only: caps.simps concat.simps append_assoc length_append add.assoc) blast
qed simp

lemma query_re_sem:
  "q \<in> set (rx_match query_re (k, s, cs)) \<longleftrightarrow>
     (\<exists>z s'. s = z @ s' \<and> query_ok z \<and> q = (k + length z, s', cs))"
proof -
  let ?P = "\<lambda>z. list_all (\<lambda>c. c \<noteq> CHR ''?'' \<and> \<not> isspace c) z"
  have step: "q \<in> set (rx_match query_re (k, s, cs)) \<longleftrightarrow> q = (k, s, cs) \<or>
      (\<exists>y s'. s = CHR ''?'' # y @ s' \<and> ?P y \<and> q = (Suc (k + length y), s', cs))"
    by (cases s) (auto simp: query_re_def rx_sem)
  have ok: "query_ok z \<longleftrightarrow> z = [] \<or> (\<exists>y. z = CHR ''?'' # y \<and> ?P y)" for z
    by (cases z) (auto simp: query_ok_def)
  show ?thesis unfolding step ok by auto
qed

lemma tail_res_sem:
  "q \<in> set (rx_match (seq_of (tail_res n)) (k, s, cs)) \<longleftrightarrow>
     (\<exists>y z. s = y @ z \<and> y \<in> {[], ''/''} \<and> query_ok z \<and> q = (k + length s, [], (Suc n, z) # cs))"
proof -
  have slash: "p \<in> set (rx_match (ROpt (RCls False [Cchar (CHR ''/'')])) (k, s, cs)) \<longleftrightarrow>
      (\<exists>y s'. s = y @ s' \<and> y \<in> {[], ''/''} \<and> p = (k + length y, s', cs))" for p
    by (cases s) auto
  have last: "p \<in> set (rx_match (seq_of [RGroup (Suc n) query_re, REnd]) (k', s', cs)) \<longleftrightarrow>
      query_ok s' \<and> p = (k' + length s', [], (Suc n, s') # cs)" for p k' s'
  proof -
    have "r \<in> set (rx_match (RGroup (Suc n) query_re) (k', s', cs)) \<longleftrightarrow>
        (\<exists>z s2. s' = z @ s2 \<and> query_ok z \<and> r = (k' + length z, s2, (Suc n, z) # cs))" for r
      unfolding rx_group_sem by (auto simp: query_re_sem)
    then show ?thesis
      unfolding seq_of_simps rx_seq_sem by auto
  qed
  have "q \<in> set (rx_match (seq_of (tail_res n)) (k, s, cs)) \<longleftrightarrow>
      (\<exists>y z. s = y @ z \<and> y \<in> {[], ''/''} \<and> query_ok z \<and> q = (k + length y + length z, [], (Suc n, z) # cs))"
    unfolding tail_res_def seq_of_simps(2) [of "ROpt _"] rx_seq_sem slash using last by blast
  then show ?thesis by (simp add: add.assoc cong: conj_cong)
qed

lemma spec_re_sem:
  "q \<in> set (rx_match (seq_of (spec_res 0 sg @ tail_res (tags sg))) (0, t, [])) \<longleftrightarrow>
     (\<exists>xs y z. t = concat xs @ y @ z \<and> list_all2 seg_accepts sg xs \<and> y \<in> {[], ''/''} \<and> query_ok z \<and>
        q = (length t, [], (Suc (tags sg), z) # caps 0 sg xs []))"
  unfolding spec_res_sem tail_res_sem by (simp only: add_0 flip: length_append) blast

section \<open>The captured arguments\<close>

lemma rx_groups_seq: "rx_groups (seq_of rs) = sum_list (map rx_groups rs)"
  by (induction rs) simp_all

lemma rx_groups_spec: "rx_groups (spec_re sg) = Suc (tags sg)"
proof -
  have tag: "rx_groups (tag_re t) = 0" for t by (cases t) simp_all
  have "sum_list (map rx_groups (spec_res g sg)) = tags sg" for g
    by (induction g sg rule: spec_res.induct) (simp_all add: tag)
  then show ?thesis by (simp add: spec_re_def rx_groups_seq tail_res_def query_re_def)
qed

lemma map_of_caps_le: "i \<le> g \<Longrightarrow> map_of (caps g sg xs cs) i = map_of cs i"
  by (induction g sg xs cs rule: caps.induct) auto

definition cap_text :: "(nat \<times> string) list \<Rightarrow> nat \<Rightarrow> string" where
  "cap_text cs i = (case map_of cs i of None \<Rightarrow> [] | Some x \<Rightarrow> x)"

lemma caps_pieces:
  "list_all2 seg_accepts sg xs \<Longrightarrow>
     map (cap_text (caps g sg xs cs)) [Suc g ..< Suc (g + tags sg)] = tag_pieces sg xs"
proof (induction g sg xs cs rule: caps.induct)
  case (1 g c sg x xs cs)
  then show ?case by (simp add: tag_pieces_def)
next
  case (2 g t v w sg x xs cs)
  then have IH: "map (cap_text (caps (Suc g) sg xs ((Suc g, x) # cs))) [Suc (Suc g) ..< Suc (Suc g + tags sg)] =
      tag_pieces sg xs" by simp
  have "[Suc g ..< Suc (g + tags (Tag t v w # sg))] = Suc g # [Suc (Suc g) ..< Suc (Suc g + tags sg)]"
    by (simp add: upt_conv_Cons)
  moreover have "cap_text (caps (Suc g) sg xs ((Suc g, x) # cs)) (Suc g) = x"
    by (simp add: cap_text_def map_of_caps_le)
  ultimately show ?case using IH by (simp add: tag_pieces_def)
qed (simp_all add: tag_pieces_def)

lemma smatch_spec:
  assumes "list_all2 seg_accepts sg xs"
  shows "smatch_of (spec_re sg) 0 t (length t, [], (Suc (tags sg), z) # caps 0 sg xs []) =
    t # tag_pieces sg xs @ [z]"
proof -
  let ?cs = "(Suc (tags sg), z) # caps 0 sg xs []"
  have "map (cap_text ?cs) [1..<Suc (tags sg)] = map (cap_text (caps 0 sg xs [])) [Suc 0..<Suc (0 + tags sg)]"
    by (auto simp: cap_text_def simp del: upt_Suc)
  moreover have "[1..<Suc (Suc (tags sg))] = [1..<Suc (tags sg)] @ [Suc (tags sg)]" by simp
  moreover have "cap_text ?cs (Suc (tags sg)) = z" by (simp add: cap_text_def)
  ultimately have "map (cap_text ?cs) [1..<Suc (Suc (tags sg))] = tag_pieces sg xs @ [z]"
    unfolding caps_pieces [OF assms] by (simp del: upt_Suc)
  then show ?thesis
    unfolding smatch_of_def rx_groups_spec prod.case cap_text_def by (simp del: upt_Suc)
qed

lemma rx_search_spec:
  "rx_search t (spec_re sg) = Some args \<Longrightarrow>
     \<exists>xs y z. t = concat xs @ y @ z \<and> list_all2 seg_accepts sg xs \<and> y \<in> {[], ''/''} \<and> query_ok z \<and>
       args = t # tag_pieces sg xs @ [z]"
  "list_all2 seg_accepts sg xs \<Longrightarrow> y \<in> {[], ''/''} \<Longrightarrow> query_ok z \<Longrightarrow>
     rx_search (concat xs @ y @ z) (spec_re sg) \<noteq> None"
proof -
  let ?r = "seq_of (spec_res 0 sg @ tail_res (tags sg))"
  have re: "spec_re sg = RSeq RBegin ?r" by (simp add: spec_re_def)
  show "\<exists>xs y z. t = concat xs @ y @ z \<and> list_all2 seg_accepts sg xs \<and> y \<in> {[], ''/''} \<and> query_ok z \<and>
       args = t # tag_pieces sg xs @ [z]" if s: "rx_search t (spec_re sg) = Some args"
  proof -
    obtain q qs where m: "rx_match ?r (0, t, []) = q # qs" and a: "args = smatch_of (spec_re sg) 0 t q"
      using s unfolding re rx_search_anchored by (auto split: list.splits)
    then have "q \<in> set (rx_match ?r (0, t, []))" by simp
    then show ?thesis unfolding spec_re_sem using a smatch_spec by blast
  qed
  show "rx_search (concat xs @ y @ z) (spec_re sg) \<noteq> None"
    if "list_all2 seg_accepts sg xs" "y \<in> {[], ''/''}" "query_ok z"
  proof -
    have "\<exists>q. q \<in> set (rx_match ?r (0, concat xs @ y @ z, []))"
      unfolding spec_re_sem using that by blast
    then show ?thesis unfolding re rx_search_anchored by (auto split: list.splits)
  qed
qed

end
