(* ===== verification/Route_Table.thy ===== *)
theory Route_Table
  imports Route_Spec
begin

text \<open>
  The three-tier route table (\<open>include/libasyik/route_table.hpp\<close>) and its registration operations
  on the server (\<open>include/libasyik/http_server.hpp\<close>). A route is the tuple of a method, a compiled
  regular expression and a callback. The table is independent of the regular expression library:
  \<open>compile\<close> (the constructor of \<open>std::regex\<close>, \<open>None\<close> when it throws) and \<open>search\<close>
  (\<open>std::regex_search\<close>, giving the submatches) are arguments, and so is \<open>boost::iequals\<close>.
\<close>

section \<open>Paths\<close>

definition extract_static_prefix :: "string \<Rightarrow> string" where
  "extract_static_prefix s =
     (case str_find (CHR ''<'') s of
        None \<Rightarrow> (if ends_with (CHR ''/'') s then butlast s else s)
      | Some pos \<Rightarrow> take pos s)"

definition is_static_route :: "string \<Rightarrow> bool" where
  "is_static_route s \<longleftrightarrow> str_find (CHR ''<'') s = None"

definition normalise_path :: "string \<Rightarrow> string" where
  "normalise_path target =
     (let s = (case str_find (CHR ''?'') target of Some qpos \<Rightarrow> take qpos target | None \<Rightarrow> target)
      in if length s > 1 \<and> last s = CHR ''/'' then butlast s else s)"

section \<open>The table\<close>

type_synonym ('r, 'c) route = "string \<times> 'r \<times> 'c"

record ('r, 'c) route_table =
  exact_routes :: "(string \<times> ('r, 'c) route list) list"
  prefix_routes :: "(string \<times> ('r, 'c) route) list"
  fallback_routes :: "('r, 'c) route list"

definition empty_table :: "('r, 'c) route_table" where
  "empty_table = \<lparr>exact_routes = [], prefix_routes = [], fallback_routes = []\<rparr>"

definition add_route :: "string \<Rightarrow> ('r, 'c) route \<Rightarrow> bool \<Rightarrow> ('r, 'c) route_table \<Rightarrow> ('r, 'c) route_table" where
  "add_route route_spec route insert_front tbl =
     (if is_static_route route_spec then
        (let key = normalise_path route_spec;
             vec = (case map_of (exact_routes tbl) key of Some v \<Rightarrow> v | None \<Rightarrow> []);
             vec' = (if insert_front then route # vec else vec @ [route])
         in tbl\<lparr>exact_routes := map_assign key vec' (exact_routes tbl)\<rparr>)
      else
        (let entry = (extract_static_prefix route_spec, route) in
         if insert_front then tbl\<lparr>prefix_routes := entry # prefix_routes tbl\<rparr>
         else tbl\<lparr>prefix_routes := prefix_routes tbl @ [entry]\<rparr>))"

definition add_regex_route :: "('r, 'c) route \<Rightarrow> bool \<Rightarrow> ('r, 'c) route_table \<Rightarrow> ('r, 'c) route_table" where
  "add_regex_route route insert_front tbl =
     (if insert_front then tbl\<lparr>fallback_routes := route # fallback_routes tbl\<rparr>
      else tbl\<lparr>fallback_routes := fallback_routes tbl @ [route]\<rparr>)"

datatype route_error = Route_not_found

definition method_ok :: "(string \<Rightarrow> string \<Rightarrow> bool) \<Rightarrow> string \<Rightarrow> ('r, 'c) route \<Rightarrow> bool" where
  "method_ok iequals req_method route \<longleftrightarrow> fst route = [] \<or> iequals (fst route) req_method"

fun find_exact ::
  "(string \<Rightarrow> string \<Rightarrow> bool) \<Rightarrow> string \<Rightarrow> string \<Rightarrow> ('r, 'c) route list \<Rightarrow> (('r, 'c) route \<times> string list) option"
where
  "find_exact iequals req_method path [] = None"
| "find_exact iequals req_method path (route # rs) =
     (if method_ok iequals req_method route then Some (route, [path])
      else find_exact iequals req_method path rs)"

fun find_regex ::
  "(string \<Rightarrow> string \<Rightarrow> bool) \<Rightarrow> (string \<Rightarrow> 'r \<Rightarrow> string list option) \<Rightarrow> string \<Rightarrow> string
     \<Rightarrow> ('r, 'c) route list \<Rightarrow> (('r, 'c) route \<times> string list) option"
where
  "find_regex iequals search req_method target [] = None"
| "find_regex iequals search req_method target (route # rs) =
     (if method_ok iequals req_method route then
        (case search target (fst (snd route)) of
           Some m \<Rightarrow> Some (route, m)
         | None \<Rightarrow> find_regex iequals search req_method target rs)
      else find_regex iequals search req_method target rs)"

fun find_prefix ::
  "(string \<Rightarrow> string \<Rightarrow> bool) \<Rightarrow> (string \<Rightarrow> 'r \<Rightarrow> string list option) \<Rightarrow> string \<Rightarrow> string
     \<Rightarrow> (string \<times> ('r, 'c) route) list \<Rightarrow> (('r, 'c) route \<times> string list) option"
where
  "find_prefix iequals search req_method target [] = None"
| "find_prefix iequals search req_method target ((pre, route) # rs) =
     (if starts_with target pre then
        (if method_ok iequals req_method route then
           (case search target (fst (snd route)) of
              Some m \<Rightarrow> Some (route, m)
            | None \<Rightarrow> find_prefix iequals search req_method target rs)
         else find_prefix iequals search req_method target rs)
      else find_prefix iequals search req_method target rs)"

definition find_route ::
  "(string \<Rightarrow> string \<Rightarrow> bool) \<Rightarrow> (string \<Rightarrow> 'r \<Rightarrow> string list option) \<Rightarrow> string \<Rightarrow> string
     \<Rightarrow> ('r, 'c) route_table \<Rightarrow> route_error + (('r, 'c) route \<times> string list)"
where
  "find_route iequals search req_method target tbl =
     (let path = normalise_path target;
          tier1 = (case map_of (exact_routes tbl) path of
                     Some v \<Rightarrow> find_exact iequals req_method path v
                   | None \<Rightarrow> None)
      in case tier1 of
           Some r \<Rightarrow> Inr r
         | None \<Rightarrow>
             (case find_prefix iequals search req_method target (prefix_routes tbl) of
                Some r \<Rightarrow> Inr r
              | None \<Rightarrow>
                  (case find_regex iequals search req_method target (fallback_routes tbl) of
                     Some r \<Rightarrow> Inr r
                   | None \<Rightarrow> Inl Route_not_found)))"

definition table_empty :: "('r, 'c) route_table \<Rightarrow> bool" where
  "table_empty tbl \<longleftrightarrow> exact_routes tbl = [] \<and> prefix_routes tbl = [] \<and> fallback_routes tbl = []"

section \<open>Registration on the server\<close>

text \<open>
  \<open>on_http_request\<close> (both overloads: without a method it passes the empty string) and
  \<open>on_websocket\<close>; \<open>None\<close> is the undefined access of \<open>route_spec_to_regex\<close> or an exception of the
  \<open>std::regex\<close> constructor, before the table is changed.
\<close>

definition on_http_request ::
  "(string \<Rightarrow> 'r option) \<Rightarrow> string \<Rightarrow> string \<Rightarrow> 'c \<Rightarrow> bool \<Rightarrow> ('r, 'c) route_table \<Rightarrow> ('r, 'c) route_table option"
where
  "on_http_request compile route_spec meth cb insert_front tbl =
     (case route_spec_to_regex route_spec of
        None \<Rightarrow> None
      | Some p \<Rightarrow>
          (case compile p of
             None \<Rightarrow> None
           | Some r \<Rightarrow> Some (add_route route_spec (meth, r, cb) insert_front tbl)))"

definition on_websocket ::
  "(string \<Rightarrow> 'r option) \<Rightarrow> string \<Rightarrow> 'c \<Rightarrow> bool \<Rightarrow> ('r, 'c) route_table \<Rightarrow> ('r, 'c) route_table option"
where
  "on_websocket compile route_spec cb insert_front tbl =
     (case route_spec_to_regex route_spec of
        None \<Rightarrow> None
      | Some p \<Rightarrow>
          (case compile p of
             None \<Rightarrow> None
           | Some r \<Rightarrow> Some (add_route route_spec ([], r, cb) insert_front tbl)))"

definition on_http_request_regex ::
  "'r \<Rightarrow> string \<Rightarrow> 'c \<Rightarrow> bool \<Rightarrow> ('r, 'c) route_table \<Rightarrow> ('r, 'c) route_table"
where
  "on_http_request_regex r m cb insert_front tbl = add_regex_route (m, r, cb) insert_front tbl"

definition on_websocket_regex ::
  "'r \<Rightarrow> 'c \<Rightarrow> bool \<Rightarrow> ('r, 'c) route_table \<Rightarrow> ('r, 'c) route_table"
where
  "on_websocket_regex r cb insert_front tbl = add_regex_route ([], r, cb) insert_front tbl"

text \<open>The pattern of \<open>serve_static\<close>; the handler it registers is modelled in \<open>Http_Static\<close>.\<close>

definition static_pattern :: "string \<Rightarrow> string" where
  "static_pattern url_prefix =
     (let prefix = (if ends_with (CHR ''/'') url_prefix then butlast url_prefix else url_prefix)
      in ''^'' @ escape_specials prefix @ ''('' @ [CHR 0x5C] @ ''/[^?#'' @ [CHR 0x5C] @ ''s]*)?(|'' @
         [CHR 0x5C] @ ''?[^'' @ [CHR 0x5C] @ ''?'' @ [CHR 0x5C] @ ''s]*)$'')"

definition serve_static ::
  "(string \<Rightarrow> 'r option) \<Rightarrow> string \<Rightarrow> (string \<Rightarrow> 'c) \<Rightarrow> ('r, 'c) route_table \<Rightarrow> ('r, 'c) route_table option"
where
  "serve_static compile url_prefix make_handler tbl =
     (case compile (static_pattern url_prefix) of
        None \<Rightarrow> None
      | Some r \<Rightarrow>
          Some (on_http_request_regex r ''GET''
            (make_handler (if ends_with (CHR ''/'') url_prefix then butlast url_prefix else url_prefix)) False tbl))"

section \<open>A regular expression library for route patterns\<close>

text \<open>What the table relies on: a specification's pattern compiles and accepts what the
  specification means.\<close>

definition accepts_spec :: "seg list \<Rightarrow> string \<Rightarrow> string list \<Rightarrow> string \<Rightarrow> bool" where
  "accepts_spec sg t xs z \<longleftrightarrow> (\<exists>y. t = concat xs @ y @ z \<and> list_all2 seg_accepts (trim_spec sg) xs \<and>
     y \<in> {[], ''/''} \<and> query_ok z)"

section \<open>Reachable tables and the reference search\<close>

inductive registered :: "(string \<Rightarrow> 'r option) \<Rightarrow> ('r, 'c) route_table \<Rightarrow> bool" for compile where
  reg_empty: "registered compile empty_table"
| reg_spec: "registered compile tbl \<Longrightarrow> list_all wf_seg sg \<Longrightarrow> sg \<noteq> [] \<Longrightarrow>
    on_http_request compile (spec_text sg) meth cb front tbl = Some tbl' \<Longrightarrow> registered compile tbl'"
| reg_regex: "registered compile tbl \<Longrightarrow> registered compile (on_http_request_regex r meth cb front tbl)"

text \<open>The search without the prefix check: the exact bucket, then every other pattern in order.\<close>

definition find_scan ::
  "(string \<Rightarrow> string \<Rightarrow> bool) \<Rightarrow> (string \<Rightarrow> 'r \<Rightarrow> string list option) \<Rightarrow> string \<Rightarrow> string
     \<Rightarrow> ('r, 'c) route_table \<Rightarrow> route_error + (('r, 'c) route \<times> string list)"
where
  "find_scan iequals search m t tbl =
     (case find_exact iequals m (normalise_path t)
             (case map_of (exact_routes tbl) (normalise_path t) of Some v \<Rightarrow> v | None \<Rightarrow> []) of
        Some r \<Rightarrow> Inr r
      | None \<Rightarrow>
          (case find_regex iequals search m t (map snd (prefix_routes tbl) @ fallback_routes tbl) of
             Some r \<Rightarrow> Inr r
           | None \<Rightarrow> Inl Route_not_found))"

definition prefix_sound :: "(string \<Rightarrow> 'r \<Rightarrow> string list option) \<Rightarrow> ('r, 'c) route_table \<Rightarrow> bool" where
  "prefix_sound search tbl \<longleftrightarrow>
     (\<forall>(pre, route) \<in> set (prefix_routes tbl). \<forall>t. search t (fst (snd route)) \<noteq> None \<longrightarrow> starts_with t pre)"

lemma find_regex_append:
  "find_regex iequals search m t (xs @ ys) =
     (case find_regex iequals search m t xs of Some r \<Rightarrow> Some r | None \<Rightarrow> find_regex iequals search m t ys)"
  by (induction xs) (auto split: option.split)

lemma find_prefix_regex:
  assumes "prefix_sound search tbl"
  shows "find_prefix iequals search m t (prefix_routes tbl) =
    find_regex iequals search m t (map snd (prefix_routes tbl))"
proof -
  have "\<forall>(pre, route) \<in> set ps. \<forall>t. search t (fst (snd route)) \<noteq> None \<longrightarrow> starts_with t pre \<Longrightarrow>
      find_prefix iequals search m t ps = find_regex iequals search m t (map snd ps)" for ps
    by (induction ps) (auto split: option.split)
  with assms show ?thesis by (simp add: prefix_sound_def)
qed

section \<open>Literal prefixes\<close>

lemma lits_pieces:
  "list_all2 seg_accepts (map Lit ls @ sg) xs \<Longrightarrow> \<exists>r. concat xs = ls @ r"
proof (induction ls arbitrary: xs)
  case (Cons c ls)
  then show ?case by (auto simp: list_all2_Cons1)
qed simp

lemma lits_pieces_all: "list_all2 seg_accepts (map Lit ls) xs \<longleftrightarrow> xs = map (\<lambda>c. [c]) ls"
  by (induction ls arbitrary: xs) (auto simp: list_all2_Cons1)

lemma spec_text_lits: "spec_text (map Lit ls) = ls"
  by (induction ls) (simp_all add: spec_text_def)

lemma split_first_tag:
  "list_all wf_seg sg \<Longrightarrow>
     \<exists>ls rest. sg = map Lit ls @ rest \<and> CHR ''<'' \<notin> set ls \<and> (rest = [] \<or> is_tag (hd rest))"
proof (induction sg)
  case (Cons g sg)
  show ?case
  proof (cases g)
    case (Lit c)
    from Cons obtain ls rest where "sg = map Lit ls @ rest" "CHR ''<'' \<notin> set ls" "rest = [] \<or> is_tag (hd rest)"
      by auto
    with Lit Cons.prems show ?thesis by (intro exI [of _ "c # ls"] exI [of _ rest]) auto
  next
    case (Tag t v w)
    then show ?thesis by (intro exI [of _ "[]"] exI [of _ "g # sg"]) simp
  qed
qed simp

lemma first_tag:
  assumes "list_all wf_seg sg" and "\<not> is_static_route (spec_text sg)"
  shows "\<exists>ls sg'. extract_static_prefix (spec_text sg) = ls \<and> trim_spec sg = map Lit ls @ sg'"
proof -
  obtain ls rest where s: "sg = map Lit ls @ rest" "CHR ''<'' \<notin> set ls" "rest = [] \<or> is_tag (hd rest)"
    using split_first_tag [OF assms(1)] by blast
  have "rest \<noteq> []"
    using assms(2) s(1,2) by (auto simp: is_static_route_def str_find_None spec_text_lits)
  with s(3) obtain t v w gs where rest: "rest = Tag t v w # gs"
    by (cases rest; cases "hd rest") auto
  have "spec_text sg = ls @ CHR ''<'' # v @ tag_name t @ w @ ''>'' @ spec_text gs"
    using s(1) rest spec_text_lits [of ls] by (simp add: spec_text_def)
  then have "extract_static_prefix (spec_text sg) = ls"
    using str_find_append [OF s(2)] by (simp add: extract_static_prefix_def)
  moreover have "\<exists>sg'. trim_spec sg = map Lit ls @ sg'"
    using s(1) rest by (auto simp: trim_spec_def butlast_append)
  ultimately show ?thesis by blast
qed

section \<open>Static specifications\<close>

lemma static_lits:
  assumes "list_all wf_seg sg" and "is_static_route (spec_text sg)"
  obtains ls where "sg = map Lit ls"
proof -
  obtain ls rest where s: "sg = map Lit ls @ rest" "rest = [] \<or> is_tag (hd rest)"
    using split_first_tag [OF assms(1)] by blast
  have "rest = []"
  proof (rule ccontr)
    assume "rest \<noteq> []"
    then obtain t v w gs where "rest = Tag t v w # gs"
      using s(2) by (cases rest; cases "hd rest") auto
    then have "CHR ''<'' \<in> set (spec_text sg)" using s(1) by (simp add: spec_text_def)
    with assms(2) show False by (simp add: is_static_route_def str_find_None)
  qed
  with s(1) that show ?thesis by simp
qed

definition strip_slash :: "string \<Rightarrow> string" where
  "strip_slash s = (if length s > 1 \<and> last s = CHR ''/'' then butlast s else s)"

lemma normalise_path_eq: "normalise_path t = strip_slash (takeWhile (\<lambda>c. c \<noteq> CHR ''?'') t)"
proof (cases "str_find (CHR ''?'') t")
  case None
  then have "takeWhile (\<lambda>c. c \<noteq> CHR ''?'') t = t" by (auto simp: str_find_None takeWhile_eq_all_conv)
  then show ?thesis using None by (simp only: normalise_path_def strip_slash_def Let_def option.case)
next
  case (Some i)
  then show ?thesis by (simp only: normalise_path_def strip_slash_def str_find_take [OF Some] Let_def option.case)
qed

lemma static_accepts:
  assumes "list_all wf_seg sg" and "is_static_route (spec_text sg)" and "CHR ''?'' \<notin> set (spec_text sg)"
    and "\<not> ends_with (CHR ''/'') (spec_text (trim_spec sg))" and "sg \<noteq> []"
  shows "accepts_spec sg t xs z \<Longrightarrow> normalise_path t \<noteq> [] \<Longrightarrow> normalise_path t = normalise_path (spec_text sg)"
    and "normalise_path t = normalise_path (spec_text sg) \<Longrightarrow> trim_spec sg \<noteq> [] \<Longrightarrow>
      query_ok (dropWhile (\<lambda>c. c \<noteq> CHR ''?'') t) \<Longrightarrow> \<exists>xs z. accepts_spec sg t xs z"
proof -
  obtain ls where ls: "sg = map Lit ls" using static_lits [OF assms(1,2)] .
  define u where "u = (if last ls = CHR ''/'' then butlast ls else ls)"
  have ne: "ls \<noteq> []" using ls assms(5) by simp
  then have trim: "trim_spec sg = map Lit u" using ls by (auto simp: trim_spec_def u_def last_map map_butlast)
  then have tu: "spec_text (trim_spec sg) = u" "spec_text sg = ls" using ls by (simp_all add: spec_text_lits)
  have nq: "CHR ''?'' \<notin> set ls" "CHR ''?'' \<notin> set u"
    using assms(3) tu(2) by (auto simp: u_def dest: in_set_butlastD)
  have uls: "ls = u @ ''/'' \<or> ls = u"
    using append_butlast_last_id [OF ne] by (cases "last ls = CHR ''/''") (simp_all add: u_def)
  have ue: "u \<noteq> [] \<Longrightarrow> last u \<noteq> CHR ''/''" using assms(4) tu(1) by (simp add: ends_with_def)
  have key: "normalise_path (spec_text sg) = (if u = [] then ''/'' else u)"
  proof -
    have "takeWhile (\<lambda>c. c \<noteq> CHR ''?'') ls = ls" using nq(1) by (auto simp: takeWhile_eq_all_conv)
    then have "normalise_path (spec_text sg) = strip_slash ls" by (simp only: normalise_path_eq tu(2))
    then show ?thesis using uls ue ne by (auto simp: strip_slash_def)
  qed
  show "normalise_path t = normalise_path (spec_text sg)"
    if acc: "accepts_spec sg t xs z" "normalise_path t \<noteq> []"
  proof -
    obtain y where t: "t = u @ y @ z" and y: "y \<in> {[], ''/''}" and z: "query_ok z"
      using acc(1) unfolding accepts_spec_def trim lits_pieces_all by auto
    have "takeWhile (\<lambda>c. c \<noteq> CHR ''?'') z = []" using z by (cases z) (auto simp: query_ok_def)
    moreover have "\<forall>x \<in> set (u @ y). x \<noteq> CHR ''?''" using nq(2) y by auto
    ultimately have p: "takeWhile (\<lambda>c. c \<noteq> CHR ''?'') t = u @ y"
      using takeWhile_append2 [of "u @ y" "\<lambda>c. c \<noteq> CHR ''?''" z] t by simp
    then have "normalise_path t = strip_slash (u @ y)" by (simp only: normalise_path_eq)
    with acc(2) y ue key show ?thesis by (auto simp: strip_slash_def)
  qed
  show "\<exists>xs z. accepts_spec sg t xs z"
    if n: "normalise_path t = normalise_path (spec_text sg)" "trim_spec sg \<noteq> []"
      "query_ok (dropWhile (\<lambda>c. c \<noteq> CHR ''?'') t)"
  proof -
    let ?p = "takeWhile (\<lambda>c. c \<noteq> CHR ''?'') t"
    have "strip_slash ?p = u" using n(1,2) key trim by (simp add: normalise_path_eq)
    then have "?p = u @ [] \<or> ?p = u @ ''/''"
      unfolding strip_slash_def by (metis append_Nil2 append_butlast_last_id list.size(3) not_less_zero)
    then obtain y where y: "?p = u @ y" "y \<in> {[], ''/''}" by blast
    have "t = u @ y @ dropWhile (\<lambda>c. c \<noteq> CHR ''?'') t"
      using y(1) takeWhile_dropWhile_id [of "\<lambda>c. c \<noteq> CHR ''?''" t] by simp
    with y(2) n(3) have "accepts_spec sg t (map (\<lambda>c. [c]) u) (dropWhile (\<lambda>c. c \<noteq> CHR ''?'') t)"
      unfolding accepts_spec_def trim lits_pieces_all by auto
    then show ?thesis by blast
  qed
qed

locale route_regex =
  fixes compile :: "string \<Rightarrow> 'r option" and search :: "string \<Rightarrow> 'r \<Rightarrow> string list option"
  assumes compile_spec: "list_all wf_seg sg \<Longrightarrow> sg \<noteq> [] \<Longrightarrow> route_spec_to_regex (spec_text sg) = Some p \<Longrightarrow>
            \<exists>r. compile p = Some r"
    and search_spec: "list_all wf_seg sg \<Longrightarrow> sg \<noteq> [] \<Longrightarrow> route_spec_to_regex (spec_text sg) = Some p \<Longrightarrow>
            compile p = Some r \<Longrightarrow> search t r = Some args \<Longrightarrow>
            \<exists>xs z. accepts_spec sg t xs z \<and> args = t # tag_pieces (trim_spec sg) xs @ [z]"
    and search_complete: "list_all wf_seg sg \<Longrightarrow> sg \<noteq> [] \<Longrightarrow> route_spec_to_regex (spec_text sg) = Some p \<Longrightarrow>
            compile p = Some r \<Longrightarrow> accepts_spec sg t xs z \<Longrightarrow> search t r \<noteq> None"
begin

text \<open>The quick prefix check never rejects a target the pattern accepts.\<close>

lemma prefix_check_sound:
  assumes "list_all wf_seg sg" and "\<not> is_static_route (spec_text sg)"
    and "route_spec_to_regex (spec_text sg) = Some p" and "compile p = Some r"
    and "search t r = Some args"
  shows "starts_with t (extract_static_prefix (spec_text sg))"
proof -
  obtain ls sg' where sg: "extract_static_prefix (spec_text sg) = ls" "trim_spec sg = map Lit ls @ sg'"
    using first_tag [OF assms(1,2)] by blast
  have "sg \<noteq> []" using assms(2) by (auto simp: is_static_route_def spec_text_def)
  from search_spec [OF assms(1) this assms(3-5)] obtain xs z y
    where t: "t = concat xs @ y @ z" and xs: "list_all2 seg_accepts (trim_spec sg) xs"
    by (auto simp: accepts_spec_def)
  obtain r where "concat xs = ls @ r" using lits_pieces xs sg(2) by metis
  then show ?thesis using t sg(1) by (simp add: starts_with_iff)
qed

lemma registered_prefix_sound: "registered compile tbl \<Longrightarrow> prefix_sound search tbl"
proof (induction rule: registered.induct)
  case (reg_spec tbl sg meth cb front tbl')
  obtain p r where pr: "route_spec_to_regex (spec_text sg) = Some p" "compile p = Some r"
    and tbl': "tbl' = add_route (spec_text sg) (meth, r, cb) front tbl"
    using reg_spec.hyps(4) by (auto simp: on_http_request_def split: option.splits)
  show ?case
  proof (cases "is_static_route (spec_text sg)")
    case True
    with reg_spec.IH tbl' show ?thesis by (simp add: prefix_sound_def add_route_def Let_def)
  next
    case False
    from prefix_check_sound [OF reg_spec.hyps(2) False pr] reg_spec.IH tbl' False
    show ?thesis by (auto simp: prefix_sound_def add_route_def Let_def split: if_splits)
  qed
qed (auto simp: prefix_sound_def empty_table_def on_http_request_regex_def add_regex_route_def)

lemma find_route_scan:
  "registered compile tbl \<Longrightarrow> find_route iequals search m t tbl = find_scan iequals search m t tbl"
  using find_prefix_regex [OF registered_prefix_sound, of tbl iequals m t]
  by (simp add: find_route_def find_scan_def Let_def find_regex_append split: option.split)

text \<open>For a static specification the exact lookup agrees with the pattern.\<close>

lemma static_pattern_exact:
  assumes "list_all wf_seg sg" and "is_static_route (spec_text sg)" and "CHR ''?'' \<notin> set (spec_text sg)"
    and "\<not> ends_with (CHR ''/'') (spec_text (trim_spec sg))" and "sg \<noteq> []"
    and "route_spec_to_regex (spec_text sg) = Some p" and "compile p = Some r"
  shows "search t r \<noteq> None \<Longrightarrow> normalise_path t \<noteq> [] \<Longrightarrow> normalise_path t = normalise_path (spec_text sg)"
    and "normalise_path t = normalise_path (spec_text sg) \<Longrightarrow> trim_spec sg \<noteq> [] \<Longrightarrow>
      query_ok (dropWhile (\<lambda>c. c \<noteq> CHR ''?'') t) \<Longrightarrow> search t r \<noteq> None"
proof -
  let ?u = "spec_text (trim_spec sg)"
  note u = static_accepts [OF assms(1-5)]
  show "normalise_path t = normalise_path (spec_text sg)"
    if found: "search t r \<noteq> None" "normalise_path t \<noteq> []"
  proof -
    obtain args where "search t r = Some args" using found(1) by blast
    from search_spec [OF assms(1,5-7) this] obtain xs z where "accepts_spec sg t xs z" by blast
    with u(1) found(2) show ?thesis by blast
  qed
  show "search t r \<noteq> None"
    if same: "normalise_path t = normalise_path (spec_text sg)" "trim_spec sg \<noteq> []"
      "query_ok (dropWhile (\<lambda>c. c \<noteq> CHR ''?'') t)"
  proof -
    obtain xs z where "accepts_spec sg t xs z" using u(2) [OF same] by blast
    then show ?thesis by (rule search_complete [OF assms(1,5-7)])
  qed
qed

end

interpretation rx: route_regex rx_compile rx_search
proof
  fix sg p r t args
  assume sg: "list_all wf_seg sg" "sg \<noteq> []" "route_spec_to_regex (spec_text sg) = Some p"
  then have c: "rx_compile p = Some (spec_re (trim_spec sg))" using rx_compile_spec [OF sg(1,2)] by auto
  then show "\<exists>r. rx_compile p = Some r" by blast
  assume r: "rx_compile p = Some r"
  show "\<exists>xs z. accepts_spec sg t xs z \<and> args = t # tag_pieces (trim_spec sg) xs @ [z]"
    if "rx_search t r = Some args"
    using rx_search_spec(1) [of t "trim_spec sg" args] c r that unfolding accepts_spec_def by auto
  show "rx_search t r \<noteq> None" if "accepts_spec sg t xs z" for xs z
    using rx_search_spec(2) [of "trim_spec sg" xs _ z] c r that unfolding accepts_spec_def by auto
qed

section \<open>Properties\<close>

text \<open>
  C4. A route specification means what it says: for every specification of literal characters and
  tags, the pattern \<open>route_spec_to_regex\<close> builds compiles, and searching a target finds a match
  exactly when the target is the specification with each tag replaced by a non-empty run of digits
  (\<open>int\<close>), a non-empty path segment (\<open>string\<close>) or a run of path characters (\<open>path\<close>), followed by
  at most one slash and at most one query; the arguments are then the target, the pieces for the
  tags in order, and the query.
\<close>

theorem route_spec_meaning:
  assumes "list_all wf_seg sg" and "sg \<noteq> []"
  shows "\<exists>p r. route_spec_to_regex (spec_text sg) = Some p \<and> rx_compile p = Some r \<and>
    (rx_search t r \<noteq> None \<longleftrightarrow> (\<exists>xs z. accepts_spec sg t xs z)) \<and>
    (\<forall>args. rx_search t r = Some args \<longrightarrow>
       (\<exists>xs z. accepts_spec sg t xs z \<and> args = t # tag_pieces (trim_spec sg) xs @ [z]))"
proof -
  obtain p where p: "route_spec_to_regex (spec_text sg) = Some p"
    and "\<exists>r. rx_compile p = Some r" using rx_compile_spec [OF assms] by blast
  then obtain r where r: "rx_compile p = Some r" by blast
  note found = rx.search_spec [OF assms p r] and complete = rx.search_complete [OF assms p r]
  have "rx_search t r \<noteq> None \<longleftrightarrow> (\<exists>xs z. accepts_spec sg t xs z)"
    using found complete by fastforce
  with p r found show ?thesis by blast
qed

theorem route_spec_meaning_witness:
  "\<exists>p r. route_spec_to_regex ''/a/<int>'' = Some p \<and> rx_compile p = Some r \<and>
     rx_search ''/a/12/?x'' r = Some [''/a/12/?x'', ''12'', ''?x'']"
proof -
  let ?sg = "[Lit (CHR ''/''), Lit (CHR ''a''), Lit (CHR ''/''), Tag Tag_int [] []]"
  have "spec_text ?sg = ''/a/<int>''" by (simp add: spec_text_def)
  with route_spec_meaning [of ?sg "''/a/12/?x''"]
  obtain p r where "route_spec_to_regex ''/a/<int>'' = Some p" "rx_compile p = Some r" by auto
  moreover have "Option.bind (route_spec_to_regex ''/a/<int>'') rx_compile =
      Some (spec_re ?sg)" by code_simp
  moreover have "rx_search ''/a/12/?x'' (spec_re ?sg) = Some [''/a/12/?x'', ''12'', ''?x'']"
    by code_simp
  ultimately show ?thesis by auto
qed



text \<open>
  The exact tier agrees with the pattern it replaces: for a static specification (no tag, no
  question mark, no double slash at the end), a target with a non-empty path that the pattern accepts
  has the same normalised path as the specification, and a target with that normalised path is
  accepted by the pattern when its query has no further question mark and no space.
\<close>

lemma exact_tier_agrees:
  assumes "list_all wf_seg sg" and "is_static_route (spec_text sg)" and "CHR ''?'' \<notin> set (spec_text sg)"
    and "\<not> ends_with (CHR ''/'') (spec_text (trim_spec sg))" and "trim_spec sg \<noteq> []"
    and "route_spec_to_regex (spec_text sg) = Some p" and "rx_compile p = Some r"
    and "normalise_path t \<noteq> []" and "query_ok (dropWhile (\<lambda>c. c \<noteq> CHR ''?'') t)"
  shows "rx_search t r \<noteq> None \<longleftrightarrow> normalise_path t = normalise_path (spec_text sg)"
proof -
  have "sg \<noteq> []" using assms(5) by (auto simp: trim_spec_def)
  from rx.static_pattern_exact [OF assms(1-4) this assms(6,7)] assms(5,8,9) show ?thesis by blast
qed

text \<open>
  A request fails with \<open>not_found_error\<close> exactly when no route in its exact bucket has its method
  and no other route has both its method and a matching pattern.
\<close>

lemma find_route_complete:
  assumes "registered rx_compile tbl"
  shows "find_route iequals rx_search m t tbl = Inl Route_not_found \<longleftrightarrow>
    (\<forall>v route. map_of (exact_routes tbl) (normalise_path t) = Some v \<longrightarrow> route \<in> set v \<longrightarrow> \<not> method_ok iequals m route) \<and>
    (\<forall>route \<in> snd ` set (prefix_routes tbl) \<union> set (fallback_routes tbl).
       \<not> (method_ok iequals m route \<and> rx_search t (fst (snd route)) \<noteq> None))"
proof -
  have exact: "find_exact iequals m path v = None \<longleftrightarrow> (\<forall>route \<in> set v. \<not> method_ok iequals m route)"
    for path and v :: "(re, 'b) route list" by (induction v) auto
  have regex: "find_regex iequals rx_search m t v = None \<longleftrightarrow>
      (\<forall>route \<in> set v. \<not> (method_ok iequals m route \<and> rx_search t (fst (snd route)) \<noteq> None))"
    for v :: "(re, 'b) route list" by (induction v) (auto split: option.split)
  have "find_route iequals rx_search m t tbl = Inl Route_not_found \<longleftrightarrow>
      find_exact iequals m (normalise_path t)
        (case map_of (exact_routes tbl) (normalise_path t) of Some v \<Rightarrow> v | None \<Rightarrow> []) = None \<and>
      find_regex iequals rx_search m t (map snd (prefix_routes tbl) @ fallback_routes tbl) = None"
    unfolding rx.find_route_scan [OF assms] find_scan_def by (auto split: option.split)
  then show ?thesis
    unfolding exact regex by (cases "map_of (exact_routes tbl) (normalise_path t)") auto
qed

end
