(* ===== verification/Errors.thy ===== *)
theory Errors
  imports Asyik_Prelude
begin

text \<open>
  The exception classes of \<open>include/libasyik/error.hpp\<close>, ordered by what a \<open>catch\<close> clause catches, and the
  error codes the library tells apart.
\<close>

section \<open>Error codes\<close>

text \<open>
  The error codes the library names, and the two categories it asks for; every other code is
  \<open>Ec_other\<close>. \<open>Ec_none\<close> is success. (Codes of different enumerations are different codes;
  \<open>stream_truncated\<close> belongs to the stream category.)
\<close>

datatype error_code =
    Ec_none
  | Ec_timed_out | Ec_operation_aborted | Ec_beast_timeout
  | Ec_header_limit | Ec_body_limit | Ec_ws_buffer_overflow | Ec_ws_message_too_big
  | Ec_end_of_stream | Ec_stream_truncated | Ec_connection_reset | Ec_ws_closed | Ec_eof
  | Ec_network_down | Ec_host_unreachable | Ec_shut_down | Ec_connection_aborted
  | Ec_bad_descriptor | Ec_invalid_argument
  | Ec_ssl int
  | Ec_ssl_stream int
  | Ec_other string int

fun ssl_category :: "error_code \<Rightarrow> bool" where
  "ssl_category (Ec_ssl v) = True"
| "ssl_category _ = False"

fun stream_category :: "error_code \<Rightarrow> bool" where
  "stream_category (Ec_ssl_stream v) = True"
| "stream_category Ec_stream_truncated = True"
| "stream_category _ = False"

section \<open>The class hierarchy\<close>

datatype error_class =
    System_error
  | Io_error | Network_error | Network_timeout_error | Network_unreachable_error | Network_expired_error
  | Tls_error | Tls_handshake_error | Tls_verify_error
  | File_error | Resource_error
  | Input_error | Invalid_input_error | Out_of_range_error | Not_found_error | Unexpected_input_error
  | Overflow_error
  | Unexpected_error | Already_expired_error | Already_closed_error | Already_exists_error
  | Timeout_error | Service_terminated_error

text \<open>\<open>System_error\<close> is \<open>boost::system::system_error\<close>; its own bases are outside the library.\<close>

fun parent_class :: "error_class \<Rightarrow> error_class option" where
  "parent_class System_error = None"
| "parent_class Io_error = Some System_error"
| "parent_class Network_error = Some Io_error"
| "parent_class Network_timeout_error = Some Network_error"
| "parent_class Network_unreachable_error = Some Network_error"
| "parent_class Network_expired_error = Some Network_error"
| "parent_class Tls_error = Some Network_error"
| "parent_class Tls_handshake_error = Some Tls_error"
| "parent_class Tls_verify_error = Some Tls_handshake_error"
| "parent_class File_error = Some Io_error"
| "parent_class Resource_error = Some Io_error"
| "parent_class Input_error = Some System_error"
| "parent_class Invalid_input_error = Some Input_error"
| "parent_class Out_of_range_error = Some Input_error"
| "parent_class Not_found_error = Some Input_error"
| "parent_class Unexpected_input_error = Some Input_error"
| "parent_class Overflow_error = Some Input_error"
| "parent_class Unexpected_error = Some System_error"
| "parent_class Already_expired_error = Some System_error"
| "parent_class Already_closed_error = Some System_error"
| "parent_class Already_exists_error = Some System_error"
| "parent_class Timeout_error = Some System_error"
| "parent_class Service_terminated_error = Some System_error"

text \<open>The code an exception carries when it is built from a message alone.\<close>

fun default_code :: "error_class \<Rightarrow> error_code option" where
  "default_code Io_error = Some Ec_connection_reset"
| "default_code Network_error = Some Ec_network_down"
| "default_code Network_timeout_error = Some Ec_timed_out"
| "default_code Network_unreachable_error = Some Ec_host_unreachable"
| "default_code Network_expired_error = Some Ec_shut_down"
| "default_code Tls_error = Some Ec_connection_aborted"
| "default_code Tls_handshake_error = Some Ec_connection_aborted"
| "default_code File_error = Some Ec_bad_descriptor"
| "default_code Resource_error = Some Ec_bad_descriptor"
| "default_code Input_error = Some Ec_invalid_argument"
| "default_code Invalid_input_error = Some Ec_invalid_argument"
| "default_code Out_of_range_error = Some Ec_invalid_argument"
| "default_code Not_found_error = Some Ec_invalid_argument"
| "default_code Unexpected_input_error = Some Ec_invalid_argument"
| "default_code Overflow_error = Some Ec_invalid_argument"
| "default_code Unexpected_error = Some Ec_shut_down"
| "default_code Already_expired_error = Some Ec_shut_down"
| "default_code Already_closed_error = Some Ec_shut_down"
| "default_code Already_exists_error = Some Ec_bad_descriptor"
| "default_code Timeout_error = Some Ec_timed_out"
| "default_code Service_terminated_error = Some Ec_operation_aborted"
| "default_code System_error = None"
| "default_code Tls_verify_error = None"

fun class_depth :: "error_class \<Rightarrow> nat" where
  "class_depth c =
     (if c = System_error then 0
      else if c \<in> {Network_error, File_error, Resource_error, Invalid_input_error, Out_of_range_error,
                   Not_found_error, Unexpected_input_error, Overflow_error} then 2
      else if c \<in> {Network_timeout_error, Network_unreachable_error, Network_expired_error, Tls_error} then 3
      else if c = Tls_handshake_error then 4
      else if c = Tls_verify_error then 5
      else 1)"

text \<open>\<open>catch (D&)\<close> catches a \<open>C\<close> when \<open>D\<close> is \<open>C\<close> or one of its bases.\<close>

function caught_by :: "error_class \<Rightarrow> error_class \<Rightarrow> bool" where
  "caught_by c d \<longleftrightarrow> c = d \<or> (case parent_class c of None \<Rightarrow> False | Some p \<Rightarrow> caught_by p d)"
  by pat_completeness auto
termination
proof (relation "measure (\<lambda>(c, d). class_depth c)")
  fix c d p assume "parent_class c = Some p"
  then show "((p, d), (c, d)) \<in> measure (\<lambda>(c, d). class_depth c)" by (cases c) auto
qed simp

declare caught_by.simps [simp del]

section \<open>Exceptions\<close>

record exn =
  exn_class :: error_class
  exn_code :: error_code
  exn_what :: string

definition make_error :: "error_class \<Rightarrow> error_code \<Rightarrow> string \<Rightarrow> exn" where
  "make_error c ec s = \<lparr>exn_class = c, exn_code = ec, exn_what = s\<rparr>"

section \<open>Lemmas\<close>

lemma caught_by_refl [simp]: "caught_by c c"
  by (subst caught_by.simps) simp

lemma caught_by_parent: "parent_class c = Some p \<Longrightarrow> caught_by p d \<Longrightarrow> caught_by c d"
  by (subst caught_by.simps) simp

lemma caught_by_trans: "caught_by c d \<Longrightarrow> caught_by d e \<Longrightarrow> caught_by c e"
proof (induction c d rule: caught_by.induct)
  case (1 c d)
  from 1(2) consider "c = d" | p where "parent_class c = Some p" "caught_by p d" "c \<noteq> d"
    by (subst (asm) caught_by.simps) (auto split: option.splits)
  then show ?case
  proof cases
    case 2
    then show ?thesis using 1 caught_by_parent by blast
  qed (use 1 in simp)
qed

lemma caught_by_depth: "caught_by c d \<Longrightarrow> c = d \<or> class_depth d < class_depth c"
proof (induction c d rule: caught_by.induct)
  case (1 c d)
  show ?case
  proof (cases "c = d")
    case False
    then obtain p where p: "parent_class c = Some p" "caught_by p d"
      using 1(2) by (subst (asm) caught_by.simps) (auto split: option.splits)
    then have "class_depth p < class_depth c" by (cases c) auto
    with 1(1) [OF p] show ?thesis by (metis less_trans)
  qed simp
qed

lemma caught_by_root: "caught_by c System_error"
  by (cases c) (simp_all add: caught_by.simps)

text \<open>
  The exception classes form a tree under \<open>boost::system::system_error\<close>: being caught by a class is a
  partial order, and every exception of the library can be caught as a \<open>system_error\<close>.
\<close>

instantiation error_class :: order_top
begin

definition less_eq_error_class :: "error_class \<Rightarrow> error_class \<Rightarrow> bool" where
  "c \<le> d \<longleftrightarrow> caught_by c d"

definition less_error_class :: "error_class \<Rightarrow> error_class \<Rightarrow> bool" where
  "c < d \<longleftrightarrow> caught_by c d \<and> \<not> caught_by d c"

definition top_error_class :: error_class where
  "top_error_class = System_error"

instance
proof
  fix c d e :: error_class
  show "c < d \<longleftrightarrow> c \<le> d \<and> \<not> d \<le> c" by (simp add: less_error_class_def less_eq_error_class_def)
  show "c \<le> c" by (simp add: less_eq_error_class_def)
  show "c \<le> d \<Longrightarrow> d \<le> e \<Longrightarrow> c \<le> e" unfolding less_eq_error_class_def by (rule caught_by_trans)
  show "c \<le> d \<Longrightarrow> d \<le> c \<Longrightarrow> c = d"
    unfolding less_eq_error_class_def using caught_by_depth [of c d] caught_by_depth [of d c] by auto
  show "c \<le> top" by (simp add: less_eq_error_class_def top_error_class_def caught_by_root)
qed

end

text \<open>The handlers of the library's \<open>catch\<close> clauses, by what they catch.\<close>

lemmas caught_by_classes =
  caught_by.simps [of Network_timeout_error] caught_by.simps [of Network_error] caught_by.simps [of Io_error]
  caught_by.simps [of System_error] caught_by.simps [of Overflow_error] caught_by.simps [of Input_error]
  caught_by.simps [of Already_closed_error] caught_by.simps [of Tls_error]

end
