(* ===== verification/Http_Connection.thy ===== *)
theory Http_Connection
  imports Route_Table Errors
begin

text \<open>
  The server side of HTTP: the fiber that serves a connection (\<open>http_connection::start\<close> in
  \<open>include/libasyik/http.hpp\<close>), and the server's accept loop, its register of connections and its
  \<open>close\<close> (\<open>include/libasyik/http_server.hpp\<close>, \<open>http.hpp\<close>). Boost.Beast is outside the library: a parsed
  request, its keep-alive flag and whether it is a websocket upgrade are data; the default response,
  \<open>prepare_payload\<close> and \<open>need_eof\<close> are arguments. What the network does is a list of events.
\<close>

section \<open>Requests and responses\<close>

record http_req =
  rq_method :: string
  rq_target :: string
  rq_headers :: "(string \<times> string) list"
  rq_body :: string
  rq_keep_alive :: bool
  rq_upgrade :: bool

record http_res =
  rs_status :: nat
  rs_headers :: "(string \<times> string) list"
  rs_body :: string
  rs_keep_alive :: bool

text \<open>The request object of a connection, taken from the pool and used for all its requests.\<close>

record http_request =
  beast_request :: http_req
  beast_response :: http_res
  buffer :: string
  manual_response :: bool

text \<open>
  A route callback may change the request and the response and may ask for direct response handling; it returns or
  throws.
\<close>

type_synonym callback = "http_req \<Rightarrow> http_res \<Rightarrow> string list \<Rightarrow> (http_req \<times> http_res \<times> bool) \<times> exn option"

record 'r conn_env =
  e_iequals :: "string \<Rightarrow> string \<Rightarrow> bool"
  e_search :: "string \<Rightarrow> 'r \<Rightarrow> string list option"
  e_http_routes :: "('r, callback) route_table"
  e_ws_routes :: "('r, nat) route_table"
  e_version :: string
  e_fresh :: http_res
  e_prepare_payload :: "http_res \<Rightarrow> http_res"
  e_need_eof :: "http_res \<Rightarrow> bool"

text \<open>
  What a turn of the loop meets: the read fails; or it gives a request and leaves the rest of the input in the buffer, and
  then \<open>server_alive\<close> says whether the server still exists, \<open>ws_ok\<close> whether the websocket handshake succeeds, and
  \<open>write_result\<close> what the write of the response does.
\<close>

datatype event =
    Read_fail exn
  | Read_ok (ev_req: http_req) (ev_rest: string) (ev_server_alive: bool) (ev_ws_ok: bool) (ev_write: "exn option")

datatype action = Sent http_res | Ws_handler nat "string list"

datatype conn_end = Waiting | Broke | Returned | Threw exn bool

section \<open>Serving one request\<close>

definition prepare_response :: "'r conn_env \<Rightarrow> http_request \<Rightarrow> http_request" where
  "prepare_response env r =
     r\<lparr>beast_response := (beast_response r)\<lparr>
         rs_headers := map_assign ''Content-Type'' ''text/html''
                         (map_assign ''Server'' (e_version env) (rs_headers (beast_response r))),
         rs_keep_alive := rq_keep_alive (beast_request r)\<rparr>\<rparr>"

definition error_reply :: "nat \<Rightarrow> http_request \<Rightarrow> http_request" where
  "error_reply code r =
     r\<lparr>beast_response := (beast_response r)\<lparr>rs_body := [], rs_status := code, rs_keep_alive := False\<rparr>\<rparr>"

definition dispatch_request :: "'r conn_env \<Rightarrow> bool \<Rightarrow> http_request \<Rightarrow> http_request" where
  "dispatch_request env server_alive r =
     (if \<not> server_alive then error_reply 500 r
      else
        (case find_route (e_iequals env) (e_search env) (rq_method (beast_request r)) (rq_target (beast_request r))
                (e_http_routes env) of
           Inl Route_not_found \<Rightarrow> error_reply 404 r
         | Inr (route, args) \<Rightarrow>
             (case snd (snd route) (beast_request r) (beast_response r) args of
                ((q, p, manual), result) \<Rightarrow>
                  let r1 = r\<lparr>beast_request := q, beast_response := p, manual_response := manual_response r \<or> manual\<rparr> in
                  (case result of
                     None \<Rightarrow> r1
                   | Some e \<Rightarrow> if caught_by (exn_class e) Not_found_error then error_reply 404 r1 else error_reply 500 r1))))"

text \<open>The websocket branch: every exception in it is swallowed, and the fiber ends.\<close>

definition websocket_upgrade :: "'r conn_env \<Rightarrow> bool \<Rightarrow> bool \<Rightarrow> http_request \<Rightarrow> action list \<times> conn_end" where
  "websocket_upgrade env server_alive ws_ok r =
     (if buffer r \<noteq> [] then
        ([], Threw (make_error Unexpected_input_error Ec_invalid_argument ''unexpected data before websocket handshake!'')
               False)
      else if \<not> server_alive then ([], Returned)
      else
        (case find_route (e_iequals env) (e_search env) (rq_method (beast_request r)) (rq_target (beast_request r))
                (e_ws_routes env) of
           Inl Route_not_found \<Rightarrow> ([], Returned)
         | Inr (route, args) \<Rightarrow> if ws_ok then ([Ws_handler (snd (snd route)) args], Returned) else ([], Returned)))"

section \<open>The connection's fiber\<close>

fun conn_loop :: "'r conn_env \<Rightarrow> bool \<Rightarrow> http_request \<Rightarrow> event list \<Rightarrow> action list \<times> conn_end" where
  "conn_loop env safe_to_close r [] = ([], Waiting)"
| "conn_loop env safe_to_close r (Read_fail e # evs) = ([], Threw e safe_to_close)"
| "conn_loop env safe_to_close r (Read_ok q rest server_alive ws_ok write_result # evs) =
     (let r1 = r\<lparr>beast_request := q, buffer := rest\<rparr> in
      if rq_upgrade q then websocket_upgrade env server_alive ws_ok r1
      else
        let r2 = dispatch_request env server_alive (prepare_response env r1) in
        if manual_response r2 then ([], Broke)
        else
          let res = e_prepare_payload env (beast_response r2) in
          case write_result of
            Some e \<Rightarrow> ([], Threw e False)
          | None \<Rightarrow>
              if e_need_eof env res then ([Sent res], Broke)
              else
                case conn_loop env True (r2\<lparr>beast_response := e_fresh env, manual_response := False\<rparr>) evs of
                  (acts, en) \<Rightarrow> (Sent res # acts, en))"

definition too_large_response :: "'r conn_env \<Rightarrow> string \<Rightarrow> http_res" where
  "too_large_response env what =
     e_prepare_payload env ((e_fresh env)\<lparr>rs_body := what, rs_keep_alive := False, rs_status := 413\<rparr>)"

text \<open>
  The whole fiber: the socket option, the handshake (an error ends it quietly), the loop on a request object from the pool
  with an empty buffer, and the handlers of what it throws; \<open>final_write\<close> is the outcome of writing the 413 answer.
  The result is what was sent and started, whether the TLS stream was shut down, and whether a warning was logged.
\<close>

definition acquire_request :: "'r conn_env \<Rightarrow> http_req \<Rightarrow> http_request" where
  "acquire_request env q0 =
     \<lparr>beast_request = q0, beast_response = e_fresh env, buffer = [], manual_response = False\<rparr>"

definition conn_task ::
  "'r conn_env \<Rightarrow> exn option \<Rightarrow> exn option \<Rightarrow> http_req \<Rightarrow> exn option \<Rightarrow> event list \<Rightarrow> action list \<times> bool \<times> bool"
where
  "conn_task env opt handshake q0 final_write evs =
     (if opt \<noteq> None then ([], False, True)
      else if handshake \<noteq> None then ([], False, False)
      else
        (case conn_loop env False (acquire_request env q0) evs of
           (acts, Waiting) \<Rightarrow> (acts, False, False)
         | (acts, Broke) \<Rightarrow> (acts, True, False)
         | (acts, Returned) \<Rightarrow> (acts, False, False)
         | (acts, Threw e safe_to_close) \<Rightarrow>
             if caught_by (exn_class e) Overflow_error then
               (case final_write of
                  None \<Rightarrow> (acts @ [Sent (too_large_response env (exn_what e))], True, False)
                | Some _ \<Rightarrow> (acts, False, False))
             else if caught_by (exn_class e) Already_closed_error then (acts, False, \<not> safe_to_close)
             else (acts, False, True)))"

section \<open>Accepting and closing\<close>

text \<open>
  A connection: whether its object still exists, whether it became a websocket and that websocket still exists, and whether its
  socket is open. The accept operation is not started, waiting, or completed (with a socket or an error) and
  waiting for its handler to run.
\<close>

record conn =
  c_alive :: bool
  is_websocket :: bool
  ws_alive :: bool
  c_open :: bool

datatype accept_op = No_accept | Accepting | Completed bool

record http_server =
  acceptor_open :: bool
  accept_state :: accept_op
  active_connections :: "nat list"
  conns :: "conn list"

definition server_init :: http_server where
  "server_init = \<lparr>acceptor_open = True, accept_state = Accepting, active_connections = [], conns = []\<rparr>"

definition start_accept :: "http_server \<Rightarrow> http_server" where
  "start_accept s = s\<lparr>accept_state := (if acceptor_open s then Accepting else Completed False)\<rparr>"

definition expired :: "http_server \<Rightarrow> nat \<Rightarrow> bool" where
  "expired s c \<longleftrightarrow> \<not> (c < length (conns s) \<and> c_alive (conns s ! c))"

definition register_connection :: "nat \<Rightarrow> http_server \<Rightarrow> http_server" where
  "register_connection c s =
     s\<lparr>active_connections := filter (\<lambda>w. \<not> expired s w) (active_connections s) @ [c]\<rparr>"

text \<open>The handler of \<open>async_accept\<close>; \<open>service_alive\<close> says whether the service still exists.\<close>

definition accept_handler :: "bool \<Rightarrow> http_server \<Rightarrow> http_server" where
  "accept_handler service_alive s =
     (case accept_state s of
        Completed True \<Rightarrow>
          (let c = length (conns s);
               s1 = register_connection c
                      (s\<lparr>conns := conns s @ [\<lparr>c_alive = True, is_websocket = False, ws_alive = False, c_open = True\<rparr>]\<rparr>)
           in if service_alive then start_accept s1 else s1\<lparr>accept_state := No_accept\<rparr>)
      | Completed False \<Rightarrow> s\<lparr>accept_state := No_accept\<rparr>
      | _ \<Rightarrow> s)"

definition close_connection :: "conn \<Rightarrow> conn" where
  "close_connection c =
     (if is_websocket c then (if ws_alive c then c\<lparr>c_open := False\<rparr> else c) else c\<lparr>c_open := False\<rparr>)"

definition server_close :: "http_server \<Rightarrow> http_server" where
  "server_close s =
     (let live = filter (\<lambda>w. \<not> expired s w) (active_connections s) in
      s\<lparr>acceptor_open := False,
        accept_state := (if accept_state s = Accepting then Completed False else accept_state s),
        active_connections := [],
        conns := map (\<lambda>i. if i \<in> set live then close_connection (conns s ! i) else conns s ! i) [0..<length (conns s)]\<rparr>)"

text \<open>
  Everything that happens to a server: a client connects, the accept handler runs, a connection upgrades, its websocket or the
  connection itself ends (its socket is closed then), and \<open>close\<close>.
\<close>

inductive server_step :: "http_server \<Rightarrow> http_server \<Rightarrow> bool" where
  ss_incoming: "accept_state s = Accepting \<Longrightarrow> server_step s (s\<lparr>accept_state := Completed True\<rparr>)"
| ss_handler: "accept_state s = Completed b \<Longrightarrow> server_step s (accept_handler service_alive s)"
| ss_upgrade: "c < length (conns s) \<Longrightarrow> c_alive (conns s ! c) \<Longrightarrow>
    server_step s (s\<lparr>conns := (conns s)[c := (conns s ! c)\<lparr>is_websocket := True, ws_alive := True\<rparr>]\<rparr>)"
| ss_ws_end: "c < length (conns s) \<Longrightarrow>
    server_step s (s\<lparr>conns := (conns s)[c := (conns s ! c)\<lparr>ws_alive := False, c_open := False\<rparr>]\<rparr>)"
| ss_end: "c < length (conns s) \<Longrightarrow> server_step s (s\<lparr>conns := (conns s)[c := (conns s ! c)\<lparr>c_alive := False\<rparr>]\<rparr>)"
| ss_close: "server_step s (server_close s)"

definition server_inv :: "http_server \<Rightarrow> bool" where
  "server_inv s \<longleftrightarrow>
     (\<forall>c < length (conns s). c_alive (conns s ! c) \<and> c_open (conns s ! c) \<longrightarrow>
        c \<in> set (active_connections s) \<and> (is_websocket (conns s ! c) \<longrightarrow> ws_alive (conns s ! c)))"

section \<open>Specification\<close>

definition fresh_request :: "'r conn_env \<Rightarrow> http_request \<Rightarrow> bool" where
  "fresh_request env r \<longleftrightarrow> beast_response r = e_fresh env \<and> \<not> manual_response r"

definition handled_request :: "'r conn_env \<Rightarrow> http_req \<Rightarrow> bool \<Rightarrow> http_request" where
  "handled_request env q server_alive = dispatch_request env server_alive (prepare_response env (acquire_request env q))"

definition answer :: "'r conn_env \<Rightarrow> event \<Rightarrow> http_res" where
  "answer env ev = e_prepare_payload env (beast_response (handled_request env (ev_req ev) (ev_server_alive ev)))"

definition answered :: "'r conn_env \<Rightarrow> event \<Rightarrow> bool" where
  "answered env ev \<longleftrightarrow>
     (case ev of
        Read_fail _ \<Rightarrow> False
      | Read_ok q _ server_alive _ write_result \<Rightarrow>
          \<not> rq_upgrade q \<and> \<not> manual_response (handled_request env q server_alive) \<and> write_result = None)"

text \<open>What Beast promises of the payload and of connections that are not kept alive.\<close>

definition beast_laws :: "'r conn_env \<Rightarrow> bool" where
  "beast_laws env \<longleftrightarrow>
     (\<forall>p. rs_status (e_prepare_payload env p) = rs_status p \<and> rs_body (e_prepare_payload env p) = rs_body p \<and>
        rs_keep_alive (e_prepare_payload env p) = rs_keep_alive p) \<and>
     (\<forall>p. \<not> rs_keep_alive p \<longrightarrow> e_need_eof env p)"

text \<open>The code of the answer when a request cannot be served: the server is gone, no route matches, or the callback throws.\<close>

definition failure_code :: "'r conn_env \<Rightarrow> http_req \<Rightarrow> bool \<Rightarrow> nat option" where
  "failure_code env q server_alive =
     (if \<not> server_alive then Some 500
      else case find_route (e_iequals env) (e_search env) (rq_method q) (rq_target q) (e_http_routes env) of
        Inl _ \<Rightarrow> Some 404
      | Inr (route, args) \<Rightarrow>
          map_option (\<lambda>e. if caught_by (exn_class e) Not_found_error then 404 else 500)
            (snd (snd (snd route) q (beast_response (prepare_response env (acquire_request env q))) args)))"

text \<open>After \<open>close\<close> with no completed accept waiting for its handler, no connection is ever added.\<close>

definition accepts_no_more :: "http_server \<Rightarrow> bool" where
  "accepts_no_more s \<longleftrightarrow> \<not> acceptor_open s \<and> accept_state s \<in> {No_accept, Completed False}"

section \<open>Lemmas\<close>

lemma dispatch_fresh:
  assumes "fresh_request env r"
  shows "beast_response (dispatch_request env al (prepare_response env (r\<lparr>beast_request := q, buffer := b\<rparr>))) =
      beast_response (handled_request env q al)"
    and "manual_response (dispatch_request env al (prepare_response env (r\<lparr>beast_request := q, buffer := b\<rparr>))) =
      manual_response (handled_request env q al)"
  using assms
  by (auto simp: fresh_request_def handled_request_def acquire_request_def dispatch_request_def prepare_response_def
      error_reply_def Let_def split: sum.split route_error.split prod.split option.split)

lemma conn_loop_request:
  assumes "fresh_request env r"
  shows "conn_loop env safe r (Read_ok q rest al ok w # evs) =
    (if rq_upgrade q then websocket_upgrade env al ok (r\<lparr>beast_request := q, buffer := rest\<rparr>)
     else if manual_response (handled_request env q al) then ([], Broke)
     else case w of
       Some e \<Rightarrow> ([], Threw e False)
     | None \<Rightarrow>
         if e_need_eof env (answer env (Read_ok q rest al ok w)) then ([Sent (answer env (Read_ok q rest al ok w))], Broke)
         else
           case conn_loop env True ((dispatch_request env al (prepare_response env (r\<lparr>beast_request := q, buffer := rest\<rparr>)))
                  \<lparr>beast_response := e_fresh env, manual_response := False\<rparr>) evs of
             (acts, en) \<Rightarrow> (Sent (answer env (Read_ok q rest al ok w)) # acts, en))"
  using assms by (simp add: dispatch_fresh answer_def Let_def split: option.split)

lemma websocket_upgrade_result:
  "websocket_upgrade env al ok r = (acts, en) \<Longrightarrow> en \<noteq> Waiting \<and> en \<noteq> Broke \<and> (acts = [] \<or> (\<exists>h args. acts = [Ws_handler h args]))"
  by (auto simp: websocket_upgrade_def split: if_splits sum.splits route_error.splits)

lemma conn_loop_order:
  assumes "fresh_request env r" and "conn_loop env safe r evs = (acts, en)"
  shows "\<exists>k ws. acts = map (Sent \<circ> answer env) (take k evs) @ ws \<and> (ws = [] \<or> (\<exists>h args. ws = [Ws_handler h args])) \<and>
    k \<le> length evs \<and> (\<forall>ev \<in> set (take k evs). answered env ev) \<and>
    (\<forall>ev \<in> set (take (k - 1) evs). \<not> e_need_eof env (answer env ev)) \<and>
    (en = Waiting \<longrightarrow> k = length evs)"
  using assms
proof (induction evs arbitrary: safe r acts)
  case (Cons ev evs)
  show ?case
  proof (cases ev)
    case (Read_ok q rest al ok w)
    show ?thesis
    proof (cases "answered env ev \<and> \<not> e_need_eof env (answer env ev)")
      case True
      let ?r = "(dispatch_request env al (prepare_response env (r\<lparr>beast_request := q, buffer := rest\<rparr>)))
                  \<lparr>beast_response := e_fresh env, manual_response := False\<rparr>"
      obtain acts' where a: "conn_loop env True ?r evs = (acts', en)" "acts = Sent (answer env ev) # acts'"
        using Cons.prems True unfolding Read_ok conn_loop_request [OF Cons.prems(1)]
        by (auto simp: answered_def split: prod.splits)
      have "fresh_request env ?r" by (simp add: fresh_request_def)
      from Cons.IH [OF this a(1)] obtain k ws where k: "acts' = map (Sent \<circ> answer env) (take k evs) @ ws"
        "ws = [] \<or> (\<exists>h args. ws = [Ws_handler h args])" "k \<le> length evs" "\<forall>ev \<in> set (take k evs). answered env ev"
        "\<forall>ev \<in> set (take (k - 1) evs). \<not> e_need_eof env (answer env ev)" "en = Waiting \<longrightarrow> k = length evs"
        by blast
      show ?thesis
        by (rule exI [of _ "Suc k"], rule exI [of _ ws]) (use k a True in \<open>cases k; auto\<close>)
    next
      case False
      show ?thesis
      proof (cases "answered env ev")
        case True
        with False Cons.prems show ?thesis unfolding Read_ok conn_loop_request [OF Cons.prems(1)]
          by (intro exI [of _ 1] exI [of _ "[]"]) (auto simp: answered_def)
      next
        case False
        with Cons.prems show ?thesis unfolding Read_ok conn_loop_request [OF Cons.prems(1)]
          by (intro exI [of _ 0] exI [of _ acts])
            (auto simp: answered_def split: if_splits option.splits dest: websocket_upgrade_result)
      qed
    qed
  qed (use Cons.prems in auto)
qed simp


lemma failure_reply:
  assumes "failure_code env q al = Some code"
  shows "rs_status (beast_response (handled_request env q al)) = code \<and> rs_body (beast_response (handled_request env q al)) = [] \<and>
    \<not> rs_keep_alive (beast_response (handled_request env q al))"
  using assms
  by (auto simp: failure_code_def handled_request_def dispatch_request_def error_reply_def prepare_response_def
      acquire_request_def Let_def split: if_splits sum.splits route_error.splits prod.splits option.splits)

lemma server_inv_init: "server_inv server_init"
  by (simp add: server_inv_def server_init_def)

lemma server_inv_accept: "server_inv s \<Longrightarrow> server_inv (accept_handler sa s)"
  by (auto simp: server_inv_def accept_handler_def register_connection_def start_accept_def expired_def Let_def
      nth_append less_Suc_eq split: accept_op.split bool.split)

lemma server_inv_step: "server_step s s' \<Longrightarrow> server_inv s \<Longrightarrow> server_inv s'"
proof (induction rule: server_step.induct)
  case (ss_handler s b service_alive)
  then show ?case by (simp add: server_inv_accept)
next
  case (ss_close s)
  then show ?case
    by (auto simp: server_inv_def server_close_def close_connection_def expired_def Let_def split: if_splits)
qed (auto simp: server_inv_def nth_list_update)

lemma server_inv_run: "server_step\<^sup>*\<^sup>* server_init s \<Longrightarrow> server_inv s"
  by (induction rule: rtranclp_induct) (auto intro: server_inv_init server_inv_step)

lemma no_more_step:
  "server_step s s' \<Longrightarrow> accepts_no_more s \<Longrightarrow> accepts_no_more s' \<and> length (conns s') = length (conns s)"
  by (induction rule: server_step.induct)
    (auto simp: accepts_no_more_def accept_handler_def server_close_def Let_def split: accept_op.splits bool.splits)

lemma no_more_run:
  "server_step\<^sup>*\<^sup>* s s' \<Longrightarrow> accepts_no_more s \<Longrightarrow> accepts_no_more s' \<and> length (conns s') = length (conns s)"
  by (induction rule: rtranclp_induct) (use no_more_step in auto)

section \<open>Properties\<close>

text \<open>A server for examples: one static route, and Beast's behaviour on keep-alive.\<close>

definition demo_env :: "unit conn_env" where
  "demo_env = \<lparr>e_iequals = (=), e_search = (\<lambda>_ _. None),
     e_http_routes = empty_table\<lparr>exact_routes := [(''/a'', [([], (), (\<lambda>q p args. ((q, p\<lparr>rs_body := ''hi''\<rparr>, False), None)))])]\<rparr>,
     e_ws_routes = empty_table, e_version = ''libasyik'',
     e_fresh = \<lparr>rs_status = 200, rs_headers = [], rs_body = [], rs_keep_alive = True\<rparr>,
     e_prepare_payload = (\<lambda>p. p), e_need_eof = (\<lambda>p. \<not> rs_keep_alive p)\<rparr>"

definition demo_req :: "string \<Rightarrow> http_req" where
  "demo_req t = \<lparr>rq_method = ''GET'', rq_target = t, rq_headers = [], rq_body = [], rq_keep_alive = True, rq_upgrade = False\<rparr>"

lemma demo_laws: "beast_laws demo_env"
  by (simp add: beast_laws_def demo_env_def)

text \<open>
  An accept that has completed when \<open>close\<close> runs still gives a connection afterwards, which stays open.
\<close>

lemma close_misses_queued_accept:
  "\<exists>s s'. server_step\<^sup>*\<^sup>* server_init s \<and> server_step (server_close s) s' \<and>
     length (conns s') = 1 \<and> c_alive (conns s' ! 0) \<and> c_open (conns s' ! 0)"
proof -
  let ?s = "server_init\<lparr>accept_state := Completed True\<rparr>"
  have "server_step\<^sup>*\<^sup>* server_init ?s" by (rule r_into_rtranclp, rule ss_incoming) (simp add: server_init_def)
  moreover have "server_step (server_close ?s) (accept_handler True (server_close ?s))"
    by (rule ss_handler [where b = True]) (simp add: server_close_def Let_def)
  moreover have "conns (accept_handler True (server_close ?s)) =
      [\<lparr>c_alive = True, is_websocket = False, ws_alive = False, c_open = True\<rparr>]"
    by (simp add: server_close_def server_init_def accept_handler_def register_connection_def start_accept_def Let_def)
  ultimately show ?thesis by (intro exI [of _ ?s] exI [of _ "accept_handler True (server_close ?s)"]) simp
qed

text \<open>
  C9. A connection serves its requests in order and without leaking state between them: what it sends is the answers to
  an initial part of the requests read, one each and in their order, each answer determined by its own request as if the
  connection's request object were new; only the last of them may ask to close; at most one websocket
  handler starts, after all answers; and when the fiber still waits for input every request read has been answered.
\<close>

theorem connection_serves_in_order:
  assumes "conn_loop env False (acquire_request env q0) evs = (acts, en)"
  shows "\<exists>k ws. acts = map (Sent \<circ> answer env) (take k evs) @ ws \<and> (ws = [] \<or> (\<exists>h args. ws = [Ws_handler h args])) \<and>
    k \<le> length evs \<and> (\<forall>ev \<in> set (take k evs). answered env ev) \<and>
    (\<forall>ev \<in> set (take (k - 1) evs). \<not> e_need_eof env (answer env ev)) \<and>
    (en = Waiting \<longrightarrow> k = length evs)"
  using conn_loop_order [OF _ assms] by (simp add: fresh_request_def acquire_request_def)

theorem connection_serves_in_order_witness:
  "\<exists>k ws. fst (conn_loop demo_env False (acquire_request demo_env (demo_req []))
       [Read_ok (demo_req ''/a'') ''rest'' True True None, Read_ok (demo_req ''/b'') [] True True None]) =
     map (Sent \<circ> answer demo_env)
       (take k [Read_ok (demo_req ''/a'') ''rest'' True True None, Read_ok (demo_req ''/b'') [] True True None]) @ ws"
  using connection_serves_in_order [OF prod.collapse [symmetric]] by blast



text \<open>
  \<open>close\<close> reaches every connection: in every state the server can reach, no connection whose object exists, websockets
  included, has an open socket after \<open>close\<close>, although the register was pruned and connections came and went; and
  unless a completed accept was waiting for its handler, no connection is ever added afterwards.
\<close>

lemma server_close_reaches_all:
  assumes "server_step\<^sup>*\<^sup>* server_init s" and "c < length (conns (server_close s))"
  shows "\<not> (c_alive (conns (server_close s) ! c) \<and> c_open (conns (server_close s) ! c)) \<and>
    (accept_state s \<noteq> Completed True \<longrightarrow>
       (\<forall>s'. server_step\<^sup>*\<^sup>* (server_close s) s' \<longrightarrow> length (conns s') = length (conns s)))"
proof -
  have "server_inv s" by (rule server_inv_run [OF assms(1)])
  then have "\<not> (c_alive (conns (server_close s) ! c) \<and> c_open (conns (server_close s) ! c))"
    using assms(2)
    by (auto simp: server_inv_def server_close_def close_connection_def expired_def Let_def split: if_splits)
  moreover have "accepts_no_more (server_close s)" if "accept_state s \<noteq> Completed True"
    using that by (cases "accept_state s") (auto simp: accepts_no_more_def server_close_def Let_def)
  moreover have "length (conns (server_close s)) = length (conns s)" by (simp add: server_close_def Let_def)
  ultimately show ?thesis using no_more_run by metis
qed

end
