(* ===== verification/Fiber_Future.thy ===== *)
theory Fiber_Future
  imports Errors
begin

text \<open>
  The completion token \<open>use_fiber_future\<close> (\<open>include/libasyik/internal/use_fiber_future.hpp\<close>,
  \<open>internal/detail/use_fiber_future_impl.hpp\<close>): how the completion of an Asio operation becomes the result of a
  future that a fiber waits for. A completion signature is the kind of its first argument and the number of the others;
  the values are of any type.
\<close>

section \<open>Promises\<close>

text \<open>
  A promise; a second \<open>set_value\<close> or \<open>set_exception\<close> throws \<open>promise_already_satisfied\<close>, which is
  \<open>None\<close>. A promise that is destroyed unsatisfied breaks its future.
\<close>

datatype 'v promise = Unset | Has_value 'v | Has_exn exn | Broken

fun set_value :: "'v \<Rightarrow> 'v promise \<Rightarrow> 'v promise option" where
  "set_value v Unset = Some (Has_value v)"
| "set_value v _ = None"

fun set_exception :: "exn \<Rightarrow> 'v promise \<Rightarrow> 'v promise option" where
  "set_exception e Unset = Some (Has_exn e)"
| "set_exception e _ = None"

fun abandon :: "'v promise \<Rightarrow> 'v promise" where
  "abandon Unset = Broken"
| "abandon p = p"

text \<open>\<open>future::get\<close>: \<open>None\<close> while the fiber waits.\<close>

datatype get_error = Thrown exn | Broken_promise

fun future_get :: "'v promise \<Rightarrow> (get_error + 'v) option" where
  "future_get Unset = None"
| "future_get (Has_value v) = Some (Inr v)"
| "future_get (Has_exn e) = Some (Inl (Thrown e))"
| "future_get Broken = Some (Inl Broken_promise)"

text \<open>\<open>get\<close> on the future of an operation that is over.\<close>

definition get_now :: "'v promise option \<Rightarrow> get_error + 'v" where
  "get_now p = (case Option.bind p future_get of Some r \<Rightarrow> r | None \<Rightarrow> Inl Broken_promise)"

section \<open>Error codes to exceptions\<close>

text \<open>\<open>msg\<close> is \<open>ec.message()\<close>.\<close>

definition error_of_code :: "(error_code \<Rightarrow> string) \<Rightarrow> error_code \<Rightarrow> exn" where
  "error_of_code msg ec =
     (if ec = Ec_timed_out \<or> ec = Ec_operation_aborted \<or> ec = Ec_beast_timeout then
        make_error Network_timeout_error ec ''[asyik::network_timeout_error]timeout error during http::async_read''
      else if ec = Ec_header_limit then
        make_error Overflow_error ec ''[asyik::overflow_error]incoming request header size is too large''
      else if ec = Ec_body_limit \<or> ec = Ec_ws_buffer_overflow \<or> ec = Ec_ws_message_too_big then
        make_error Overflow_error ec ''[asyik::overflow_error]incoming request body size is too large''
      else if ec = Ec_end_of_stream \<or> ec = Ec_stream_truncated \<or> ec = Ec_connection_reset \<or>
              ec = Ec_ws_closed \<or> ec = Ec_eof then
        make_error Already_closed_error ec ''[asyik::already_closed_error]end of stream or network connection closed''
      else if ssl_category ec \<or> stream_category ec then
        make_error Tls_error ec (''[asyik::tls_error]'' @ msg ec)
      else make_error System_error ec (msg ec))"

definition asyik_set_error :: "(error_code \<Rightarrow> string) \<Rightarrow> error_code \<Rightarrow> 'v promise \<Rightarrow> 'v promise option" where
  "asyik_set_error msg ec p = set_exception (error_of_code msg ec) p"

section \<open>Completion handlers\<close>

text \<open>The arguments of a completion, and the value a future holds: nothing, one argument, or a tuple of several.\<close>

datatype 'a args = Args "'a list" | Args_ec error_code "'a list" | Args_ex "exn option" "'a list"

datatype 'a completed = Void | One 'a | Tuple "'a list"

definition fiber_promise_handler_0 :: "'a completed promise \<Rightarrow> 'a completed promise option" where
  "fiber_promise_handler_0 p = set_value Void p"

definition fiber_promise_handler_ec_0 ::
  "(error_code \<Rightarrow> string) \<Rightarrow> error_code \<Rightarrow> 'a completed promise \<Rightarrow> 'a completed promise option"
where
  "fiber_promise_handler_ec_0 msg ec p = (if ec \<noteq> Ec_none then asyik_set_error msg ec p else set_value Void p)"

definition fiber_promise_handler_ex_0 :: "exn option \<Rightarrow> 'a completed promise \<Rightarrow> 'a completed promise option" where
  "fiber_promise_handler_ex_0 ex p = (case ex of Some e \<Rightarrow> set_exception e p | None \<Rightarrow> set_value Void p)"

definition fiber_promise_handler_1 :: "'a \<Rightarrow> 'a completed promise \<Rightarrow> 'a completed promise option" where
  "fiber_promise_handler_1 arg p = set_value (One arg) p"

definition fiber_promise_handler_ec_1 ::
  "(error_code \<Rightarrow> string) \<Rightarrow> error_code \<Rightarrow> 'a \<Rightarrow> 'a completed promise \<Rightarrow> 'a completed promise option"
where
  "fiber_promise_handler_ec_1 msg ec arg p = (if ec \<noteq> Ec_none then asyik_set_error msg ec p else set_value (One arg) p)"

definition fiber_promise_handler_ex_1 ::
  "exn option \<Rightarrow> 'a \<Rightarrow> 'a completed promise \<Rightarrow> 'a completed promise option"
where
  "fiber_promise_handler_ex_1 ex arg p = (case ex of Some e \<Rightarrow> set_exception e p | None \<Rightarrow> set_value (One arg) p)"

definition fiber_promise_handler_n :: "'a list \<Rightarrow> 'a completed promise \<Rightarrow> 'a completed promise option" where
  "fiber_promise_handler_n args p = set_value (Tuple args) p"

definition fiber_promise_handler_ec_n ::
  "(error_code \<Rightarrow> string) \<Rightarrow> error_code \<Rightarrow> 'a list \<Rightarrow> 'a completed promise \<Rightarrow> 'a completed promise option"
where
  "fiber_promise_handler_ec_n msg ec args p = (if ec \<noteq> Ec_none then asyik_set_error msg ec p else set_value (Tuple args) p)"

definition fiber_promise_handler_ex_n ::
  "exn option \<Rightarrow> 'a list \<Rightarrow> 'a completed promise \<Rightarrow> 'a completed promise option"
where
  "fiber_promise_handler_ex_n ex args p = (case ex of Some e \<Rightarrow> set_exception e p | None \<Rightarrow> set_value (Tuple args) p)"

text \<open>
  \<open>fiber_promise_handler_selector\<close>: the most specialised class for the signature of the arguments.
\<close>

fun fiber_promise_handler_call ::
  "(error_code \<Rightarrow> string) \<Rightarrow> 'a args \<Rightarrow> 'a completed promise \<Rightarrow> 'a completed promise option"
where
  "fiber_promise_handler_call msg (Args []) p = fiber_promise_handler_0 p"
| "fiber_promise_handler_call msg (Args_ec ec []) p = fiber_promise_handler_ec_0 msg ec p"
| "fiber_promise_handler_call msg (Args_ex ex []) p = fiber_promise_handler_ex_0 ex p"
| "fiber_promise_handler_call msg (Args [x]) p = fiber_promise_handler_1 x p"
| "fiber_promise_handler_call msg (Args_ec ec [x]) p = fiber_promise_handler_ec_1 msg ec x p"
| "fiber_promise_handler_call msg (Args_ex ex [x]) p = fiber_promise_handler_ex_1 ex x p"
| "fiber_promise_handler_call msg (Args (x # y # xs)) p = fiber_promise_handler_n (x # y # xs) p"
| "fiber_promise_handler_call msg (Args_ec ec (x # y # xs)) p = fiber_promise_handler_ec_n msg ec (x # y # xs) p"
| "fiber_promise_handler_call msg (Args_ex ex (x # y # xs)) p = fiber_promise_handler_ex_n ex (x # y # xs) p"

text \<open>
  \<open>fiber_promise_invoke_and_set\<close>, and the handler made by \<open>use_fiber_future(f)\<close>, which runs \<open>f\<close> on the arguments.
\<close>

definition fiber_promise_invoke_and_set :: "('a args \<Rightarrow> exn + 'v) \<Rightarrow> 'a args \<Rightarrow> 'v promise \<Rightarrow> 'v promise option" where
  "fiber_promise_invoke_and_set f args p = (case f args of Inr v \<Rightarrow> set_value v p | Inl e \<Rightarrow> set_exception e p)"

definition fiber_packaged_handler :: "('a args \<Rightarrow> exn + 'v) \<Rightarrow> 'a args \<Rightarrow> 'v promise \<Rightarrow> 'v promise option" where
  "fiber_packaged_handler fn args p = fiber_promise_invoke_and_set fn args p"

section \<open>The executor\<close>

text \<open>
  A function object submitted to the handler's executor: a step of a composed operation, which may throw, or the
  handler with its arguments. \<open>h\<close> is the handler; running it on a satisfied promise throws.
\<close>

datatype 'a job = Job_step "exn option" | Job_handler "'a args"

type_synonym ('a, 'v) handler = "'a args \<Rightarrow> 'v promise \<Rightarrow> 'v promise option"

text \<open>
  An operation under way: its promise, the objects posted to the system's thread pool, the number of live copies of the
  handler and of its executor (each holds the promise), and how many exceptions escaped from function objects.
\<close>

record ('a, 'v) async_op =
  op_promise :: "'v promise"
  op_pool :: "'a job list"
  op_holders :: nat
  op_escaped :: nat

definition create_promise :: "('a, 'v) async_op" where
  "create_promise = \<lparr>op_promise = Unset, op_pool = [], op_holders = 1, op_escaped = 0\<rparr>"

text \<open>\<open>fiber_promise_invoker\<close>: an exception goes to the promise; when that is satisfied already, it escapes.\<close>

definition fiber_promise_invoker :: "('a, 'v) handler \<Rightarrow> 'a job \<Rightarrow> 'v promise \<Rightarrow> 'v promise option" where
  "fiber_promise_invoker h j p =
     (case j of
        Job_step None \<Rightarrow> Some p
      | Job_step (Some e) \<Rightarrow> set_exception e p
      | Job_handler args \<Rightarrow> h args p)"

definition executor_dispatch :: "('a, 'v) handler \<Rightarrow> 'a job \<Rightarrow> ('a, 'v) async_op \<Rightarrow> ('a, 'v) async_op" where
  "executor_dispatch h j s =
     (case fiber_promise_invoker h j (op_promise s) of
        Some p \<Rightarrow> s\<lparr>op_promise := p\<rparr>
      | None \<Rightarrow> s\<lparr>op_escaped := Suc (op_escaped s)\<rparr>)"

definition executor_post :: "'a job \<Rightarrow> ('a, 'v) async_op \<Rightarrow> ('a, 'v) async_op" where
  "executor_post j s = s\<lparr>op_pool := op_pool s @ [j]\<rparr>"

definition executor_defer :: "'a job \<Rightarrow> ('a, 'v) async_op \<Rightarrow> ('a, 'v) async_op" where
  "executor_defer j s = s\<lparr>op_pool := op_pool s @ [j]\<rparr>"

text \<open>\<open>execute\<close>: with \<open>blocking.never\<close> through the pool, otherwise the system executor may run it at once.\<close>

datatype blocking = Possibly | Never

definition executor_execute ::
  "('a, 'v) handler \<Rightarrow> blocking \<Rightarrow> 'a job \<Rightarrow> ('a, 'v) async_op \<Rightarrow> ('a, 'v) async_op"
where
  "executor_execute h b j s = (case b of Possibly \<Rightarrow> executor_dispatch h j s | Never \<Rightarrow> executor_post j s)"

text \<open>The last reference to the promise goes away.\<close>

definition drop_reference :: "('a, 'v) async_op \<Rightarrow> ('a, 'v) async_op" where
  "drop_reference s = (if op_holders s = 0 \<and> op_pool s = [] then s\<lparr>op_promise := abandon (op_promise s)\<rparr> else s)"

text \<open>
  What can happen to an operation: its handler or executor is copied, a function object is submitted in one of the four ways, the pool
  runs one, and a copy is destroyed.
\<close>

inductive op_step :: "('a, 'v) handler \<Rightarrow> ('a, 'v) async_op \<Rightarrow> ('a, 'v) async_op \<Rightarrow> bool" for h where
  as_copy: "0 < op_holders s \<Longrightarrow> op_step h s (s\<lparr>op_holders := Suc (op_holders s)\<rparr>)"
| as_dispatch: "0 < op_holders s \<Longrightarrow> op_step h s (executor_dispatch h j s)"
| as_execute: "0 < op_holders s \<Longrightarrow> op_step h s (executor_execute h b j s)"
| as_post: "0 < op_holders s \<Longrightarrow> op_step h s (executor_post j s)"
| as_defer: "0 < op_holders s \<Longrightarrow> op_step h s (executor_defer j s)"
| as_pool: "op_pool s = js @ j # ks \<Longrightarrow> op_step h s (drop_reference (executor_dispatch h j (s\<lparr>op_pool := js @ ks\<rparr>)))"
| as_destroy: "0 < op_holders s \<Longrightarrow> op_step h s (drop_reference (s\<lparr>op_holders := op_holders s - 1\<rparr>))"

text \<open>The arguments a completion carries beside its status, what the status says, and the type of the future's result.\<close>

fun arg_values :: "'a args \<Rightarrow> 'a list" where
  "arg_values (Args vs) = vs"
| "arg_values (Args_ec ec vs) = vs"
| "arg_values (Args_ex ex vs) = vs"

fun arg_error :: "(error_code \<Rightarrow> string) \<Rightarrow> 'a args \<Rightarrow> exn option" where
  "arg_error msg (Args vs) = None"
| "arg_error msg (Args_ec ec vs) = (if ec = Ec_none then None else Some (error_of_code msg ec))"
| "arg_error msg (Args_ex ex vs) = ex"

fun has_type :: "nat \<Rightarrow> 'a completed \<Rightarrow> bool" where
  "has_type n Void \<longleftrightarrow> n = 0"
| "has_type n (One v) \<longleftrightarrow> n = 1"
| "has_type n (Tuple vs) \<longleftrightarrow> n = length vs \<and> 2 \<le> n"

fun components :: "'a completed \<Rightarrow> 'a list" where
  "components Void = []"
| "components (One v) = [v]"
| "components (Tuple vs) = vs"

section \<open>Lemmas\<close>

lemma future_get_None: "future_get p = None \<longleftrightarrow> p = Unset"
  by (cases p) simp_all

lemma future_get_Broken: "future_get p = Some (Inl Broken_promise) \<longleftrightarrow> p = Broken"
  by (cases p) simp_all

lemma set_value_Unset: "set_value v p = Some q \<longleftrightarrow> p = Unset \<and> q = Has_value v"
  by (cases p) auto

lemma set_exception_Unset: "set_exception e p = Some q \<longleftrightarrow> p = Unset \<and> q = Has_exn e"
  by (cases p) auto

lemmas handler_defs =
  fiber_promise_handler_0_def fiber_promise_handler_ec_0_def fiber_promise_handler_ex_0_def
  fiber_promise_handler_1_def fiber_promise_handler_ec_1_def fiber_promise_handler_ex_1_def
  fiber_promise_handler_n_def fiber_promise_handler_ec_n_def fiber_promise_handler_ex_n_def asyik_set_error_def

text \<open>What a handler promises: it satisfies a fresh promise, and touches no other.\<close>

locale completion_handler =
  fixes h :: "('a, 'v) handler"
  assumes fulfils: "\<exists>p. h args Unset = Some p \<and> p \<noteq> Unset \<and> p \<noteq> Broken"
    and refuses: "p \<noteq> Unset \<Longrightarrow> h args p = None"
begin

lemma invoker_keeps: "p \<noteq> Unset \<Longrightarrow> fiber_promise_invoker h j p \<in> {None, Some p}"
  by (cases p) (auto simp: fiber_promise_invoker_def refuses split: job.split option.split)

lemma dispatch_keeps: "op_promise s \<noteq> Unset \<Longrightarrow> op_promise (executor_dispatch h j s) = op_promise s"
  using invoker_keeps [of "op_promise s" j] by (auto simp: executor_dispatch_def)

lemma dispatch_handler_settles: "op_promise (executor_dispatch h (Job_handler args) s) \<noteq> Unset"
  using fulfils [of args] refuses [of "op_promise s" args]
  by (cases "op_promise s = Unset") (auto simp: executor_dispatch_def fiber_promise_invoker_def split: option.split)

lemma drop_keeps: "op_promise s \<noteq> Unset \<Longrightarrow> op_promise (drop_reference s) = op_promise s"
  by (cases "op_promise s") (auto simp: drop_reference_def)

lemma step_keeps: "op_step h s s' \<Longrightarrow> op_promise s \<noteq> Unset \<Longrightarrow> op_promise s' = op_promise s"
  by (induction rule: op_step.induct)
    (auto simp: dispatch_keeps drop_keeps executor_execute_def executor_post_def executor_defer_def split: blocking.split)

text \<open>A result is never taken back or replaced.\<close>

lemma single_assignment: "(op_step h)\<^sup>*\<^sup>* s s' \<Longrightarrow> op_promise s \<noteq> Unset \<Longrightarrow> op_promise s' = op_promise s"
  by (induction rule: rtranclp_induct) (auto dest: step_keeps)

definition referenced :: "('a, 'v) async_op \<Rightarrow> bool" where
  "referenced s \<longleftrightarrow> (op_holders s = 0 \<and> op_pool s = [] \<longrightarrow> op_promise s \<noteq> Unset) \<and>
     (op_promise s = Broken \<longrightarrow> op_holders s = 0 \<and> op_pool s = [])"

lemma dispatch_fields [simp]:
  "op_holders (executor_dispatch h j s) = op_holders s" "op_pool (executor_dispatch h j s) = op_pool s"
  by (simp_all add: executor_dispatch_def split: option.split)

lemma invoker_not_broken: "fiber_promise_invoker h j p = Some Broken \<Longrightarrow> p = Broken"
  using fulfils refuses
  by (cases "p = Unset") (auto simp: fiber_promise_invoker_def set_exception_Unset split: job.splits option.splits,
    metis option.inject)

lemma dispatch_broken: "op_promise (executor_dispatch h j s) = Broken \<Longrightarrow> op_promise s = Broken"
  using invoker_not_broken [of j "op_promise s"] by (auto simp: executor_dispatch_def split: option.splits)

lemma drop_referenced: "op_promise s \<noteq> Broken \<Longrightarrow> referenced (drop_reference s)"
  by (cases "op_promise s") (auto simp: drop_reference_def referenced_def)

lemma step_referenced: "op_step h s s' \<Longrightarrow> referenced s \<Longrightarrow> referenced s'"
proof (induction rule: op_step.induct)
  case (as_pool s js j ks)
  then have "op_promise s \<noteq> Broken" by (auto simp: referenced_def)
  then show ?case using dispatch_broken by (intro drop_referenced) fastforce
next
  case (as_destroy s)
  then show ?case by (intro drop_referenced) (auto simp: referenced_def)
qed (auto simp: referenced_def executor_execute_def executor_post_def executor_defer_def
    dest: dispatch_broken split: blocking.split)

lemma run_referenced: "(op_step h)\<^sup>*\<^sup>* create_promise s \<Longrightarrow> referenced s"
proof (induction rule: rtranclp_induct)
  case base
  then show ?case by (simp add: create_promise_def referenced_def)
next
  case (step s s')
  then show ?case using step_referenced by blast
qed

end

interpretation ch: completion_handler "fiber_promise_handler_call msg"
proof
  show "\<exists>p. fiber_promise_handler_call msg args Unset = Some p \<and> p \<noteq> Unset \<and> p \<noteq> Broken" for args :: "'a args"
    by (cases "(msg, args, Unset :: 'a completed promise)" rule: fiber_promise_handler_call.cases)
      (auto simp: handler_defs split: option.split)
  show "fiber_promise_handler_call msg args p = None" if "p \<noteq> Unset" for args :: "'a args" and p
  proof -
    have "set_value v p = None" "set_exception e p = None" for v e using that by (cases p; simp)+
    then show ?thesis
      by (cases "(msg, args, p)" rule: fiber_promise_handler_call.cases) (auto simp: handler_defs split: option.split)
  qed
qed

interpretation pk: completion_handler "fiber_packaged_handler f"
proof
  show "\<exists>p. fiber_packaged_handler f args Unset = Some p \<and> p \<noteq> Unset \<and> p \<noteq> Broken" for args
    by (simp add: fiber_packaged_handler_def fiber_promise_invoke_and_set_def split: sum.split)
  show "fiber_packaged_handler f args p = None" if "p \<noteq> Unset" for args p
    using that by (cases p) (simp_all add: fiber_packaged_handler_def fiber_promise_invoke_and_set_def split: sum.split)
qed


lemma error_of_code_code [simp]: "exn_code (error_of_code msg ec) = ec"
  by (simp add: error_of_code_def make_error_def)

lemma handler_call_Unset:
  "fiber_promise_handler_call msg args Unset =
     Some (case arg_error msg args of
             Some e \<Rightarrow> Has_exn e
           | None \<Rightarrow> Has_value (case arg_values args of [] \<Rightarrow> Void | [v] \<Rightarrow> One v | vs \<Rightarrow> Tuple vs))"
  by (cases "(msg, args, Unset :: 'a completed promise)" rule: fiber_promise_handler_call.cases)
    (auto simp: handler_defs split: option.split)

declare fiber_promise_handler_call.simps [simp del]

lemma get_now_call [simp]:
  "get_now (fiber_promise_handler_call msg (Args_ec ec vs) Unset) =
     (if ec = Ec_none then Inr (case vs of [] \<Rightarrow> Void | [v] \<Rightarrow> One v | _ \<Rightarrow> Tuple vs) else Inl (Thrown (error_of_code msg ec)))"
  by (auto simp: get_now_def handler_call_Unset split: list.split)

lemma sample_run:
  defines "h \<equiv> fiber_promise_handler_call (\<lambda>ec. [])"
  shows "(op_step h)\<^sup>*\<^sup>* create_promise
     \<lparr>op_promise = Has_value (One (7 :: nat)), op_pool = [], op_holders = 0, op_escaped = 0\<rparr>"
proof -
  let ?j = "Job_handler (Args_ec Ec_none [7 :: nat])"
  let ?s = "executor_post ?j create_promise :: (nat, nat completed) async_op"
  let ?t = "drop_reference (?s\<lparr>op_holders := op_holders ?s - 1\<rparr>)"
  let ?u = "drop_reference (executor_dispatch h ?j (?t\<lparr>op_pool := [] @ []\<rparr>))"
  have "op_step h create_promise ?s" by (rule as_post) (simp add: create_promise_def)
  moreover have "op_step h ?s ?t" by (rule as_destroy) (simp add: create_promise_def executor_post_def)
  moreover have "op_step h ?t ?u"
    by (rule as_pool) (simp add: create_promise_def executor_post_def drop_reference_def)
  ultimately have "(op_step h)\<^sup>*\<^sup>* create_promise ?u" by (meson converse_rtranclp_into_rtranclp rtranclp.rtrancl_refl)
  then show ?thesis
    by (simp add: h_def create_promise_def executor_post_def drop_reference_def executor_dispatch_def
        fiber_promise_invoker_def handler_call_Unset)
qed

section \<open>Properties\<close>

text \<open>
  C29. An asynchronous operation started with \<open>use_fiber_future\<close> settles: in every state it can reach, once no
  copy of its handler is left and the pool is empty, the future has a result (if need be a broken promise), the promise is
  broken in no other state, running the handler gives the future a result, and a result stays the same whatever is submitted
  or destroyed afterwards.
\<close>

theorem async_operation_settles:
  assumes "(op_step (fiber_promise_handler_call msg))\<^sup>*\<^sup>* create_promise s"
  shows "(op_holders s = 0 \<and> op_pool s = [] \<longrightarrow> future_get (op_promise s) \<noteq> None) \<and>
    (future_get (op_promise s) = Some (Inl Broken_promise) \<longrightarrow> op_holders s = 0 \<and> op_pool s = []) \<and>
    future_get (op_promise (executor_dispatch (fiber_promise_handler_call msg) (Job_handler args) s)) \<noteq> None \<and>
    (\<forall>s' r. (op_step (fiber_promise_handler_call msg))\<^sup>*\<^sup>* s s' \<and> future_get (op_promise s) = Some r
       \<longrightarrow> future_get (op_promise s') = Some r)"
proof -
  have "ch.referenced s" using assms by (rule ch.run_referenced)
  moreover have "op_promise s' = op_promise s"
    if "(op_step (fiber_promise_handler_call msg))\<^sup>*\<^sup>* s s'" "future_get (op_promise s) = Some r" for s' r
    using that by (intro ch.single_assignment) auto
  ultimately show ?thesis
    using ch.dispatch_handler_settles [of msg args s] unfolding ch.referenced_def future_get_None future_get_Broken by metis
qed

theorem async_operation_settles_witness:
  "future_get (op_promise \<lparr>op_promise = Has_value (One (7 :: nat)), op_pool = ([] :: nat job list), op_holders = 0,
     op_escaped = 0\<rparr>) \<noteq> None"
  using async_operation_settles [OF sample_run, of "Args []"] by simp

text \<open>
  C39. The result has the type of the completion signature and the arguments in order: a completion fulfils a fresh
  promise with the exception of its status if that is an error, and otherwise with nothing, one value or a tuple according
  to the number of arguments.
\<close>

theorem completion_typed:
  "\<exists>p. fiber_promise_handler_call msg args Unset = Some p \<and>
     (case arg_error msg args of
        Some e \<Rightarrow> future_get p = Some (Inl (Thrown e))
      | None \<Rightarrow> \<exists>v. future_get p = Some (Inr v) \<and> has_type (length (arg_values args)) v \<and> components v = arg_values args)"
  by (auto simp: handler_call_Unset split: option.split list.split)

text \<open>
  A completion with an error code fulfils a fresh promise exactly once: with the value on success and
  otherwise with an exception that carries the code: a timeout or cancellation is a network timeout, a
  limit that was exceeded is an input error, the end of the stream is \<open>already_closed_error\<close>, any
  other TLS code is a TLS error; completing again is refused.
\<close>

lemma completion_delivers:
  "\<exists>p. fiber_promise_handler_call msg (Args_ec ec vs) Unset = Some p \<and>
     fiber_promise_handler_call msg args p = None \<and>
     (case future_get p of
        None \<Rightarrow> False
      | Some (Inr v) \<Rightarrow> ec = Ec_none \<and> components v = vs
      | Some (Inl Broken_promise) \<Rightarrow> False
      | Some (Inl (Thrown e)) \<Rightarrow> ec \<noteq> Ec_none \<and> exn_code e = ec \<and>
          (ec \<in> {Ec_timed_out, Ec_operation_aborted, Ec_beast_timeout} \<longleftrightarrow> exn_class e \<le> Network_timeout_error) \<and>
          (ec \<in> {Ec_header_limit, Ec_body_limit, Ec_ws_buffer_overflow, Ec_ws_message_too_big}
             \<longleftrightarrow> exn_class e \<le> Input_error) \<and>
          (ec \<in> {Ec_end_of_stream, Ec_stream_truncated, Ec_connection_reset, Ec_ws_closed, Ec_eof}
             \<longleftrightarrow> exn_class e \<le> Already_closed_error) \<and>
          ((ssl_category ec \<or> stream_category ec) \<and> ec \<noteq> Ec_stream_truncated \<longleftrightarrow> exn_class e \<le> Tls_error))"
proof -
  have again: "fiber_promise_handler_call msg args (Has_value w) = None"
    "fiber_promise_handler_call msg args (Has_exn e) = None" for w e
    by (simp_all add: ch.refuses)
  show ?thesis
    by (cases ec) (auto simp: again handler_call_Unset error_of_code_def make_error_def less_eq_error_class_def
        caught_by_classes split: list.split)
qed

end
