(* ===== verification/Websocket.thy ===== *)
theory Websocket
  imports Fiber_Future
begin

text \<open>
  Messages on an open websocket (\<open>include/libasyik/http_websocket.hpp\<close>) and the wrappers of its operations
  (\<open>internal/asio_internal.hpp\<close>). Beast's websocket stream is outside the library: its operations are the record
  \<open>ws_stream\<close>, on a state \<open>'w\<close> of both ends of the connection; \<open>ws_channel\<close> states what Beast documents of them. A byte
  is a character.
\<close>

section \<open>The stream\<close>

record ws_timeout =
  handshake_timeout :: int
  idle_timeout :: int
  keep_alive_pings :: bool

text \<open>
  The stream's operations at one end. A read is given the largest size of its buffer (none for a string) and completes with
  an error code and the bytes put into the buffer; a close completes with a code or not within two seconds.
\<close>

record ('e, 'w) ws_stream =
  st_binary :: "'e \<Rightarrow> bool \<Rightarrow> 'w \<Rightarrow> 'w"
  st_got_binary :: "'e \<Rightarrow> 'w \<Rightarrow> bool"
  st_read :: "'e \<Rightarrow> nat option \<Rightarrow> 'w \<Rightarrow> (error_code \<times> string) \<times> 'w"
  st_write :: "'e \<Rightarrow> string \<Rightarrow> 'w \<Rightarrow> error_code \<times> 'w"
  st_get_option :: "'e \<Rightarrow> 'w \<Rightarrow> ws_timeout"
  st_set_option :: "'e \<Rightarrow> ws_timeout \<Rightarrow> 'w \<Rightarrow> 'w"
  st_cancel :: "'e \<Rightarrow> 'w \<Rightarrow> 'w"
  st_close :: "'e \<Rightarrow> nat \<times> string \<Rightarrow> 'w \<Rightarrow> error_code option \<times> 'w"

section \<open>The wrappers\<close>

text \<open>Each starts the operation with \<open>use_fiber_future\<close> and returns the future; the buffer is filled on the side.\<close>

definition ws_async_read ::
  "('e, 'w) ws_stream \<Rightarrow> (error_code \<Rightarrow> string) \<Rightarrow> 'e \<Rightarrow> nat option \<Rightarrow> 'w \<Rightarrow>
     (nat completed promise option \<times> string) \<times> 'w"
where
  "ws_async_read st msg e cap w =
     (let ((ec, d), w1) = st_read st e cap w
      in ((fiber_promise_handler_call msg (Args_ec ec [length d]) Unset, d), w1))"

definition ws_async_write ::
  "('e, 'w) ws_stream \<Rightarrow> (error_code \<Rightarrow> string) \<Rightarrow> 'e \<Rightarrow> string \<Rightarrow> 'w \<Rightarrow> nat completed promise option \<times> 'w"
where
  "ws_async_write st msg e d w =
     (let (ec, w1) = st_write st e d w in (fiber_promise_handler_call msg (Args_ec ec [length d]) Unset, w1))"

text \<open>A close that is not over within two seconds leaves its promise unset.\<close>

definition ws_async_close ::
  "('e, 'w) ws_stream \<Rightarrow> (error_code \<Rightarrow> string) \<Rightarrow> 'e \<Rightarrow> nat \<times> string \<Rightarrow> 'w \<Rightarrow> unit completed promise option \<times> 'w"
where
  "ws_async_close st msg e cr w =
     (case st_close st e cr w of
        (None, w1) \<Rightarrow> (Some Unset, w1)
      | (Some ec, w1) \<Rightarrow> (fiber_promise_handler_call msg (Args_ec ec []) Unset, w1))"

text \<open>\<open>asio::dispatch(executor, use_fiber_future(f)).get()\<close> for a function that returns a future.\<close>

definition dispatched :: "'f \<Rightarrow> get_error + 'f" where
  "dispatched fut = get_now (fiber_packaged_handler (\<lambda>_. Inr fut) (Args ([] :: unit list)) Unset)"

section \<open>Messages\<close>

definition unexpected_binary :: exn where
  "unexpected_binary = make_error Unexpected_error Ec_shut_down ''unexpected binary message when get_string()''"

definition get_string ::
  "('e, 'w) ws_stream \<Rightarrow> (error_code \<Rightarrow> string) \<Rightarrow> 'e \<Rightarrow> 'w \<Rightarrow> (get_error + string) \<times> 'w"
where
  "get_string st msg e w =
     (let ((fut, message), w1) = ws_async_read st msg e None w
      in (case dispatched fut of
            Inl x \<Rightarrow> Inl x
          | Inr f \<Rightarrow> (case get_now f of
                Inl x \<Rightarrow> Inl x
              | Inr _ \<Rightarrow> if st_got_binary st e w1 then Inl (Thrown unexpected_binary) else Inr message), w1))"

definition send_string ::
  "('e, 'w) ws_stream \<Rightarrow> (error_code \<Rightarrow> string) \<Rightarrow> 'e \<Rightarrow> string \<Rightarrow> 'w \<Rightarrow> (get_error + unit) \<times> 'w"
where
  "send_string st msg e s w =
     (let (fut, w1) = ws_async_write st msg e s (st_binary st e False w)
      in (case get_now fut of Inl x \<Rightarrow> Inl x | Inr _ \<Rightarrow> Inr (), w1))"

text \<open>\<open>read_basic_buffer\<close> fills the vector it is given from the front; the result is the size and the vector.\<close>

definition read_basic_buffer ::
  "('e, 'w) ws_stream \<Rightarrow> (error_code \<Rightarrow> string) \<Rightarrow> 'e \<Rightarrow> string \<Rightarrow> 'w \<Rightarrow> ((get_error + nat completed) \<times> string) \<times> 'w"
where
  "read_basic_buffer st msg e b w =
     (let ((fut, d), w1) = ws_async_read st msg e (Some (length b)) w
      in ((case dispatched fut of Inl x \<Rightarrow> Inl x | Inr f \<Rightarrow> get_now f, d @ drop (length d) b), w1))"

definition write_basic_buffer ::
  "('e, 'w) ws_stream \<Rightarrow> (error_code \<Rightarrow> string) \<Rightarrow> 'e \<Rightarrow> string \<Rightarrow> 'w \<Rightarrow> (get_error + unit) \<times> 'w"
where
  "write_basic_buffer st msg e b w =
     (let (fut, w1) = ws_async_write st msg e b (st_binary st e True w)
      in (case get_now fut of Inl x \<Rightarrow> Inl x | Inr _ \<Rightarrow> Inr (), w1))"

definition set_keepalive_pings :: "('e, 'w) ws_stream \<Rightarrow> 'e \<Rightarrow> bool \<Rightarrow> 'w \<Rightarrow> 'w" where
  "set_keepalive_pings st e b w = st_set_option st e ((st_get_option st e w)\<lparr>keep_alive_pings := b\<rparr>) w"

text \<open>The timeout is in seconds.\<close>

definition set_idle_timeout :: "('e, 'w) ws_stream \<Rightarrow> 'e \<Rightarrow> int \<Rightarrow> 'w \<Rightarrow> 'w" where
  "set_idle_timeout st e t w = st_set_option st e ((st_get_option st e w)\<lparr>idle_timeout := t\<rparr>) w"

text \<open>
  \<open>close\<close> cancels what the socket is doing, starts the closing handshake and waits two seconds for it; every exception is
  swallowed, so that its outcome is the new state and whether the handshake was seen to succeed.
\<close>

definition ws_close ::
  "('e, 'w) ws_stream \<Rightarrow> (error_code \<Rightarrow> string) \<Rightarrow> 'e \<Rightarrow> nat \<Rightarrow> string \<Rightarrow> 'w \<Rightarrow> bool \<times> 'w"
where
  "ws_close st msg e code reason w =
     (let (fut, w1) = ws_async_close st msg e (code, reason) (st_cancel st e w)
      in (case dispatched fut of
            Inl _ \<Rightarrow> False
          | Inr f \<Rightarrow> Option.bind f future_get \<noteq> None \<and> \<not> isl (get_now f), w1))"

definition ws_close_normal :: "('e, 'w) ws_stream \<Rightarrow> (error_code \<Rightarrow> string) \<Rightarrow> 'e \<Rightarrow> nat \<Rightarrow> 'w \<Rightarrow> bool \<times> 'w" where
  "ws_close_normal st msg e code w = ws_close st msg e code ''NORMAL'' w"

section \<open>Specification\<close>

text \<open>
  What Beast documents of two connected ends: \<open>inbox w e\<close> are the messages on their way to \<open>e\<close> with their kinds,
  \<open>mode w e\<close> is the kind of the next message \<open>e\<close> writes, and \<open>mx\<close> bounds the size of a message (\<open>read_message_max\<close>). A
  message written arrives at the other end; a read takes the next one whole if its buffer is large enough, and fails with
  \<open>buffer_overflow\<close> if not.
\<close>

definition ws_channel ::
  "('e, 'w) ws_stream \<Rightarrow> ('e \<Rightarrow> 'e) \<Rightarrow> ('w \<Rightarrow> 'e \<Rightarrow> (bool \<times> string) list) \<Rightarrow> ('w \<Rightarrow> 'e \<Rightarrow> bool) \<Rightarrow> nat \<Rightarrow> bool"
where
  "ws_channel st peer inbox mode mx \<longleftrightarrow>
     (\<forall>e b w. mode (st_binary st e b w) e = b \<and> inbox (st_binary st e b w) = inbox w) \<and>
     (\<forall>e d w w'. st_write st e d w = (Ec_none, w') \<longrightarrow>
        inbox w' = (inbox w)(peer e := inbox w (peer e) @ [(mode w e, d)])) \<and>
     (\<forall>e cap w b d ms. inbox w e = (b, d) # ms \<and> length d \<le> mx \<longrightarrow>
        (if cap = None \<or> length d \<le> the cap \<and> 0 < the cap
         then \<exists>w'. st_read st e cap w = ((Ec_none, d), w') \<and> inbox w' = (inbox w)(e := ms) \<and> st_got_binary st e w' = b
         else \<exists>d' w'. st_read st e cap w = ((Ec_ws_buffer_overflow, d'), w') \<and> length d' \<le> the cap))"

text \<open>A sequence of messages is sent, text ones by \<open>send_string\<close>, until an exception.\<close>

fun send_all ::
  "('e, 'w) ws_stream \<Rightarrow> (error_code \<Rightarrow> string) \<Rightarrow> 'e \<Rightarrow> (bool \<times> string) list \<Rightarrow> 'w \<Rightarrow> (get_error + unit) \<times> 'w"
where
  "send_all st msg e [] w = (Inr (), w)"
| "send_all st msg e ((b, d) # ms) w =
     (case (if b then write_basic_buffer st msg e d w else send_string st msg e d w) of
        (Inl x, w1) \<Rightarrow> (Inl x, w1)
      | (Inr _, w1) \<Rightarrow> send_all st msg e ms w1)"

text \<open>A sequence of reads, by \<open>get_string\<close> or into a vector; the bytes read are the front of the vector.\<close>

fun receive_all ::
  "('e, 'w) ws_stream \<Rightarrow> (error_code \<Rightarrow> string) \<Rightarrow> 'e \<Rightarrow> string option list \<Rightarrow> 'w \<Rightarrow> (get_error + string) list"
where
  "receive_all st msg e [] w = []"
| "receive_all st msg e (None # rs) w =
     (let (r, w1) = get_string st msg e w in r # receive_all st msg e rs w1)"
| "receive_all st msg e (Some v # rs) w =
     (let ((r, v1), w1) = read_basic_buffer st msg e v w
      in (case r of Inl x \<Rightarrow> Inl x | Inr n \<Rightarrow> Inr (take (sum_list (components n)) v1)) # receive_all st msg e rs w1)"

text \<open>The result a read should have, and which reads have room.\<close>

fun expected :: "bool \<times> string \<Rightarrow> string option \<Rightarrow> get_error + string" where
  "expected (b, d) None = (if b then Inl (Thrown unexpected_binary) else Inr d)"
| "expected (b, d) (Some v) = Inr d"

fun has_room :: "bool \<times> string \<Rightarrow> string option \<Rightarrow> bool" where
  "has_room (b, d) None = True"
| "has_room (b, d) (Some v) = (length d \<le> length v \<and> v \<noteq> [])"

text \<open>A channel in memory: both ends' messages, modes, kinds of the last message read and timeouts.\<close>

record mem_channel =
  mc_inbox :: "bool \<Rightarrow> (bool \<times> string) list"
  mc_mode :: "bool \<Rightarrow> bool"
  mc_got :: "bool \<Rightarrow> bool"
  mc_timeout :: "bool \<Rightarrow> ws_timeout"

definition mem_stream :: "(bool, mem_channel) ws_stream" where
  "mem_stream =
     \<lparr>st_binary = (\<lambda>e b w. w\<lparr>mc_mode := (mc_mode w)(e := b)\<rparr>),
      st_got_binary = (\<lambda>e w. mc_got w e),
      st_read = (\<lambda>e cap w.
        (case mc_inbox w e of
           [] \<Rightarrow> ((Ec_beast_timeout, []), w)
         | (b, d) # ms \<Rightarrow>
             if cap = None \<or> length d \<le> the cap \<and> 0 < the cap
             then ((Ec_none, d), w\<lparr>mc_inbox := (mc_inbox w)(e := ms), mc_got := (mc_got w)(e := b)\<rparr>)
             else ((Ec_ws_buffer_overflow, take (the cap) d), w))),
      st_write = (\<lambda>e d w. (Ec_none, w\<lparr>mc_inbox := (mc_inbox w)(\<not> e := mc_inbox w (\<not> e) @ [(mc_mode w e, d)])\<rparr>)),
      st_get_option = (\<lambda>e w. mc_timeout w e),
      st_set_option = (\<lambda>e t w. w\<lparr>mc_timeout := (mc_timeout w)(e := t)\<rparr>),
      st_cancel = (\<lambda>e w. w),
      st_close = (\<lambda>e cr w. (Some Ec_none, w))\<rparr>"

definition mem_init :: mem_channel where
  "mem_init = \<lparr>mc_inbox = (\<lambda>_. []), mc_mode = (\<lambda>_. False), mc_got = (\<lambda>_. False),
     mc_timeout = (\<lambda>_. \<lparr>handshake_timeout = 30, idle_timeout = 300, keep_alive_pings = False\<rparr>)\<rparr>"

section \<open>Lemmas\<close>

lemma dispatched_future [simp]: "dispatched fut = Inr fut"
  by (simp add: dispatched_def get_now_def fiber_packaged_handler_def fiber_promise_invoke_and_set_def)

lemmas ws_ops_defs =
  get_string_def send_string_def read_basic_buffer_def write_basic_buffer_def ws_async_read_def ws_async_write_def

lemma send_message:
  assumes "ws_channel st peer inbox mode mx"
    and "(if b then write_basic_buffer st msg e d w else send_string st msg e d w) = (Inr u, w')"
  shows "inbox w' = (inbox w)(peer e := inbox w (peer e) @ [(b, d)])"
proof -
  have "st_write st e d (st_binary st e b w) = (Ec_none, w')"
    using assms(2) by (auto simp: ws_ops_defs Let_def case_prod_beta prod_eq_iff split: if_splits)
  then have "inbox w' = (inbox (st_binary st e b w))(peer e := inbox (st_binary st e b w) (peer e) @ [(mode (st_binary st e b w) e, d)])"
    using assms(1) unfolding ws_channel_def by blast
  then show ?thesis using assms(1) by (simp add: ws_channel_def)
qed

lemma send_all_inbox:
  assumes "ws_channel st peer inbox mode mx" and "send_all st msg e ms w = (Inr u, w')"
  shows "inbox w' = (inbox w)(peer e := inbox w (peer e) @ ms)"
  using assms(2)
proof (induction ms arbitrary: w)
  case (Cons m ms)
  obtain b d where m: "m = (b, d)" by force
  from Cons.prems obtain w1 where
    "(if b then write_basic_buffer st msg e d w else send_string st msg e d w) = (Inr (), w1)"
    and "send_all st msg e ms w1 = (Inr u, w')"
    by (auto simp: m split: prod.splits sum.splits)
  from send_message [OF assms(1) this(1)] Cons.IH [OF this(2)] show ?case by (simp add: m fun_eq_iff)
qed simp

text \<open>A read with enough room: the stream's answer.\<close>

lemma channel_read:
  assumes "ws_channel st peer inbox mode mx" and "inbox w e = (b, d) # ms" and "length d \<le> mx"
    and "cap = None \<or> length d \<le> the cap \<and> 0 < the cap"
  obtains w' where "st_read st e cap w = ((Ec_none, d), w')" "inbox w' = (inbox w)(e := ms)" "st_got_binary st e w' = b"
  using assms unfolding ws_channel_def by (metis (mono_tags, lifting))

lemma receive_expected:
  assumes "ws_channel st peer inbox mode mx" and "inbox w e = ms" and "list_all (\<lambda>m. length (snd m) \<le> mx) ms"
    and "list_all2 has_room ms rs"
  shows "receive_all st msg e rs w = map2 expected ms rs"
  using assms(4,2,3)
proof (induction arbitrary: w rule: list_all2_induct)
  case (Cons m ms r rs)
  obtain b d where m: "m = (b, d)" by force
  have "map_option length r = None \<or> length d \<le> the (map_option length r) \<and> 0 < the (map_option length r)"
    using Cons.hyps(1) by (cases r) (auto simp: m)
  from channel_read [OF assms(1) _ _ this, of w e b ms] Cons.prems obtain w' where
    w': "st_read st e (map_option length r) w = ((Ec_none, d), w')" "inbox w' = (inbox w)(e := ms)" "st_got_binary st e w' = b"
    by (auto simp: m)
  have "receive_all st msg e rs w' = map2 expected ms rs" using Cons.IH [of w'] Cons.prems w'(2) by simp
  then show ?case using w' by (cases r) (simp_all add: ws_ops_defs m Let_def)
qed simp

lemma mem_stream_channel: "ws_channel mem_stream Not mc_inbox mc_mode mx"
  by (auto simp: ws_channel_def mem_stream_def)

lemma get_option_kept:
  assumes "\<And>t w. st_get_option st e (st_set_option st e t w) = t"
  shows "st_get_option st e (set_idle_timeout st e t (set_keepalive_pings st e b w)) =
    (st_get_option st e w)\<lparr>keep_alive_pings := b, idle_timeout := t\<rparr>"
  by (simp add: set_idle_timeout_def set_keepalive_pings_def assms)

text \<open>
  A vector that is too small is an error and not a cut message: \<open>read_basic_buffer\<close> then throws \<open>overflow_error\<close> with
  Beast's code, and the vector keeps its size.
\<close>

lemma small_buffer_overflows:
  assumes "ws_channel st peer inbox mode mx" and "inbox w e = (k, d) # ms" and "length d \<le> mx"
    and "length b < length d"
  shows "\<exists>b' w' x. read_basic_buffer st msg e b w = ((Inl (Thrown x), b'), w') \<and> length b' = length b \<and>
    exn_class x = Overflow_error \<and> exn_code x = Ec_ws_buffer_overflow"
proof -
  have "\<not> (Some (length b) = None \<or> length d \<le> the (Some (length b)) \<and> 0 < the (Some (length b)))" using assms(4) by simp
  with assms(1-3) obtain d' w' where
    "st_read st e (Some (length b)) w = ((Ec_ws_buffer_overflow, d'), w')" "length d' \<le> length b"
    unfolding ws_channel_def by (metis (mono_tags, lifting) option.sel)
  then show ?thesis by (simp add: ws_ops_defs Let_def error_of_code_def make_error_def)
qed

section \<open>Properties\<close>

text \<open>
  Websocket messages arrive in order and whole: when one end sends a sequence of text and binary messages without an
  exception, and the other reads as many messages with enough room, each read gives the next message that was on its way
  or was sent; \<open>get_string\<close> on a binary message throws \<open>unexpected_error\<close> and consumes that message, so that the reads
  after it are not shifted.
\<close>

lemma websocket_messages_in_order:
  assumes "ws_channel st peer inbox mode mx"
    and "send_all st msg e ms w = (Inr (), w')"
    and "list_all (\<lambda>m. length (snd m) \<le> mx) (inbox w (peer e) @ ms)"
    and "list_all2 has_room (inbox w (peer e) @ ms) rs"
  shows "receive_all st msg (peer e) rs w' = map2 expected (inbox w (peer e) @ ms) rs"
  using assms send_all_inbox [OF assms(1,2)] by (intro receive_expected [OF assms(1)]) simp_all

end
