(* ===== verification/Tls.thy ===== *)
theory Tls
  imports Errors
begin

text \<open>
  TLS contexts and the client handshake (\<open>include/libasyik/tls.hpp\<close>, \<open>src/tls.cpp\<close>). OpenSSL and
  Boost.Asio's wrapper of it are the record \<open>ossl\<close>: whether OpenSSL accepts a cipher string, what loading a
  setting gives (an error code and its message, or nothing), whether the loaded key and certificate belong
  together, whether a host is an IP address, and whether the calls on a connection succeed. A context is the
  record of everything the constructor configures.
\<close>

section \<open>Configuration\<close>

datatype version = Tls1_2 | Tls1_3

record identity =
  cert_file :: string
  cert_pem :: string
  key_file :: string
  key_pem :: string
  key_password :: string

record 'cb client_config =
  verify_peer :: bool
  verify_hostname :: bool
  use_system_ca :: bool
  ca_file :: string
  ca_path :: string
  ca_pem :: string
  client_id :: identity
  min_version :: version
  max_version :: version
  cipher_list :: string
  ciphersuites :: string
  verify_callback :: "'cb option"

definition no_identity :: identity where
  "no_identity = \<lparr>cert_file = [], cert_pem = [], key_file = [], key_pem = [], key_password = []\<rparr>"

definition default_client_config :: "'cb client_config" where
  "default_client_config =
     \<lparr>verify_peer = True, verify_hostname = True, use_system_ca = True, ca_file = [], ca_path = [], ca_pem = [],
      client_id = no_identity, min_version = Tls1_2, max_version = Tls1_3, cipher_list = [], ciphersuites = [],
      verify_callback = None\<rparr>"

definition insecure :: "'cb client_config" where
  "insecure = default_client_config\<lparr>verify_peer := False, verify_hostname := False, use_system_ca := False\<rparr>"

record server_config =
  server_id :: identity
  s_min_version :: version
  s_max_version :: version
  s_cipher_list :: string
  s_ciphersuites :: string
  alpn :: "string list"
  session_tickets :: bool

definition mozilla_intermediate_ciphers :: string where
  "mozilla_intermediate_ciphers =
     ''ECDHE-ECDSA-AES128-GCM-SHA256:ECDHE-RSA-AES128-GCM-SHA256:'' @
     ''ECDHE-ECDSA-AES256-GCM-SHA384:ECDHE-RSA-AES256-GCM-SHA384:'' @
     ''ECDHE-ECDSA-CHACHA20-POLY1305:ECDHE-RSA-CHACHA20-POLY1305:'' @
     ''DHE-RSA-AES128-GCM-SHA256:DHE-RSA-AES256-GCM-SHA384:'' @
     ''DHE-RSA-CHACHA20-POLY1305''"

definition default_server_config :: "identity \<Rightarrow> server_config" where
  "default_server_config id0 =
     \<lparr>server_id = id0, s_min_version = Tls1_2, s_max_version = Tls1_3, s_cipher_list = mozilla_intermediate_ciphers,
      s_ciphersuites = [], alpn = [''http/1.1''], session_tickets = True\<rparr>"

section \<open>OpenSSL\<close>

record ossl =
  os_cipher_list_ok :: "string \<Rightarrow> bool"
  os_ciphersuites_ok :: "string \<Rightarrow> bool"
  os_load :: "string \<Rightarrow> string \<Rightarrow> (error_code \<times> string) option"
  os_key_matches :: "string \<times> string \<Rightarrow> string \<times> string \<Rightarrow> bool"
  os_is_ip :: "string \<Rightarrow> bool"
  os_set_sni :: "string \<Rightarrow> bool"
  os_set_ip :: "string \<Rightarrow> bool"
  os_set_host :: "string \<Rightarrow> bool"

datatype verify_mode = Verify_peer | Verify_none

datatype ssl_option = Default_workarounds | No_compression | Op_all | Single_ecdh_use | Single_dh_use
  | No_renegotiation | No_ticket

text \<open>A configured context: the settings made on it, in the order they were loaded.\<close>

record 'cb ssl_ctx =
  c_min :: int
  c_max :: int
  c_options :: "ssl_option list"
  c_ciphers :: "string option"
  c_suites :: "string option"
  c_verify :: verify_mode
  c_system_ca :: bool
  c_cas :: "(string \<times> string) list"
  c_callback :: "'cb option"
  c_cert :: "(string \<times> string) option"
  c_key :: "(string \<times> string) option"
  c_password :: "string option"
  c_alpn :: string
  c_session_id :: string

definition fresh_ctx :: "'cb ssl_ctx" where
  "fresh_ctx = \<lparr>c_min = 0, c_max = 0, c_options = [], c_ciphers = None, c_suites = None, c_verify = Verify_none,
     c_system_ca = False, c_cas = [], c_callback = None, c_cert = None, c_key = None, c_password = None,
     c_alpn = [], c_session_id = []\<rparr>"

definition res_bind :: "exn + 'a \<Rightarrow> ('a \<Rightarrow> exn + 'b) \<Rightarrow> exn + 'b" where
  "res_bind m f = (case m of Inl e \<Rightarrow> Inl e | Inr x \<Rightarrow> f x)"

lemma res_bind_simps [simp]: "res_bind (Inl e) f = Inl e" "res_bind (Inr x) f = f x"
  by (simp_all add: res_bind_def)

lemma res_bind_Inr: "res_bind m f = Inr y \<longleftrightarrow> (\<exists>x. m = Inr x \<and> f x = Inr y)"
  by (cases m) simp_all

section \<open>Building a context\<close>

text \<open>\<open>TLS1_2_VERSION\<close> and \<open>TLS1_3_VERSION\<close>.\<close>

fun to_openssl :: "version \<Rightarrow> int" where
  "to_openssl Tls1_3 = 0x0304"
| "to_openssl Tls1_2 = 0x0303"

definition input_error :: "string \<Rightarrow> exn" where
  "input_error s = make_error Invalid_input_error Ec_invalid_argument s"

definition quoted :: "string \<Rightarrow> string" where
  "quoted s = [CHR 0x27] @ s @ [CHR 0x27]"

text \<open>\<open>apply\<close>: \<open>what\<close> names the setting, \<open>data\<close> is its value; \<open>e.what()\<close> is part of the message.\<close>

definition apply_setting :: "ossl \<Rightarrow> string \<Rightarrow> string \<Rightarrow> ('c \<Rightarrow> 'c) \<Rightarrow> 'c \<Rightarrow> exn + 'c" where
  "apply_setting os what data f ctx =
     (case os_load os what data of
        None \<Rightarrow> Inr (f ctx)
      | Some (ec, msg) \<Rightarrow>
          Inl (make_error Invalid_input_error ec (''[asyik::tls] cannot load '' @ what @ '': '' @ msg)))"

definition set_versions :: "version \<Rightarrow> version \<Rightarrow> 'cb ssl_ctx \<Rightarrow> exn + 'cb ssl_ctx" where
  "set_versions mn mx ctx =
     (if to_openssl mn > to_openssl mx
      then Inl (input_error ''[asyik::tls] min_version is higher than max_version'')
      else Inr (ctx\<lparr>c_min := to_openssl mn, c_max := to_openssl mx\<rparr>))"

definition set_ciphers :: "ossl \<Rightarrow> string \<Rightarrow> string \<Rightarrow> 'cb ssl_ctx \<Rightarrow> exn + 'cb ssl_ctx" where
  "set_ciphers os cl cs ctx =
     (if cl \<noteq> [] \<and> \<not> os_cipher_list_ok os cl
      then Inl (input_error (''[asyik::tls] invalid cipher_list: '' @ cl))
      else
        (let ctx1 = (if cl \<noteq> [] then ctx\<lparr>c_ciphers := Some cl\<rparr> else ctx) in
         if cs \<noteq> [] \<and> \<not> os_ciphersuites_ok os cs
         then Inl (input_error (''[asyik::tls] invalid ciphersuites: '' @ cs))
         else Inr (if cs \<noteq> [] then ctx1\<lparr>c_suites := Some cs\<rparr> else ctx1)))"

definition cert_source :: "identity \<Rightarrow> string \<times> string" where
  "cert_source i = (if cert_file i \<noteq> [] then (''cert_file'', cert_file i) else (''cert_pem'', cert_pem i))"

definition key_source :: "identity \<Rightarrow> string \<times> string" where
  "key_source i = (if key_file i \<noteq> [] then (''key_file'', key_file i) else (''key_pem'', key_pem i))"

definition load_identity :: "ossl \<Rightarrow> identity \<Rightarrow> string \<Rightarrow> 'cb ssl_ctx \<Rightarrow> exn + 'cb ssl_ctx" where
  "load_identity os i who ctx =
     res_bind (apply_setting os (fst (cert_source i)) (snd (cert_source i))
                 (\<lambda>c. c\<lparr>c_cert := Some (cert_source i)\<rparr>) (ctx\<lparr>c_password := Some (key_password i)\<rparr>))
       (\<lambda>ctx1. res_bind (apply_setting os (fst (key_source i)) (snd (key_source i))
                           (\<lambda>c. c\<lparr>c_key := Some (key_source i)\<rparr>) ctx1)
         (\<lambda>ctx2. if os_key_matches os (cert_source i) (key_source i) then Inr ctx2
                 else Inl (input_error (''[asyik::tls] '' @ who @ '' private key does not match the certificate''))))"

text \<open>An optional CA source: loaded when the setting is not empty.\<close>

definition load_ca :: "ossl \<Rightarrow> string \<Rightarrow> string \<Rightarrow> 'cb ssl_ctx \<Rightarrow> exn + 'cb ssl_ctx" where
  "load_ca os what data ctx =
     (if data = [] then Inr ctx
      else apply_setting os what data (\<lambda>c. c\<lparr>c_cas := c_cas c @ [(what, data)]\<rparr>) ctx)"

definition has_cert :: "identity \<Rightarrow> bool" where
  "has_cert i \<longleftrightarrow> cert_file i \<noteq> [] \<or> cert_pem i \<noteq> []"

definition has_key :: "identity \<Rightarrow> bool" where
  "has_key i \<longleftrightarrow> key_file i \<noteq> [] \<or> key_pem i \<noteq> []"

definition setup_verification :: "ossl \<Rightarrow> 'cb client_config \<Rightarrow> 'cb ssl_ctx \<Rightarrow> exn + 'cb ssl_ctx" where
  "setup_verification os cfg ctx =
     (if verify_peer cfg then
        res_bind (load_ca os ''ca_file'' (ca_file cfg)
                    (ctx\<lparr>c_verify := Verify_peer, c_system_ca := use_system_ca cfg\<rparr>))
          (\<lambda>ctx1. res_bind (load_ca os ''ca_path'' (ca_path cfg) ctx1)
            (\<lambda>ctx2. res_bind (load_ca os ''ca_pem'' (ca_pem cfg) ctx2)
              (\<lambda>ctx3. Inr (ctx3\<lparr>c_callback := verify_callback cfg\<rparr>))))
      else Inr (ctx\<lparr>c_verify := Verify_none\<rparr>))"

definition setup_client_identity :: "ossl \<Rightarrow> identity \<Rightarrow> 'cb ssl_ctx \<Rightarrow> exn + 'cb ssl_ctx" where
  "setup_client_identity os i ctx =
     (if has_cert i \<noteq> has_key i
      then Inl (input_error ''[asyik::tls] a client certificate needs both a certificate and a private key'')
      else if has_cert i then load_identity os i ''client'' ctx
      else Inr ctx)"

definition client_context :: "ossl \<Rightarrow> 'cb client_config \<Rightarrow> exn + 'cb ssl_ctx" where
  "client_context os cfg =
     res_bind (set_versions (min_version cfg) (max_version cfg) fresh_ctx)
       (\<lambda>ctx1. res_bind (set_ciphers os (cipher_list cfg) (ciphersuites cfg)
                           (ctx1\<lparr>c_options := [Default_workarounds, No_compression]\<rparr>))
         (\<lambda>ctx2. res_bind (setup_verification os cfg ctx2)
           (\<lambda>ctx3. setup_client_identity os (client_id cfg) ctx3)))"

text \<open>The ALPN wire format: each name preceded by its length in one byte.\<close>

fun alpn_wire :: "string list \<Rightarrow> exn + string" where
  "alpn_wire [] = Inr []"
| "alpn_wire (proto # ps) =
     (if proto = [] \<or> length proto > 255
      then Inl (input_error (''[asyik::tls] invalid ALPN protocol name: '' @ quoted proto))
      else res_bind (alpn_wire ps) (\<lambda>w. Inr (char_of (length proto) # proto @ w)))"

definition server_options :: "server_config \<Rightarrow> ssl_option list" where
  "server_options cfg =
     [Op_all, No_compression, Single_ecdh_use, Single_dh_use, No_renegotiation] @
     (if session_tickets cfg then [] else [No_ticket])"

definition server_context :: "ossl \<Rightarrow> server_config \<Rightarrow> exn + 'cb ssl_ctx" where
  "server_context os cfg =
     res_bind (set_versions (s_min_version cfg) (s_max_version cfg) fresh_ctx)
       (\<lambda>ctx1. res_bind (set_ciphers os (s_cipher_list cfg) (s_ciphersuites cfg)
                           (ctx1\<lparr>c_options := server_options cfg\<rparr>))
         (\<lambda>ctx2.
            if \<not> has_cert (server_id cfg) \<or> \<not> has_key (server_id cfg)
            then Inl (input_error ''[asyik::tls] server_config needs a certificate and a private key'')
            else
              res_bind (load_identity os (server_id cfg) ''server'' ctx2)
                (\<lambda>ctx3. res_bind (alpn_wire (alpn cfg))
                  (\<lambda>w. Inr (ctx3\<lparr>c_session_id := ''libasyik'', c_alpn := w\<rparr>)))))"

text \<open>A client context object keeps its configuration beside the OpenSSL context.\<close>

type_synonym 'cb client_ctx = "'cb client_config \<times> 'cb ssl_ctx"

definition make_client_context :: "ossl \<Rightarrow> 'cb client_config \<Rightarrow> exn + 'cb client_ctx" where
  "make_client_context os cfg = res_bind (client_context os cfg) (\<lambda>ctx. Inr (cfg, ctx))"

text \<open>The process-wide default context.\<close>

definition default_client_context :: "ossl \<Rightarrow> 'cb client_ctx option \<Rightarrow> (exn + 'cb client_ctx) \<times> 'cb client_ctx option" where
  "default_client_context os d =
     (case d of
        Some c \<Rightarrow> (Inr c, Some c)
      | None \<Rightarrow>
          (case make_client_context os default_client_config of
             Inl e \<Rightarrow> (Inl e, None)
           | Inr c \<Rightarrow> (Inr c, Some c)))"

definition set_default_client_context :: "'cb client_ctx option \<Rightarrow> 'cb client_ctx option \<Rightarrow> 'cb client_ctx option" where
  "set_default_client_context ctx d = ctx"

text \<open>
  The contexts of a service: its own, if one was set, otherwise the default one; a request may bring its own. (Null pointers
  are \<open>None\<close>.)
\<close>

definition set_tls_client_context :: "'cb client_ctx option \<Rightarrow> 'cb client_ctx option \<Rightarrow> 'cb client_ctx option" where
  "set_tls_client_context ctx own = ctx"

definition get_tls_client_context ::
  "ossl \<Rightarrow> 'cb client_ctx option \<Rightarrow> 'cb client_ctx option \<Rightarrow> (exn + 'cb client_ctx) \<times> 'cb client_ctx option"
where
  "get_tls_client_context os own d = (case own of Some c \<Rightarrow> (Inr c, d) | None \<Rightarrow> default_client_context os d)"

definition request_context ::
  "ossl \<Rightarrow> 'cb client_ctx option \<Rightarrow> 'cb client_ctx option \<Rightarrow> 'cb client_ctx option \<Rightarrow>
     (exn + 'cb client_ctx) \<times> 'cb client_ctx option"
where
  "request_context os tls_ctx own d = (case tls_ctx of Some c \<Rightarrow> (Inr c, d) | None \<Rightarrow> get_tls_client_context os own d)"

text \<open>
  The callback of a server context: \<open>sel\<close> is \<open>SSL_select_next_proto\<close> on the two lists in wire format; \<open>None\<close> goes on without
  a protocol. It is installed when the configuration names a protocol.
\<close>

definition select_alpn :: "(string \<Rightarrow> string \<Rightarrow> string option) \<Rightarrow> string \<Rightarrow> string \<Rightarrow> string option" where
  "select_alpn sel wire offered = sel wire offered"

definition negotiate_alpn :: "(string \<Rightarrow> string \<Rightarrow> string option) \<Rightarrow> 'cb ssl_ctx \<Rightarrow> string \<Rightarrow> string option" where
  "negotiate_alpn sel ctx offered = (if c_alpn ctx = [] then None else select_alpn sel (c_alpn ctx) offered)"

section \<open>The client handshake\<close>

record ssl_conn =
  sni :: "string option"
  check_host :: "string option"
  check_ip :: "string option"

definition normalise_host :: "string \<Rightarrow> string" where
  "normalise_host h =
     (let h1 = (if length h \<ge> 2 \<and> hd h = CHR ''['' \<and> last h = CHR '']'' then butlast (tl h) else h)
      in if ends_with (CHR ''.'') h1 then butlast h1 else h1)"

definition tls_exn :: "string \<Rightarrow> exn" where
  "tls_exn s = make_error Tls_error Ec_connection_aborted s"

definition prepare_client :: "ossl \<Rightarrow> 'cb client_config \<Rightarrow> string \<Rightarrow> ssl_conn \<Rightarrow> exn + ssl_conn" where
  "prepare_client os cfg host_view conn =
     (let host = normalise_host host_view; is_ip = os_is_ip os host in
      if \<not> is_ip \<and> \<not> os_set_sni os host
      then Inl (tls_exn (''[asyik::tls] cannot set SNI host name: '' @ host))
      else
        (let conn1 = (if is_ip then conn else conn\<lparr>sni := Some host\<rparr>) in
         if verify_peer cfg \<and> verify_hostname cfg then
           (if is_ip then
              (if os_set_ip os host then Inr (conn1\<lparr>check_ip := Some host\<rparr>)
               else Inl (tls_exn (''[asyik::tls] cannot set host name verification for: '' @ host)))
            else
              (if os_set_host os host then Inr (conn1\<lparr>check_host := Some host\<rparr>)
               else Inl (tls_exn (''[asyik::tls] cannot set host name verification for: '' @ host))))
         else Inr conn1))"

text \<open>
  \<open>rethrow_client_handshake_error\<close>: what leaves the handler for the exception \<open>e\<close> of the handshake; \<open>vr\<close> is
  OpenSSL's verify result (0: \<open>X509_V_OK\<close>) with its text, \<open>msg\<close> the message of the code.
\<close>

definition rethrow_client_handshake_error ::
  "'cb client_config \<Rightarrow> int \<times> string \<Rightarrow> (error_code \<Rightarrow> string) \<Rightarrow> string \<Rightarrow> exn \<Rightarrow> exn"
where
  "rethrow_client_handshake_error cfg vr msg host e =
     (if caught_by (exn_class e) Tls_error then
        (if verify_peer cfg \<and> fst vr \<noteq> 0 then
           make_error Tls_verify_error (exn_code e)
             (''[asyik::tls_verify_error]certificate of '' @ quoted host @ '' rejected: '' @ snd vr)
         else
           make_error Tls_handshake_error (exn_code e)
             (''[asyik::tls_handshake_error]TLS handshake with '' @ quoted host @ '' failed: '' @ msg (exn_code e)))
      else e)"

definition client_handshake ::
  "ossl \<Rightarrow> 'cb client_config \<Rightarrow> (ssl_conn \<Rightarrow> exn option \<times> int \<times> string) \<Rightarrow> (error_code \<Rightarrow> string) \<Rightarrow> string
     \<Rightarrow> ssl_conn \<Rightarrow> exn + ssl_conn"
where
  "client_handshake os cfg shake msg host conn =
     res_bind (prepare_client os cfg host conn)
       (\<lambda>conn1. case shake conn1 of
                  (None, vr) \<Rightarrow> Inr conn1
                | (Some e, vr) \<Rightarrow> Inl (rethrow_client_handshake_error cfg vr msg host e))"

section \<open>Lemmas\<close>

lemma apply_setting_Inr: "apply_setting os what data f ctx = Inr c \<longleftrightarrow> os_load os what data = None \<and> c = f ctx"
  by (auto simp: apply_setting_def split: option.split)

lemma load_ca_Inr:
  "load_ca os what data ctx = Inr c \<longleftrightarrow>
     (data = [] \<or> os_load os what data = None) \<and>
     c = (if data = [] then ctx else ctx\<lparr>c_cas := c_cas ctx @ [(what, data)]\<rparr>)"
  by (auto simp: load_ca_def apply_setting_Inr)

lemma set_versions_Inr:
  "set_versions mn mx ctx = Inr c \<longleftrightarrow>
     \<not> (mn = Tls1_3 \<and> mx = Tls1_2) \<and> c = ctx\<lparr>c_min := to_openssl mn, c_max := to_openssl mx\<rparr>"
  by (cases mn; cases mx) (auto simp: set_versions_def)

lemma set_ciphers_Inr:
  "set_ciphers os cl cs ctx = Inr c \<longleftrightarrow>
     (cl = [] \<or> os_cipher_list_ok os cl) \<and> (cs = [] \<or> os_ciphersuites_ok os cs) \<and>
     c = (if cs = [] then (if cl = [] then ctx else ctx\<lparr>c_ciphers := Some cl\<rparr>)
          else (if cl = [] then ctx else ctx\<lparr>c_ciphers := Some cl\<rparr>)\<lparr>c_suites := Some cs\<rparr>)"
  by (auto simp: set_ciphers_def Let_def)

definition identity_ok :: "ossl \<Rightarrow> identity \<Rightarrow> bool" where
  "identity_ok os i \<longleftrightarrow>
     os_load os (fst (cert_source i)) (snd (cert_source i)) = None \<and>
     os_load os (fst (key_source i)) (snd (key_source i)) = None \<and>
     os_key_matches os (cert_source i) (key_source i)"

lemma load_identity_Inr:
  "load_identity os i who ctx = Inr c \<longleftrightarrow>
     identity_ok os i \<and>
     c = ctx\<lparr>c_password := Some (key_password i), c_cert := Some (cert_source i), c_key := Some (key_source i)\<rparr>"
  by (auto simp: load_identity_def identity_ok_def res_bind_Inr apply_setting_Inr)

lemmas tls_success = res_bind_Inr load_ca_Inr set_versions_Inr set_ciphers_Inr load_identity_Inr

text \<open>Every failure is an \<open>invalid_input_error\<close>.\<close>

definition input_failure :: "exn + 'a \<Rightarrow> bool" where
  "input_failure m \<longleftrightarrow> (\<forall>e. m = Inl e \<longrightarrow> exn_class e = Invalid_input_error)"

lemma input_failure_simps [simp]:
  "input_failure (Inr x)" "input_failure (Inl (input_error s))"
  by (simp_all add: input_failure_def input_error_def make_error_def)

lemma input_failure_bind: "input_failure m \<Longrightarrow> (\<And>x. input_failure (f x)) \<Longrightarrow> input_failure (res_bind m f)"
  by (cases m) (auto simp: input_failure_def)

lemma input_failure_apply: "input_failure (apply_setting os what data f ctx)"
  by (auto simp: input_failure_def apply_setting_def make_error_def split: option.splits)

lemma input_failure_parts:
  "input_failure (set_versions mn mx ctx)" "input_failure (set_ciphers os cl cs ctx)"
  "input_failure (load_ca os what data ctx)" "input_failure (load_identity os i who ctx)"
  by (auto simp: set_versions_def set_ciphers_def load_ca_def load_identity_def Let_def
      intro!: input_failure_bind input_failure_apply)

lemma input_failure_client: "input_failure (client_context os cfg)"
  unfolding client_context_def
  by (intro input_failure_bind input_failure_parts)
    (auto simp: setup_verification_def setup_client_identity_def intro!: input_failure_bind input_failure_parts)

section \<open>The ALPN wire format\<close>

fun alpn_decode :: "nat \<Rightarrow> string \<Rightarrow> string list option" where
  "alpn_decode fuel [] = Some []"
| "alpn_decode 0 (c # s) = None"
| "alpn_decode (Suc fuel) (c # s) =
     (let n = of_char c in
      if n = 0 \<or> length s < n then None
      else map_option (\<lambda>ps. take n s # ps) (alpn_decode fuel (drop n s)))"

lemma alpn_wire_decode:
  "alpn_wire ps = Inr w \<Longrightarrow> length ps \<le> fuel \<Longrightarrow> alpn_decode fuel w = Some ps"
proof (induction ps arbitrary: w fuel)
  case (Cons p ps)
  then obtain v k where v: "alpn_wire ps = Inr v" "w = char_of (length p) # p @ v" "fuel = Suc k"
    and p: "p \<noteq> []" "length p \<le> 255"
    by (cases fuel) (auto simp: res_bind_Inr split: if_splits)
  have "(of_char (char_of (length p) :: char) :: nat) = length p" using p(2) by simp
  with Cons.IH [OF v(1), of k] Cons.prems(2) v(2,3) p show ?case by simp
qed simp

lemma alpn_wire_ok: "(\<exists>w. alpn_wire ps = Inr w) \<longleftrightarrow> (\<forall>p \<in> set ps. p \<noteq> [] \<and> length p \<le> 255)"
  by (induction ps) (auto simp: res_bind_Inr)

text \<open>
  A request's own context wins over the service's, which wins over the default one; the default context is built at most once:
  after a request that used it, every request without a context of its own gets the same one, and a context that could
  not be built is not kept.
\<close>

lemma request_context_choice:
  "fst (request_context os (Some c) own d) = Inr c"
  "fst (request_context os None (Some c) d) = Inr c"
  "fst (request_context os None None (Some c)) = Inr c"
  "request_context os None None d = (Inr c, d') \<Longrightarrow> request_context os None None d' = (Inr c, d')"
  "request_context os None None d = (Inl e, d') \<Longrightarrow> d' = None"
  by (auto simp: request_context_def get_tls_client_context_def default_client_context_def split: option.splits sum.splits)

text \<open>
  What OpenSSL documents of \<open>SSL_select_next_proto\<close>: the first entry of the server's list that is in the client's. A server made
  from a configuration then picks the first protocol of its configuration that the client offers.
\<close>

definition selects_first :: "(string \<Rightarrow> string \<Rightarrow> string option) \<Rightarrow> bool" where
  "selects_first sel \<longleftrightarrow>
     (\<forall>sw cw n m ps qs. alpn_decode n sw = Some ps \<and> alpn_decode m cw = Some qs \<longrightarrow> sel sw cw = find (\<lambda>p. p \<in> set qs) ps)"

lemma server_context_alpn: "server_context os cfg = Inr ctx \<Longrightarrow> alpn_wire (alpn cfg) = Inr (c_alpn ctx)"
  by (auto simp: server_context_def res_bind_Inr split: if_splits)

lemma alpn_negotiated:
  assumes "selects_first sel" and "server_context os cfg = Inr ctx" and "alpn_wire offered = Inr cw"
  shows "negotiate_alpn sel ctx cw = find (\<lambda>p. p \<in> set offered) (alpn cfg)"
proof -
  have w: "alpn_decode (length (alpn cfg)) (c_alpn ctx) = Some (alpn cfg)" "alpn_decode (length offered) cw = Some offered"
    using alpn_wire_decode server_context_alpn [OF assms(2)] assms(3) by blast+
  then have "sel (c_alpn ctx) cw = find (\<lambda>p. p \<in> set offered) (alpn cfg)" using assms(1) unfolding selects_first_def by blast
  moreover have "alpn cfg = []" if "c_alpn ctx = []" using w(1) that by simp
  ultimately show ?thesis by (auto simp: negotiate_alpn_def select_alpn_def)
qed

section \<open>Properties\<close>

text \<open>A TLS library for examples: it accepts everything, and a host is an address when it starts with a digit.\<close>

definition demo_ossl :: ossl where
  "demo_ossl = \<lparr>os_cipher_list_ok = (\<lambda>_. True), os_ciphersuites_ok = (\<lambda>_. True), os_load = (\<lambda>_ _. None),
     os_key_matches = (\<lambda>_ _. True), os_is_ip = (\<lambda>h. h \<noteq> [] \<and> isdigit (hd h)), os_set_sni = (\<lambda>_. True),
     os_set_ip = (\<lambda>_. True), os_set_host = (\<lambda>_. True)\<rparr>"

text \<open>
  C26. A client context that is built does what its configuration says: the protocol range, the ciphers, verification
  exactly when it was asked for, all CA sources that were named in order and no others, and the client
  certificate with its own key; building fails only with \<open>invalid_input_error\<close>.
\<close>

theorem client_context_as_configured:
  "(\<forall>e. client_context os cfg = Inl e \<longrightarrow> exn_class e = Invalid_input_error) \<and>
   (\<forall>ctx. client_context os cfg = Inr ctx \<longrightarrow>
      c_min ctx = to_openssl (min_version cfg) \<and> c_max ctx = to_openssl (max_version cfg) \<and> c_min ctx \<le> c_max ctx \<and>
      No_compression \<in> set (c_options ctx) \<and>
      c_ciphers ctx = (if cipher_list cfg = [] then None else Some (cipher_list cfg)) \<and>
      (c_verify ctx = Verify_peer \<longleftrightarrow> verify_peer cfg) \<and>
      (c_system_ca ctx \<longleftrightarrow> verify_peer cfg \<and> use_system_ca cfg) \<and>
      c_cas ctx = (if verify_peer cfg then
                     filter (\<lambda>(what, data). data \<noteq> [])
                       [(''ca_file'', ca_file cfg), (''ca_path'', ca_path cfg), (''ca_pem'', ca_pem cfg)]
                   else []) \<and>
      (has_cert (client_id cfg) \<longleftrightarrow> has_key (client_id cfg)) \<and>
      (has_cert (client_id cfg) \<longrightarrow> identity_ok os (client_id cfg) \<and>
         c_cert ctx = Some (cert_source (client_id cfg)) \<and> c_key ctx = Some (key_source (client_id cfg))) \<and>
      (\<not> has_cert (client_id cfg) \<longrightarrow> c_cert ctx = None \<and> c_key ctx = None))"
proof -
  have "\<forall>e. client_context os cfg = Inl e \<longrightarrow> exn_class e = Invalid_input_error"
    using input_failure_client [of os cfg] by (simp add: input_failure_def)
  moreover have "to_openssl mn \<le> to_openssl mx" if "\<not> (mn = Tls1_3 \<and> mx = Tls1_2)" for mn mx
    using that by (cases mn; cases mx) simp_all
  ultimately show ?thesis
    by (auto simp: client_context_def setup_verification_def setup_client_identity_def fresh_ctx_def tls_success
        split: if_splits)
qed

theorem client_context_as_configured_witness:
  "\<exists>ctx :: nat ssl_ctx. client_context demo_ossl default_client_config = Inr ctx \<and> c_verify ctx = Verify_peer \<and>
     c_min ctx = 0x0303 \<and> c_system_ca ctx"
proof -
  obtain ctx :: "nat ssl_ctx" where ctx: "client_context demo_ossl default_client_config = Inr ctx"
    by (simp add: client_context_def set_versions_def set_ciphers_def setup_verification_def load_ca_def
        setup_client_identity_def default_client_config_def no_identity_def has_cert_def has_key_def)
  with client_context_as_configured [of demo_ossl "default_client_config :: nat client_config"] show ?thesis
    by (simp add: default_client_config_def)
qed

text \<open>
  The ALPN names of a server survive the wire format: the encoding succeeds exactly when every name has between 1
  and 255 bytes, and decoding what was encoded gives the names back in order.
\<close>

lemma alpn_wire_roundtrip:
  "((\<exists>w. alpn_wire ps = Inr w) \<longleftrightarrow> (\<forall>p \<in> set ps. p \<noteq> [] \<and> length p \<le> 255)) \<and>
   (\<forall>w. alpn_wire ps = Inr w \<longrightarrow> alpn_decode (length ps) w = Some ps)"
  using alpn_wire_ok alpn_wire_decode by blast

text \<open>
  The handshake checks the right peer and reports the right error: a connection that is prepared carries the host
  name as SNI exactly when the host is no IP address, and with verification on the certificate is checked
  against exactly that name or address; a TLS failure becomes \<open>tls_verify_error\<close> when verification was
  on and failed and \<open>tls_handshake_error\<close> otherwise, keeping its code, and any other exception passes unchanged.
\<close>

lemma client_handshake_checked:
  "(\<forall>conn1. prepare_client os cfg host \<lparr>sni = None, check_host = None, check_ip = None\<rparr> = Inr conn1 \<longrightarrow>
      sni conn1 = (if os_is_ip os (normalise_host host) then None else Some (normalise_host host)) \<and>
      (verify_peer cfg \<and> verify_hostname cfg \<longrightarrow>
         (if os_is_ip os (normalise_host host) then check_ip conn1 = Some (normalise_host host)
          else check_host conn1 = Some (normalise_host host)))) \<and>
   (caught_by (exn_class e) Tls_error \<longrightarrow>
      exn_code (rethrow_client_handshake_error cfg vr msg host e) = exn_code e \<and>
      exn_class (rethrow_client_handshake_error cfg vr msg host e) =
        (if verify_peer cfg \<and> fst vr \<noteq> 0 then Tls_verify_error else Tls_handshake_error)) \<and>
   (\<not> caught_by (exn_class e) Tls_error \<longrightarrow> rethrow_client_handshake_error cfg vr msg host e = e)"
  by (auto simp: prepare_client_def rethrow_client_handshake_error_def make_error_def Let_def split: if_splits)

end
