(* ===== verification/Http_Server.thy ===== *)
theory Http_Server
  imports Http_Connection Websocket Tls
begin

text \<open>
  HTTP and HTTPS servers as a whole: creating a server and its settings (\<open>src/http_server_plain.cpp\<close>,
  \<open>src/http_server_ssl.cpp\<close>, \<open>src/http_common.cpp\<close>, \<open>include/libasyik/http_server.hpp\<close>), the TLS part of a connection
  (\<open>handshake_if_ssl\<close>, \<open>shutdown_ssl\<close> in \<open>include/libasyik/http.hpp\<close>), and the fiber of a connection with it. The
  operating system's calls and the peer are arguments.
\<close>

section \<open>Creating a server\<close>

text \<open>The calls made to the operating system, in order; \<open>so_reuseaddr\<close> and \<open>so_reuseport\<close> are the option numbers.\<close>

datatype os_call = Open_acceptor | Setsockopt int | Bind_to string "16 word" | Listen | Accept_async

record os_net =
  so_reuseaddr :: int
  so_reuseport :: int
  net_open :: "exn option"
  net_make_address :: "string \<Rightarrow> exn + string"
  net_bind :: "string \<Rightarrow> 16 word \<Rightarrow> exn option"
  net_listen :: "exn option"

record 'x server_object =
  so_server :: http_server
  request_body_limit :: "64 word"
  request_header_limit :: "64 word"
  tls_handshake_timeout :: int
  tls_shutdown_timeout :: int
  ssl_context :: "'x option"

text \<open>The constructor, with its default limits and timeouts (in milliseconds); it opens the acceptor.\<close>

definition http_server_ctor :: "os_net \<Rightarrow> exn + 'x server_object" where
  "http_server_ctor net =
     (case net_open net of
        Some e \<Rightarrow> Inl e
      | None \<Rightarrow> Inr \<lparr>so_server = server_init\<lparr>accept_state := No_accept\<rparr>, request_body_limit = 1024 * 1024,
          request_header_limit = 1024 * 1024, tls_handshake_timeout = 10000, tls_shutdown_timeout = 2000,
          ssl_context = None\<rparr>)"

text \<open>One \<open>setsockopt\<close>, whose result is ignored.\<close>

definition set_acceptor_reuse_options :: "os_net \<Rightarrow> bool \<Rightarrow> os_call" where
  "set_acceptor_reuse_options net reuse_port = Setsockopt (or (so_reuseaddr net) (so_reuseport net * of_bool reuse_port))"

definition bind_and_listen :: "os_net \<Rightarrow> string \<Rightarrow> 16 word \<Rightarrow> 'x server_object \<Rightarrow> (exn + 'x server_object) \<times> os_call list" where
  "bind_and_listen net addr port p =
     (case net_make_address net addr of
        Inl e \<Rightarrow> (Inl e, [])
      | Inr a \<Rightarrow>
          (case net_bind net a port of
             Some e \<Rightarrow> (Inl e, [Bind_to a port])
           | None \<Rightarrow>
               (case net_listen net of
                  Some e \<Rightarrow> (Inl e, [Bind_to a port, Listen])
                | None \<Rightarrow> (Inr (p\<lparr>so_server := start_accept (so_server p)\<rparr>), [Bind_to a port, Listen, Accept_async]))))"

definition make_http_server ::
  "os_net \<Rightarrow> string \<Rightarrow> 16 word \<Rightarrow> bool \<Rightarrow> (exn + 'x server_object) \<times> os_call list"
where
  "make_http_server net addr port reuse_port =
     (case http_server_ctor net of
        Inl e \<Rightarrow> (Inl e, [Open_acceptor])
      | Inr p \<Rightarrow>
          (let (r, cs) = bind_and_listen net addr port p
           in (r, Open_acceptor # set_acceptor_reuse_options net reuse_port # cs)))"

definition start_https_server ::
  "os_net \<Rightarrow> 'x option \<Rightarrow> string \<Rightarrow> 16 word \<Rightarrow> bool \<Rightarrow> (exn + 'x server_object) \<times> os_call list"
where
  "start_https_server net ctx addr port reuse_port =
     (case http_server_ctor net of
        Inl e \<Rightarrow> (Inl e, [Open_acceptor])
      | Inr p \<Rightarrow>
          (let (r, cs) = bind_and_listen net addr port (p\<lparr>ssl_context := ctx\<rparr>)
           in (r, Open_acceptor # set_acceptor_reuse_options net reuse_port # cs)))"

text \<open>The three overloads: a context pointer, which may be null, a configuration, and a context of the caller's own.\<close>

definition make_https_server_ctx ::
  "os_net \<Rightarrow> 'cb ssl_ctx option \<Rightarrow> string \<Rightarrow> 16 word \<Rightarrow> bool \<Rightarrow> (exn + 'cb ssl_ctx server_object) \<times> os_call list"
where
  "make_https_server_ctx net ctx addr port reuse_port =
     (case ctx of
        None \<Rightarrow> (Inl (make_error Invalid_input_error Ec_invalid_argument ''make_https_server: null TLS context''), [])
      | Some c \<Rightarrow> start_https_server net (Some c) addr port reuse_port)"

definition make_https_server ::
  "ossl \<Rightarrow> os_net \<Rightarrow> server_config \<Rightarrow> string \<Rightarrow> 16 word \<Rightarrow> bool \<Rightarrow> (exn + 'cb ssl_ctx server_object) \<times> os_call list"
where
  "make_https_server os net cfg addr port reuse_port =
     (case server_context os cfg of
        Inl e \<Rightarrow> (Inl e, [])
      | Inr c \<Rightarrow> make_https_server_ctx net (Some c) addr port reuse_port)"

definition make_https_server_native ::
  "os_net \<Rightarrow> 'x \<Rightarrow> string \<Rightarrow> 16 word \<Rightarrow> bool \<Rightarrow> (exn + 'x server_object) \<times> os_call list"
where
  "make_https_server_native net ssl addr port reuse_port = start_https_server net (Some ssl) addr port reuse_port"

text \<open>The setters; a connection that is served uses the values at its start.\<close>

definition set_request_header_limit :: "64 word \<Rightarrow> 'x server_object \<Rightarrow> 'x server_object" where
  "set_request_header_limit l p = p\<lparr>request_header_limit := l\<rparr>"

definition set_request_body_limit :: "64 word \<Rightarrow> 'x server_object \<Rightarrow> 'x server_object" where
  "set_request_body_limit l p = p\<lparr>request_body_limit := l\<rparr>"

definition set_tls_handshake_timeout :: "int \<Rightarrow> 'x server_object \<Rightarrow> 'x server_object" where
  "set_tls_handshake_timeout t p = p\<lparr>tls_handshake_timeout := t\<rparr>"

definition set_tls_shutdown_timeout :: "int \<Rightarrow> 'x server_object \<Rightarrow> 'x server_object" where
  "set_tls_shutdown_timeout t p = p\<lparr>tls_shutdown_timeout := t\<rparr>"

section \<open>The TLS part of a connection\<close>

text \<open>
  A connection's lowest layer: its deadline for operations, if any, and whether its socket is open. The peer of a TLS
  connection says with which code a handshake or shutdown ends under a deadline; \<open>None\<close> is never.
\<close>

record tcp_layer =
  deadline :: "int option"
  sock_open :: bool

datatype stream_kind = Plain | Over_tls

record tls_peer =
  peer_handshake :: "int option \<Rightarrow> error_code option"
  peer_shutdown :: "int option \<Rightarrow> error_code option"

definition arm_deadline :: "int \<Rightarrow> tcp_layer \<Rightarrow> tcp_layer" where
  "arm_deadline timeout l = (if timeout > 0 then l\<lparr>deadline := Some timeout\<rparr> else l)"

text \<open>\<open>handshake_if_ssl\<close>: \<open>None\<close> when it never returns, otherwise what it threw.\<close>

definition handshake_if_ssl ::
  "stream_kind \<Rightarrow> (error_code \<Rightarrow> string) \<Rightarrow> tls_peer \<Rightarrow> int \<Rightarrow> tcp_layer \<Rightarrow> get_error option option \<times> tcp_layer"
where
  "handshake_if_ssl k msg peer timeout l =
     (case k of
        Plain \<Rightarrow> (Some None, l)
      | Over_tls \<Rightarrow>
          (let l1 = arm_deadline timeout l in
           case peer_handshake peer (deadline l1) of
             None \<Rightarrow> (None, l1)
           | Some ec \<Rightarrow>
               (case get_now (fiber_promise_handler_call msg (Args_ec ec ([] :: unit list)) Unset) of
                  Inl x \<Rightarrow> (Some (Some x), l1)
                | Inr _ \<Rightarrow> (Some None, l1\<lparr>deadline := None\<rparr>))))"

text \<open>\<open>shutdown_ssl\<close> swallows every exception and closes the socket; \<open>None\<close> when it never returns.\<close>

definition shutdown_ssl :: "stream_kind \<Rightarrow> tls_peer \<Rightarrow> int \<Rightarrow> tcp_layer \<Rightarrow> tcp_layer option" where
  "shutdown_ssl k peer timeout l =
     (case k of
        Plain \<Rightarrow> Some l
      | Over_tls \<Rightarrow>
          (let l1 = arm_deadline timeout l in
           case peer_shutdown peer (deadline l1) of
             None \<Rightarrow> None
           | Some ec \<Rightarrow> Some (l1\<lparr>sock_open := False\<rparr>)))"

section \<open>The fiber of a connection\<close>

text \<open>
  \<open>http_connection::start\<close> with the timeouts of the server: the handshake, the requests and the shutdown, on a new
  connection. The result is what was sent and started, the connection's state and whether a warning was logged; \<open>None\<close> when the
  fiber never gets past the handshake or the shutdown.
\<close>

definition serve_connection ::
  "stream_kind \<Rightarrow> (error_code \<Rightarrow> string) \<Rightarrow> tls_peer \<Rightarrow> 'x server_object \<Rightarrow> 'r conn_env \<Rightarrow> exn option \<Rightarrow> http_req \<Rightarrow>
     exn option \<Rightarrow> event list \<Rightarrow> (action list \<times> tcp_layer \<times> bool) option"
where
  "serve_connection k msg peer srv env opt q0 final_write evs =
     (let l = \<lparr>deadline = None, sock_open = True\<rparr> in
      if opt \<noteq> None then Some ([], l, True)
      else
        (case handshake_if_ssl k msg peer (tls_handshake_timeout srv) l of
           (None, l1) \<Rightarrow> None
         | (Some (Some x), l1) \<Rightarrow> Some ([], l1, False)
         | (Some None, l1) \<Rightarrow>
             (case conn_task env None None q0 final_write evs of
                (acts, shut, warned) \<Rightarrow>
                  if shut then map_option (\<lambda>l2. (acts, l2, warned)) (shutdown_ssl k peer (tls_shutdown_timeout srv) l1)
                  else Some (acts, l1, warned))))"

text \<open>The read of a request that completes with an error code.\<close>

definition read_failed :: "(error_code \<Rightarrow> string) \<Rightarrow> error_code \<Rightarrow> event" where
  "read_failed msg ec =
     (case get_now (fiber_promise_handler_call msg (Args_ec ec [0 :: nat]) Unset) of
        Inl (Thrown e) \<Rightarrow> Read_fail e
      | _ \<Rightarrow> Read_fail (make_error System_error ec (msg ec)))"

section \<open>Lemmas\<close>

lemma read_failed_code: "ec \<noteq> Ec_none \<Longrightarrow> read_failed msg ec = Read_fail (error_of_code msg ec)"
  by (simp add: read_failed_def)

text \<open>A failing read after requests that were all answered: the flag says whether there were any.\<close>

lemma conn_loop_then_fail:
  "conn_loop env safe r evs = (acts, Waiting) \<Longrightarrow>
   conn_loop env safe r (evs @ [Read_fail e]) = (acts, Threw e (safe \<or> evs \<noteq> []))"
proof (induction env safe r evs arbitrary: acts rule: conn_loop.induct)
  case (3 env safe r q rest al ok wr evs)
  let ?r1 = "r\<lparr>beast_request := q, buffer := rest\<rparr>"
  have "\<not> rq_upgrade q" using 3(2) websocket_upgrade_result [of env al ok ?r1] by (auto simp: Let_def split: if_splits)
  then show ?case using 3
    by (auto simp: Let_def split: if_splits option.splits prod.splits)
qed simp_all

lemma handshake_success:
  "handshake_if_ssl k msg peer t l = (Some None, l1) \<Longrightarrow> deadline l = None \<Longrightarrow> deadline l1 = None \<and> sock_open l1 = sock_open l"
  by (auto simp: handshake_if_ssl_def arm_deadline_def Let_def split: stream_kind.splits option.splits sum.splits if_splits)

lemma started_server:
  "snd (make_https_server_ctx net (Some c) addr port reuse) = cs \<Longrightarrow>
   fst (make_https_server_ctx net (Some c) addr port reuse) = Inr p \<Longrightarrow>
   so_server p = server_init \<and> ssl_context p = Some c \<and> tls_handshake_timeout p = 10000 \<and> tls_shutdown_timeout p = 2000 \<and>
   (\<exists>a. net_make_address net addr = Inr a \<and>
     cs = [Open_acceptor, set_acceptor_reuse_options net reuse, Bind_to a port, Listen, Accept_async])"
  by (auto simp: make_https_server_ctx_def start_https_server_def http_server_ctor_def bind_and_listen_def
      start_accept_def server_init_def split: option.splits sum.splits)

text \<open>
  A bad configuration or a null context is reported before any call to the operating system; a server that is made has bound
  and listens, has the context of its configuration, and is the server \<open>server_init\<close> that close and accept start from.
\<close>

lemma https_server_setup:
  "(case make_https_server os net cfg addr port reuse :: (exn + 'a ssl_ctx server_object) \<times> os_call list of
      (Inr p, cs) \<Rightarrow> (\<exists>c. server_context os cfg = Inr c \<and> ssl_context p = Some c) \<and> so_server p = server_init \<and>
        (\<exists>a. net_make_address net addr = Inr a \<and>
           cs = [Open_acceptor, set_acceptor_reuse_options net reuse, Bind_to a port, Listen, Accept_async])
    | (Inl e, cs) \<Rightarrow> cs = [] \<longleftrightarrow> (server_context os cfg :: exn + 'a ssl_ctx) = Inl e) \<and>
   make_https_server_ctx net None addr port reuse =
     (Inl (make_error Invalid_input_error Ec_invalid_argument ''make_https_server: null TLS context''), [])"
proof -
  have calls: "snd (make_https_server_ctx net (Some c) addr port reuse) \<noteq> []" for c :: "'a ssl_ctx"
    by (simp add: make_https_server_ctx_def start_https_server_def case_prod_beta split: sum.split)
  show ?thesis
  proof (cases "server_context os cfg :: exn + 'a ssl_ctx")
    case (Inl e)
    then show ?thesis by (simp add: make_https_server_def make_https_server_ctx_def)
  next
    case (Inr c)
    obtain r cs where r: "make_https_server_ctx net (Some c) addr port reuse = (r, cs)" by force
    have *: "make_https_server os net cfg addr port reuse = (r, cs)" by (simp add: make_https_server_def Inr r)
    show ?thesis
    proof (cases r)
      case (Inl e)
      then show ?thesis using * r Inr calls [of c] by (simp add: make_https_server_ctx_def [of net None])
    next
      case p: (Inr p)
      then show ?thesis using * r Inr started_server [of net c addr port reuse cs p]
        by (simp add: make_https_server_ctx_def [of net None])
    qed
  qed
qed

text \<open>Zero or negative disables the limit: a client that never finishes the handshake then holds the fiber for ever.\<close>

lemma handshake_unlimited:
  assumes "peer_handshake peer None = None" and "t \<le> 0"
  shows "serve_connection Over_tls msg peer (set_tls_handshake_timeout t srv) env None q0 fw evs = None"
  using assms by (simp add: serve_connection_def handshake_if_ssl_def arm_deadline_def set_tls_handshake_timeout_def Let_def)

text \<open>
  The single option number: without \<open>reuse_port\<close> it is \<open>SO_REUSEADDR\<close>; with it, the combination is \<open>SO_REUSEPORT\<close> with the
  numbers of Linux and neither of the two with those of BSD systems.
\<close>

lemma reuse_option_numbers:
  "set_acceptor_reuse_options net False = Setsockopt (so_reuseaddr net)"
  "so_reuseaddr net = 2 \<Longrightarrow> so_reuseport net = 15 \<Longrightarrow> set_acceptor_reuse_options net True = Setsockopt (so_reuseport net)"
  "so_reuseaddr net = 4 \<Longrightarrow> so_reuseport net = 512 \<Longrightarrow>
     set_acceptor_reuse_options net True \<notin> {Setsockopt (so_reuseport net), Setsockopt (so_reuseaddr net)}"
  by (simp_all add: set_acceptor_reuse_options_def)

definition demo_peer :: tls_peer where
  "demo_peer = \<lparr>peer_handshake = (\<lambda>d. Some Ec_none), peer_shutdown = (\<lambda>d. map_option (\<lambda>_. Ec_beast_timeout) d)\<rparr>"

definition demo_server :: "unit server_object" where
  "demo_server = \<lparr>so_server = server_init, request_body_limit = 1024, request_header_limit = 1024,
     tls_handshake_timeout = 10000, tls_shutdown_timeout = 2000, ssl_context = Some ()\<rparr>"

section \<open>Properties\<close>

text \<open>
  C20. A TLS client cannot hold a connection: with positive timeouts, and with Beast ending an operation whose deadline
  passes, the fiber of a connection gets past the handshake and the shutdown. A handshake that fails (a timeout included)
  ends the connection with nothing read, sent or logged as a warning; after one that succeeds no deadline is left on the
  requests, what happens is what the request loop does, and the socket is closed when that ended normally.
\<close>

theorem tls_connection_bounded:
  assumes "0 < tls_handshake_timeout srv" and "0 < tls_shutdown_timeout srv"
    and "\<And>d. peer_handshake peer (Some d) \<noteq> None" and "\<And>d. peer_shutdown peer (Some d) \<noteq> None"
  shows "\<exists>ec acts l warned.
    peer_handshake peer (Some (tls_handshake_timeout srv)) = Some ec \<and>
    serve_connection Over_tls msg peer srv env None q0 fw evs = Some (acts, l, warned) \<and>
    (if ec \<noteq> Ec_none then acts = [] \<and> \<not> warned
     else \<exists>shut. conn_task env None None q0 fw evs = (acts, shut, warned) \<and>
            (if shut then \<not> sock_open l else deadline l = None))"
proof -
  obtain ec where ec: "peer_handshake peer (Some (tls_handshake_timeout srv)) = Some ec" using assms(3) by blast
  obtain ec' where ec': "peer_shutdown peer (Some (tls_shutdown_timeout srv)) = Some ec'" using assms(4) by blast
  obtain acts shut warned where t: "conn_task env None None q0 fw evs = (acts, shut, warned)" by (metis prod_cases3)
  show ?thesis using assms(1,2) ec ec' t
    by (cases "ec = Ec_none"; cases shut)
      (simp_all add: serve_connection_def handshake_if_ssl_def shutdown_ssl_def arm_deadline_def Let_def, blast+)
qed

theorem tls_connection_bounded_witness:
  "\<exists>ec acts l warned.
    peer_handshake demo_peer (Some (tls_handshake_timeout demo_server)) = Some ec \<and>
    serve_connection Over_tls (\<lambda>ec. []) demo_peer demo_server demo_env None (demo_req []) None
      [Read_ok (demo_req ''/b'') [] True True None] = Some (acts, l, warned) \<and>
    (if ec \<noteq> Ec_none then acts = [] \<and> \<not> warned
     else \<exists>shut. conn_task demo_env None None (demo_req []) None [Read_ok (demo_req ''/b'') [] True True None] =
            (acts, shut, warned) \<and> (if shut then \<not> sock_open l else deadline l = None))"
  by (rule tls_connection_bounded) (simp_all add: demo_server_def demo_peer_def)

text \<open>
  How a connection reacts when reading the next request fails: a request over a limit is answered with 413 and
  the reason, after the answers before it; the end of the stream is silent after at least one answered request and logged
  otherwise; every other code is logged and the connection is dropped without an answer.
\<close>

lemma connection_reacts_to_codes:
  assumes "conn_loop env False (acquire_request env q0) evs = (acts, Waiting)" and "ec \<noteq> Ec_none"
  shows "conn_task env None None q0 fw (evs @ [read_failed msg ec]) =
    (if ec \<in> {Ec_header_limit, Ec_body_limit, Ec_ws_buffer_overflow, Ec_ws_message_too_big} then
       (if fw = None
        then (acts @ [Sent (too_large_response env
                (if ec = Ec_header_limit then ''[asyik::overflow_error]incoming request header size is too large''
                 else ''[asyik::overflow_error]incoming request body size is too large''))], True, False)
        else (acts, False, False))
     else if ec \<in> {Ec_end_of_stream, Ec_stream_truncated, Ec_connection_reset, Ec_ws_closed, Ec_eof} then
       (acts, False, evs = [])
     else (acts, False, True))"
  using conn_loop_then_fail [OF assms(1), of "error_of_code msg ec"] assms(2)
  by (cases ec) (auto simp: conn_task_def read_failed_code error_of_code_def make_error_def caught_by_classes split: option.split)

end
