(* ===== verification/Http_Files.thy ===== *)
theory Http_Files
  imports Http_Static Http_Server
begin

text \<open>
  The static file handler as a route of a server: \<open>http_server::serve_static\<close> (\<open>include/libasyik/http_server.hpp\<close>) on the
  connections of \<open>Http_Server\<close>.
\<close>

section \<open>Static files on a connection\<close>

text \<open>
  The callback that \<open>serve_static\<close> registers: the file handler on the request's target and header fields (found without
  regard to case, the first one counts) and on the connection's response, in place.
\<close>

definition header_field :: "(string \<Rightarrow> string \<Rightarrow> bool) \<Rightarrow> http_req \<Rightarrow> string \<Rightarrow> string" where
  "header_field iequals q name =
     (case find (\<lambda>(k, v). iequals k name) (rq_headers q) of None \<Rightarrow> [] | Some (k, v) \<Rightarrow> v)"

definition static_callback ::
  "(string \<Rightarrow> string \<Rightarrow> bool) \<Rightarrow> os \<Rightarrow> string \<Rightarrow> static_file_config \<Rightarrow> os \<Rightarrow> string \<Rightarrow> callback"
where
  "static_callback iequals reg root_dir cfg sys prefix q p args =
     (let r = make_static_file_handler reg prefix root_dir cfg sys
                \<lparr>target = rq_target q, header = header_field iequals q\<rparr>
                \<lparr>status = rs_status p, body = rs_body p, headers = rs_headers p\<rparr>
      in ((q, p\<lparr>rs_status := status r, rs_body := body r, rs_headers := headers r\<rparr>, False), None))"

definition canonical :: "string \<Rightarrow> string" where
  "canonical root = (if ends_with (CHR ''/'') root then root else root @ ''/'')"

definition without_slash :: "string \<Rightarrow> string" where
  "without_slash p = (if ends_with (CHR ''/'') p then butlast p else p)"

lemma static_callback_agree:
  assumes "resolve_path reg root_dir = Some root" and "agree_inside (canonical root) sys sys'"
  shows "static_callback iequals reg root_dir cfg sys = static_callback iequals reg root_dir cfg sys'"
  using static_handler_agree [OF assms(2)] assms(1)
  by (intro ext) (simp add: static_callback_def make_static_file_handler_def canonical_def Let_def)

text \<open>A plain request for a file that is there.\<close>

lemma plain_request_full:
  assumes "header req ''If-None-Match'' = []" and "header req ''If-Modified-Since'' = []" and "header req ''Range'' = []"
    and "CHR 0x00 \<notin> set (sub_target pre (target req))"
    and "locate sys cfg root (full_path_of root (sub_target pre (target req))) = Inr (p, st)"
    and "serves sys p content" and "file_size st = int (length content)"
  shows "status (static_handler sys cfg pre root req r) = 200" and "body (static_handler sys cfg pre root req r) = content"
proof -
  have "not_modified sys cfg req st r = None" using assms(1,2) by (simp add: not_modified_def Let_def)
  moreover have "byte_range n [] = None" for n by (simp add: byte_range_def starts_with_iff Let_def)
  ultimately have "static_handler sys cfg pre root req r = full_response sys cfg p st r"
    using assms(3-5) by (simp add: static_handler_def Let_def)
  then show "status (static_handler sys cfg pre root req r) = 200" "body (static_handler sys cfg pre root req r) = content"
    using full_response_content [OF assms(6,7)] by simp_all
qed

lemma static_callback_plain:
  assumes "header_field iequals q ''If-None-Match'' = []" and "header_field iequals q ''If-Modified-Since'' = []"
    and "header_field iequals q ''Range'' = []" and "resolve_path reg root_dir = Some root"
    and "CHR 0x00 \<notin> set (sub_target (without_slash pre) (rq_target q))"
    and "locate sys cfg (canonical root)
           (full_path_of (canonical root) (sub_target (without_slash pre) (rq_target q))) = Inr (p, st)"
    and "serves sys p content" and "file_size st = int (length content)"
  shows "\<exists>hs. static_callback iequals reg root_dir cfg sys pre q res args =
    ((q, res\<lparr>rs_status := 200, rs_body := content, rs_headers := hs\<rparr>, False), None)"
proof -
  let ?req = "\<lparr>target = rq_target q, header = header_field iequals q\<rparr>"
  have "status (static_handler sys cfg (without_slash pre) (canonical root) ?req r) = 200 \<and>
      body (static_handler sys cfg (without_slash pre) (canonical root) ?req r) = content" for r
    using plain_request_full [of ?req "without_slash pre" sys cfg "canonical root"] assms by simp
  then show ?thesis
    using assms(4) by (simp add: static_callback_def make_static_file_handler_def Let_def flip: canonical_def without_slash_def, blast)
qed

text \<open>The only route of a table.\<close>

lemma find_only_route:
  assumes "fallback_routes tbl = [(m, r, cb)]" and "exact_routes tbl = []" and "prefix_routes tbl = []"
    and "iequals m meth" and "search t r = Some args"
  shows "find_route iequals search meth t tbl = Inr ((m, r, cb), args)"
  using assms by (simp add: find_route_def method_ok_def)

text \<open>A server for examples: its only route serves the directory \<open>/w\<close> of \<open>demo_os\<close> under \<open>/f\<close>.\<close>

definition demo_table :: "string \<Rightarrow> (unit, callback) route_table" where
  "demo_table secret =
     empty_table\<lparr>fallback_routes :=
       [(''GET'', (), static_callback (=) (demo_os []) ''/w'' default_config (demo_os secret) ''/f'')]\<rparr>"

definition demo_file_env :: "string \<Rightarrow> unit conn_env" where
  "demo_file_env secret = demo_env\<lparr>e_search := (\<lambda>t r. Some [t]), e_http_routes := demo_table secret\<rparr>"

lemma demo_serve_static:
  "serve_static (\<lambda>p. Some ()) ''/f'' (static_callback (=) (demo_os []) ''/w'' default_config (demo_os secret)) empty_table =
   Some (demo_table secret)"
  by (simp add: serve_static_def on_http_request_regex_def add_regex_route_def empty_table_def demo_table_def ends_with_def)

lemma demo_os_root: "resolve_path (demo_os secret) ''/w'' = Some ''/w''" "canonical ''/w'' = ''/w/''"
  by (simp_all add: resolve_path_def demo_os_def canonical_def ends_with_def)

lemma demo_os_serves: "p \<noteq> ''/s'' \<Longrightarrow> serves (demo_os secret) p ''abc''"
proof -
  assume "p \<noteq> ''/s''"
  moreover have "0 < min n 2 \<and> min n 2 \<le> n" if "0 < n" for n :: nat using that by simp
  ultimately show ?thesis unfolding serves_def demo_os_def by (auto intro: exI [of _ "min _ 2"])
qed

end
