(* ===== verification/Static_Windows.thy ===== *)
theory Static_Windows
  imports Http_Static
begin

text \<open>
  The Windows branch of the static file handler (\<open>src/http_static.cpp\<close>): the helpers that replace \<open>realpath\<close>, \<open>stat\<close>, the
  reading of files and \<open>strptime\<close>. The handler itself is the same code; on the operating system built from these helpers it
  reads exactly what the Windows helpers read.
\<close>

section \<open>The system\<close>

text \<open>
  \<open>std::filesystem::canonical\<close> with \<open>generic_u8string\<close>, \<open>_wstat64\<close> (mode, time, size), a file stream (whether it opens, whether a
  seek succeeds, what a read gives), \<open>std::get_time\<close> with \<open>_mkgmtime\<close>, and \<open>strftime\<close>.
\<close>

record win =
  win_canonical :: "string \<Rightarrow> string option"
  win_stat :: "string \<Rightarrow> (u32 \<times> int \<times> int) option"
  win_is_open :: "string \<Rightarrow> bool"
  win_seekg :: "string \<Rightarrow> int \<Rightarrow> bool"
  win_read :: "string \<Rightarrow> int \<Rightarrow> nat \<Rightarrow> string"
  win_get_time :: "string \<Rightarrow> string \<Rightarrow> int option"
  win_strftime :: "string \<Rightarrow> int \<Rightarrow> string"

section \<open>The helpers\<close>

definition resolve_path_win :: "win \<Rightarrow> string \<Rightarrow> string option" where
  "resolve_path_win w path = win_canonical w path"

text \<open>The kind of a file is in the bits \<open>_S_IFMT\<close> of its mode.\<close>

definition stat_path_win :: "win \<Rightarrow> string \<Rightarrow> file_info option" where
  "stat_path_win w path =
     map_option (\<lambda>(mode, mt, size). \<lparr>is_dir = (and mode 0xF000 = 0x4000), is_regular = (and mode 0xF000 = 0x8000), mtime = mt,
       file_size = size\<rparr>) (win_stat w path)"

text \<open>\<open>ifstream::read\<close> fails unless it gets all the bytes.\<close>

definition read_file_range_win :: "win \<Rightarrow> string \<Rightarrow> int \<Rightarrow> nat \<Rightarrow> string option" where
  "read_file_range_win w path offset len =
     (if \<not> win_is_open w path then None
      else if \<not> win_seekg w path offset then None
      else if length (win_read w path offset len) = len then Some (win_read w path offset len) else None)"

text \<open>The replacement of \<open>strptime\<close> with \<open>timegm\<close>; the day of the third date format is \<open>%d\<close> there.\<close>

definition strptime_win :: "win \<Rightarrow> string \<Rightarrow> string \<Rightarrow> int option" where
  "strptime_win w s fmt =
     win_get_time w s (if fmt = ''%a %b %e %H:%M:%S %Y'' then ''%a %b %d %H:%M:%S %Y'' else fmt)"

definition os_of_win :: "win \<Rightarrow> os" where
  "os_of_win w =
     \<lparr>os_realpath = resolve_path_win w, os_stat = stat_path_win w, os_open = win_is_open w, os_lseek = win_seekg w,
      os_read = (\<lambda>path pos n. if length (win_read w path pos n) = n then Some (win_read w path pos n) else None),
      os_strptime_gm = strptime_win w, os_gm_strftime = win_strftime w\<rparr>"

section \<open>Lemmas\<close>

text \<open>The handler reads what the Windows helper reads.\<close>

lemma windows_reads_same:
  assumes "0 < len"
  shows "read_file_range (os_of_win w) path offset len = read_file_range_win w path offset len"
  using assms by (auto simp: read_file_range_def read_range_def read_file_range_win_def os_of_win_def read_loop.simps)

lemma windows_helpers_same:
  "resolve_path (os_of_win w) = resolve_path_win w" "stat_path (os_of_win w) = stat_path_win w"
  by (simp_all add: resolve_path_def stat_path_def os_of_win_def fun_eq_iff)

text \<open>A file is a directory or a regular file, not both.\<close>

lemma windows_kinds_exclusive: "stat_path_win w path = Some st \<Longrightarrow> \<not> (is_dir st \<and> is_regular st)"
  by (auto simp: stat_path_win_def)

text \<open>On Windows too, files outside the root do not influence a response.\<close>

lemma windows_files_confined:
  assumes "agree_inside root (os_of_win w) (os_of_win w')"
  shows "static_handler (os_of_win w) cfg pre root req r = static_handler (os_of_win w') cfg pre root req r"
  by (rule static_handler_agree [OF assms])

end
