(* ===== verification/Digest_Auth.thy ===== *)
theory Digest_Auth
  imports Asyik_Prelude "HOL-Library.Monad_Syntax"
begin

text \<open>
  The digest authenticator of the HTTP client (\<open>include/libasyik/internal/digestauth.hpp\<close>). The search
  \<open>boost::regex_search\<close> for \<open>key=([^,]+)\<close> (position and length of the first submatch), \<open>boost::iequals\<close>, MD5 and
  the hexadecimal encoder are arguments. Section values are \<open>string_view\<close>s into the header, a start and a 64-bit size, which the
  code computes by decrementing; using a view that leaves the header is undefined behaviour, and \<open>None\<close> here.
\<close>

section \<open>Views\<close>

type_synonym view = "nat \<times> u64"

definition view_read :: "string \<Rightarrow> view \<Rightarrow> string option" where
  "view_read s v =
     (if fst v + unat (snd v) \<le> length s then Some (take (unat (snd v)) (drop (fst v) s)) else None)"

definition empty_view :: view where
  "empty_view = (0, 0)"

section \<open>The challenge\<close>

record digest_lib =
  lib_search :: "string \<Rightarrow> string \<Rightarrow> (nat \<times> nat) option"
  lib_iequals :: "string \<Rightarrow> string \<Rightarrow> bool"
  lib_md5 :: "string \<Rightarrow> string"
  lib_hex :: "string \<Rightarrow> string"

definition findSection :: "digest_lib \<Rightarrow> string \<Rightarrow> string \<Rightarrow> view option" where
  "findSection lib s key =
     (case lib_search lib key s of
        None \<Rightarrow> None
      | Some (i, n) \<Rightarrow>
          (let size = (of_nat n :: u64);
               (start, size1) = (if s ! i = CHR 0x22 then (i + 1, size - 1) else (i, size));
               size2 = (if s ! (i + n - 1) = CHR 0x22 then size1 - 1 else size1)
           in Some (start, size2)))"

datatype quality_of_protection = None_qop | Auth | AuthInt

text \<open>\<open>findQop\<close>, after the view was read: \<open>auth-int\<close> is used only when the answer to the first request had a body.\<close>

definition findQop :: "digest_lib \<Rightarrow> string \<Rightarrow> string \<Rightarrow> quality_of_protection option" where
  "findQop lib s body =
     (case findSection lib s ''qop'' of
        None \<Rightarrow> Some None_qop
      | Some v \<Rightarrow>
          do {
            qop \<leftarrow> view_read s v;
            Some (if lib_iequals lib qop ''auth-int'' \<and> body \<noteq> [] then AuthInt else Auth)
          })"

section \<open>The authenticator\<close>

text \<open>The members the constructor sets, and those a call of \<open>generateAuthorization\<close> fills in.\<close>

record digest_authenticator =
  m_authenticate :: string
  m_username :: string
  m_password :: string
  m_uri :: string
  m_method :: string
  m_body :: string

record digest_answer = digest_authenticator +
  m_realm :: string
  m_nonce :: string
  m_opaque :: string
  m_algorithm :: string
  m_qop :: quality_of_protection
  m_cnonce :: string
  m_nonceCount :: string

section \<open>Hashes\<close>

definition calculateHA1 :: "digest_lib \<Rightarrow> digest_answer \<Rightarrow> string" where
  "calculateHA1 lib d =
     (let ha1 = lib_md5 lib (m_username d @ '':'' @ m_realm d @ '':'' @ m_password d) in
      if lib_iequals lib (m_algorithm d) ''md5-sess''
      then lib_md5 lib (ha1 @ '':'' @ m_nonce d @ '':'' @ m_cnonce d) else ha1)"

definition calculateHA2 :: "digest_lib \<Rightarrow> digest_answer \<Rightarrow> string" where
  "calculateHA2 lib d =
     lib_md5 lib (m_method d @ '':'' @ m_uri d @ (if m_qop d = AuthInt then '':'' @ m_body d else []))"

definition calculateResponse :: "digest_lib \<Rightarrow> digest_answer \<Rightarrow> string \<Rightarrow> string \<Rightarrow> string" where
  "calculateResponse lib d m_ha1 m_ha2 =
     lib_md5 lib (m_ha1 @ '':'' @ m_nonce d @ '':'' @
       (if m_qop d \<noteq> None_qop
        then m_nonceCount d @ '':'' @ m_cnonce d @ '':'' @ (if m_qop d = AuthInt then ''auth-int'' else ''auth'') @ '':''
        else []) @ m_ha2)"

section \<open>The authorization header\<close>

text \<open>\<open>generateNonce\<close>: the length and the digits drawn from \<open>std::random_device\<close>.\<close>

definition generateNonce :: "nat \<Rightarrow> (nat \<Rightarrow> nat) \<Rightarrow> string" where
  "generateNonce len distNum = map (\<lambda>i. hex_digit (distNum i)) [0..<len]"

text \<open>\<open>updateNonceCount\<close>: a counter of the process, an \<open>unsigned int\<close>.\<close>

definition updateNonceCount :: "u32 \<Rightarrow> string \<times> u32" where
  "updateNonceCount s_nonceCount = (dec_nat (unat (s_nonceCount + 1)), s_nonceCount + 1)"

definition quote :: "string \<Rightarrow> string" where
  "quote s = [CHR 0x22] @ s @ [CHR 0x22]"

definition auth_header :: "digest_answer \<Rightarrow> string \<Rightarrow> string" where
  "auth_header d response =
     ''Digest username='' @ quote (m_username d) @ '', realm='' @ quote (m_realm d) @ '', nonce='' @ quote (m_nonce d) @
     '', uri='' @ quote (m_uri d) @
     (if m_qop d \<noteq> None_qop
      then '', qop='' @ (if m_qop d = AuthInt then ''auth-int'' else ''auth'') @ '', algorithm=MD5, nc='' @ m_nonceCount d @
           '', cnonce='' @ quote (m_cnonce d) @ '', response=''
      else '', algorithm=MD5, response='') @
     quote response @ (if m_opaque d \<noteq> [] then '', opaque='' @ quote (m_opaque d) else [])"

definition m_response :: "digest_lib \<Rightarrow> digest_answer \<Rightarrow> string" where
  "m_response lib d =
     lib_hex lib (calculateResponse lib d (lib_hex lib (calculateHA1 lib d)) (lib_hex lib (calculateHA2 lib d)))"

text \<open>
  \<open>generateAuthorization\<close> with the nonce \<open>cnonce\<close> drawn by \<open>generateNonce\<close> and the counter before the call. The outer
  \<open>None\<close> is the use of a view outside the header, the inner one that the function returns \<open>false\<close>.
\<close>

definition generateAuthorization ::
  "digest_lib \<Rightarrow> string \<Rightarrow> u32 \<Rightarrow> digest_authenticator \<Rightarrow> (string option \<times> u32) option"
where
  "generateAuthorization lib cnonce count0 a =
     (let s = m_authenticate a in
      case findSection lib s ''nonce'' of
        None \<Rightarrow> Some (None, count0)
      | Some vnonce \<Rightarrow>
          (case findSection lib s ''realm'' of
             None \<Rightarrow> Some (None, count0)
           | Some vrealm \<Rightarrow>
               do {
                 qop \<leftarrow> findQop lib s (m_body a);
                 (nonceCount, count1) \<leftarrow> Some (updateNonceCount count0);
                 realm \<leftarrow> view_read s vrealm;
                 algorithm \<leftarrow> view_read s (case findSection lib s ''algorithm'' of None \<Rightarrow> empty_view | Some v \<Rightarrow> v);
                 nonce \<leftarrow> view_read s vnonce;
                 opaque \<leftarrow> view_read s (case findSection lib s ''opaque'' of None \<Rightarrow> empty_view | Some v \<Rightarrow> v);
                 let d = \<lparr>m_authenticate = m_authenticate a, m_username = m_username a, m_password = m_password a,
                          m_uri = m_uri a, m_method = m_method a, m_body = m_body a, m_realm = realm, m_nonce = nonce,
                          m_opaque = opaque, m_algorithm = algorithm, m_qop = qop, m_cnonce = cnonce,
                          m_nonceCount = nonceCount\<rparr>;
                 Some (Some (auth_header d (m_response lib d)), count1)
               }))"

section \<open>What the library functions promise\<close>

text \<open>
  The leftmost match of \<open>key=([^,]+)\<close>: where the key and the equals sign are followed by a character
  that is no comma; the submatch extends to the next comma or the end.
\<close>

definition section_at :: "string \<Rightarrow> string \<Rightarrow> nat \<Rightarrow> bool" where
  "section_at key s i \<longleftrightarrow>
     starts_with (drop i s) (key @ ''='') \<and> takeWhile (\<lambda>c. c \<noteq> CHR '','') (drop (i + length key + 1) s) \<noteq> []"

definition search_spec :: "digest_lib \<Rightarrow> bool" where
  "search_spec lib \<longleftrightarrow>
     (\<forall>key s. case lib_search lib key s of
        None \<Rightarrow> \<not> (\<exists>i < length s. section_at key s i)
      | Some (j, n) \<Rightarrow>
          \<exists>i. section_at key s i \<and> (\<forall>i' < i. \<not> section_at key s i') \<and> j = i + length key + 1 \<and>
              n = length (takeWhile (\<lambda>c. c \<noteq> CHR '','') (drop j s)))"

text \<open>The raw value of a section, with its quotes.\<close>

definition raw_value :: "digest_lib \<Rightarrow> string \<Rightarrow> string \<Rightarrow> string option" where
  "raw_value lib s key = map_option (\<lambda>(j, n). take n (drop j s)) (lib_search lib key s)"

definition unquote :: "string \<Rightarrow> string" where
  "unquote r =
     (let r1 = (if hd r = CHR 0x22 then tl r else r) in if last r = CHR 0x22 then butlast r1 else r1)"

text \<open>The value a section is read as: absent sections are empty.\<close>

definition section_value :: "digest_lib \<Rightarrow> string \<Rightarrow> string \<Rightarrow> string" where
  "section_value lib s key = (case raw_value lib s key of None \<Rightarrow> [] | Some r \<Rightarrow> unquote r)"

definition chosen_qop :: "digest_lib \<Rightarrow> string \<Rightarrow> string \<Rightarrow> quality_of_protection" where
  "chosen_qop lib s body =
     (case raw_value lib s ''qop'' of
        None \<Rightarrow> None_qop
      | Some r \<Rightarrow> if lib_iequals lib (unquote r) ''auth-int'' \<and> body \<noteq> [] then AuthInt else Auth)"

definition lone_quote :: "digest_lib \<Rightarrow> string \<Rightarrow> string \<Rightarrow> bool" where
  "lone_quote lib s key \<longleftrightarrow> raw_value lib s key = Some [CHR 0x22]"

text \<open>
  The request digest of RFC 2617 for the algorithm MD5: the hash of the digest of the user's
  credentials, the nonce, the counter, client nonce and quality when one is used, and the digest of method
  and target.
\<close>

definition rfc_digest :: "(string \<Rightarrow> string) \<Rightarrow> digest_answer \<Rightarrow> string" where
  "rfc_digest H d =
     (let A1 = m_username d @ '':'' @ m_realm d @ '':'' @ m_password d; A2 = m_method d @ '':'' @ m_uri d in
      case m_qop d of
        None_qop \<Rightarrow> H (H A1 @ '':'' @ m_nonce d @ '':'' @ H A2)
      | _ \<Rightarrow> H (H A1 @ '':'' @ m_nonce d @ '':'' @ m_nonceCount d @ '':'' @ m_cnonce d @ '':auth:'' @ H A2))"

text \<open>What the authenticator knows after reading a challenge whose sections can be read.\<close>

definition understood :: "digest_lib \<Rightarrow> string \<Rightarrow> u32 \<Rightarrow> digest_authenticator \<Rightarrow> digest_answer" where
  "understood lib cnonce n a =
     (let s = m_authenticate a in
      \<lparr>m_authenticate = s, m_username = m_username a, m_password = m_password a,
       m_uri = m_uri a, m_method = m_method a, m_body = m_body a, m_realm = section_value lib s ''realm'',
       m_nonce = section_value lib s ''nonce'', m_opaque = section_value lib s ''opaque'',
       m_algorithm = section_value lib s ''algorithm'', m_qop = chosen_qop lib s (m_body a), m_cnonce = cnonce,
       m_nonceCount = dec_nat (unat (n + 1))\<rparr>)"

section \<open>Lemmas\<close>


text \<open>A client nonce needs no quoting: it has no comma and no quotation mark.\<close>

lemma generateNonce_plain:
  assumes "\<And>i. distNum i < 16"
  shows "length (generateNonce len distNum) = len \<and> CHR '','' \<notin> set (generateNonce len distNum) \<and>
    CHR 0x22 \<notin> set (generateNonce len distNum)"
proof -
  have "\<forall>d \<in> set [0..<16]. hex_digit d \<noteq> CHR '','' \<and> hex_digit d \<noteq> CHR 0x22" by code_simp
  then have "hex_digit d \<noteq> CHR '','' \<and> hex_digit d \<noteq> CHR 0x22" if "d < 16" for d using that by simp
  then show ?thesis using assms by (auto simp: generateNonce_def) metis+
qed

lemma lib_search_bounds:
  assumes "search_spec lib" and "lib_search lib key s = Some (j, n)"
  shows "0 < n \<and> j + n \<le> length s"
proof -
  have "case lib_search lib key s of None \<Rightarrow> \<not> (\<exists>i < length s. section_at key s i)
      | Some (j, n) \<Rightarrow> \<exists>i. section_at key s i \<and> (\<forall>i' < i. \<not> section_at key s i') \<and> j = i + length key + 1 \<and>
          n = length (takeWhile (\<lambda>c. c \<noteq> CHR '','') (drop j s))"
    using assms(1) unfolding search_spec_def by blast
  then obtain i where i: "section_at key s i" "j = i + length key + 1"
    "n = length (takeWhile (\<lambda>c. c \<noteq> CHR '','') (drop j s))"
    using assms(2) by auto
  then have "0 < n" by (simp add: section_at_def)
  moreover have "n \<le> length s - j" using i(3) length_takeWhile_le [of _ "drop j s"] by simp
  ultimately show ?thesis by auto
qed

lemma unat_of_nat_u64: "n < 2 ^ 64 \<Longrightarrow> unat (of_nat n :: u64) = n"
  by (simp add: unsigned_of_nat take_bit_nat_eq_self)

lemma unquote_take_drop:
  assumes "j + n \<le> length s" and "2 \<le> n"
  shows "unquote (take n (drop j s)) =
    (let a = if s ! j = CHR 0x22 then 1 else 0; b = if s ! (j + n - 1) = CHR 0x22 then 1 else 0
     in take (n - a - b) (drop (j + a) s))"
proof -
  have hd: "hd (take n (drop j s)) = s ! j" using assms by (simp add: hd_drop_conv_nth)
  have last: "last (take n (drop j s)) = s ! (j + n - 1)" using assms by (simp add: last_conv_nth)
  have tl: "tl (take n (drop j s)) = take (n - 1) (drop (j + 1) s)" by (simp add: tl_take tl_drop drop_Suc)
  have bl: "butlast (take m (drop k s)) = take (m - 1) (drop k s)" if "m \<le> n" "m + k \<le> length s" for m k
    using that by (simp add: butlast_take)
  show ?thesis using assms by (simp add: unquote_def hd last tl bl Let_def del: drop_drop)
qed

lemma unat_minus_one_u64: "unat (- 1 :: u64) = 2 ^ 64 - 1"
  by (simp add: unsigned_minus_1_eq_mask mask_eq_exp_minus_1)

lemma findSection_read:
  assumes "search_spec lib" and "length s < 2 ^ 64" and "raw_value lib s key = Some r"
  shows "\<exists>v. findSection lib s key = Some v \<and> view_read s v = (if r = [CHR 0x22] then None else Some (unquote r))"
proof -
  obtain j n where jn: "lib_search lib key s = Some (j, n)" and r: "r = take n (drop j s)"
    using assms(3) by (auto simp: raw_value_def)
  have b: "0 < n" "j + n \<le> length s" using lib_search_bounds [OF assms(1) jn] by auto
  then have len: "length r = n" by (simp add: r)
  have hd: "hd r = s ! j" using b by (simp add: r hd_drop_conv_nth)
  have last: "last r = s ! (j + n - 1)"
    using b len by (simp add: r last_conv_nth)
  have w: "(of_nat n :: u64) - 1 = of_nat (n - 1)" using b by simp
  show ?thesis
  proof (cases "n = 1")
    case True
    then obtain c where c: "r = [c]" using len by (cases r) auto
    then show ?thesis using b hd jn True assms(2)
      by (auto simp: findSection_def view_read_def unquote_def r unat_of_nat_u64 unat_minus_one_u64)
  next
    case False
    then have n2: "2 \<le> n" using b by simp
    have w2: "(of_nat n :: u64) - 2 = of_nat (n - 2)" using n2 by (simp add: of_nat_diff)
    have small: "n < 2 ^ 64" using b assms(2) by simp
    have u: "unat ((of_nat n :: u64) - 1) = n - 1" "unat ((of_nat n :: u64) - 2) = n - 2" "unat (of_nat n :: u64) = n"
      unfolding w w2 using small by (simp_all only: unat_of_nat_u64 less_imp_diff_less)
    have "r \<noteq> [CHR 0x22]" using len False by auto
    then show ?thesis using jn b n2 u
      by (simp add: findSection_def view_read_def r unquote_take_drop Let_def numeral_2_eq_2) auto
  qed
qed

lemma findSection_none: "findSection lib s key = None \<longleftrightarrow> raw_value lib s key = None"
  by (auto simp: findSection_def raw_value_def Let_def split: option.split)

text \<open>The value of an optional section: absent is the empty view.\<close>

lemma optional_read:
  assumes "search_spec lib" and "length s < 2 ^ 64"
  shows "view_read s (case findSection lib s key of None \<Rightarrow> empty_view | Some v \<Rightarrow> v) =
    (case raw_value lib s key of
       None \<Rightarrow> Some []
     | Some r \<Rightarrow> if r = [CHR 0x22] then None else Some (unquote r))"
proof (cases "raw_value lib s key")
  case None
  moreover from None have "findSection lib s key = None" by (simp add: findSection_none)
  ultimately show ?thesis by (simp add: empty_view_def view_read_def)
next
  case (Some r)
  then show ?thesis using findSection_read [OF assms Some] by auto
qed

lemma findQop_value:
  assumes "search_spec lib" and "length s < 2 ^ 64"
  shows "findQop lib s body = (if raw_value lib s ''qop'' = Some [CHR 0x22] then None else Some (chosen_qop lib s body))"
proof (cases "raw_value lib s ''qop''")
  case None
  moreover from None have "findSection lib s ''qop'' = None" by (simp add: findSection_none)
  ultimately show ?thesis by (simp add: findQop_def chosen_qop_def)
next
  case (Some r)
  then show ?thesis using findSection_read [OF assms Some] by (auto simp: findQop_def chosen_qop_def)
qed

lemma generateAuthorization_eq:
  assumes "search_spec lib" and "length (m_authenticate a) < 2 ^ 64"
    and "\<forall>key \<in> {''nonce'', ''realm'', ''opaque'', ''qop'', ''algorithm''}. \<not> lone_quote lib (m_authenticate a) key"
    and "raw_value lib (m_authenticate a) ''nonce'' \<noteq> None" and "raw_value lib (m_authenticate a) ''realm'' \<noteq> None"
  shows "generateAuthorization lib cnonce n a =
    Some (Some (auth_header (understood lib cnonce n a) (m_response lib (understood lib cnonce n a))), n + 1)"
proof -
  let ?s = "m_authenticate a"
  obtain rn where rn: "raw_value lib ?s ''nonce'' = Some rn" "rn \<noteq> [CHR 0x22]" using assms(3,4) by (auto simp: lone_quote_def)
  obtain rr where rr: "raw_value lib ?s ''realm'' = Some rr" "rr \<noteq> [CHR 0x22]" using assms(3,5) by (auto simp: lone_quote_def)
  obtain vn where vn: "findSection lib ?s ''nonce'' = Some vn" "view_read ?s vn = Some (unquote rn)"
    using findSection_read [OF assms(1,2) rn(1)] rn(2) by auto
  obtain vr where vr: "findSection lib ?s ''realm'' = Some vr" "view_read ?s vr = Some (unquote rr)"
    using findSection_read [OF assms(1,2) rr(1)] rr(2) by auto
  have opt: "view_read ?s (case findSection lib ?s key of None \<Rightarrow> empty_view | Some v \<Rightarrow> v) = Some (section_value lib ?s key)"
    if "key \<in> {''opaque'', ''algorithm''}" for key
    using assms(3) that optional_read [OF assms(1,2), of key]
    by (auto simp: section_value_def lone_quote_def split: option.splits)
  have q: "findQop lib ?s (m_body a) = Some (chosen_qop lib ?s (m_body a))"
    using assms(3) by (simp add: findQop_value [OF assms(1,2)] lone_quote_def)
  show ?thesis
    using vn vr rn rr by (simp add: generateAuthorization_def opt q section_value_def [of _ _ "''nonce''"]
        section_value_def [of _ _ "''realm''"] updateNonceCount_def understood_def Let_def)
qed

lemma generateAuthorization_fault:
  assumes "search_spec lib" and "length (m_authenticate a) < 2 ^ 64"
    and "raw_value lib (m_authenticate a) ''nonce'' = Some rn" and "raw_value lib (m_authenticate a) ''realm'' = Some rr"
    and "key \<in> {''nonce'', ''realm'', ''opaque'', ''qop'', ''algorithm''}" and "lone_quote lib (m_authenticate a) key"
  shows "generateAuthorization lib cnonce n a = None"
proof -
  let ?s = "m_authenticate a"
  obtain vn where vn: "findSection lib ?s ''nonce'' = Some vn"
    "view_read ?s vn = (if rn = [CHR 0x22] then None else Some (unquote rn))"
    using findSection_read [OF assms(1-3)] by auto
  obtain vr where vr: "findSection lib ?s ''realm'' = Some vr"
    "view_read ?s vr = (if rr = [CHR 0x22] then None else Some (unquote rr))"
    using findSection_read [OF assms(1,2,4)] by auto
  show ?thesis
    using assms(3-6) vn vr
    by (auto simp: generateAuthorization_def optional_read [OF assms(1,2)] findQop_value [OF assms(1,2)]
        lone_quote_def updateNonceCount_def Let_def bind_eq_None_conv split: option.splits if_splits)
qed

section \<open>Properties\<close>

text \<open>The search written out, for examples.\<close>

definition section_search :: "string \<Rightarrow> string \<Rightarrow> (nat \<times> nat) option" where
  "section_search key s =
     map_option (\<lambda>i. (i + length key + 1, length (takeWhile (\<lambda>c. c \<noteq> CHR '','') (drop (i + length key + 1) s))))
       (List.find (section_at key s) [0..<length s])"

definition demo_digest_lib :: digest_lib where
  "demo_digest_lib = \<lparr>lib_search = section_search, lib_iequals = (=), lib_md5 = rev, lib_hex = (\<lambda>s. s)\<rparr>"

lemma demo_search_spec: "search_spec demo_digest_lib"
  unfolding search_spec_def demo_digest_lib_def digest_lib.simps section_search_def
  by (auto simp: find_None_iff find_Some_iff split: option.split)

text \<open>
  The parser of a challenge leaves the header exactly in one case: the challenge has a nonce and a realm, and one of
  the sections nonce, realm, opaque, qop or algorithm has a single quotation mark as its value. Both quotes are
  stripped from the one character, the size wraps around, and the client reads beyond the header the server sent.
\<close>

lemma digest_overrun_iff:
  assumes "search_spec lib" and "length (m_authenticate a) < 2 ^ 64"
  shows "generateAuthorization lib cnonce n a = None \<longleftrightarrow>
    raw_value lib (m_authenticate a) ''nonce'' \<noteq> None \<and> raw_value lib (m_authenticate a) ''realm'' \<noteq> None \<and>
    (\<exists>key \<in> {''nonce'', ''realm'', ''opaque'', ''qop'', ''algorithm''}. lone_quote lib (m_authenticate a) key)"
proof -
  have "generateAuthorization lib cnonce n a \<noteq> None"
    if "raw_value lib (m_authenticate a) ''nonce'' = None \<or> raw_value lib (m_authenticate a) ''realm'' = None"
    using that by (auto simp: generateAuthorization_def Let_def findSection_none [THEN iffD2] split: option.splits)
  then show ?thesis
    using generateAuthorization_eq [OF assms, of cnonce n] generateAuthorization_fault [OF assms]
    by (fastforce simp: Let_def)
qed



end
