(* ===== verification/Http_Client.thy ===== *)
theory Http_Client
  imports Digest_Auth Errors
begin

text \<open>
  The HTTP client (\<open>include/libasyik/http.hpp\<close>, \<open>include/libasyik/http_client.hpp\<close>,
  \<open>src/http_common.cpp\<close>) and the opening of websocket connections (\<open>src/http_websocket*.cpp\<close>). The URL parser
  (Boost.URL), Beast's parser and the network are arguments; a connection's input is the bytes in the buffer and the
  results of the reads to come.
\<close>

section \<open>URLs\<close>

datatype url_scheme = Sch_http | Sch_https | Sch_ws | Sch_wss | Sch_other | Sch_none

record url_view =
  u_scheme :: url_scheme
  u_host :: string
  u_encoded_host :: string
  u_port :: u16
  u_user :: string
  u_password :: string
  u_resource :: string

record http_url_scheme =
  host :: string
  username :: string
  password :: string
  is_ssl :: bool
  port :: u16
  target :: string

definition http_analyze_url :: "(string \<Rightarrow> url_view option) \<Rightarrow> string \<Rightarrow> http_url_scheme option" where
  "http_analyze_url parse_uri u =
     (case parse_uri u of
        None \<Rightarrow> None
      | Some uv \<Rightarrow>
          if u_host uv = [] then None
          else
            let ssl = (u_scheme uv = Sch_https \<or> u_scheme uv = Sch_wss) in
            Some \<lparr>host = u_encoded_host uv, username = u_user uv, password = u_password uv, is_ssl = ssl,
                  port = (if u_port uv = 0 \<and> u_scheme uv \<noteq> Sch_none then (if ssl then 443 else 80) else u_port uv),
                  target = u_resource uv\<rparr>)"

section \<open>Requests\<close>

record client_request =
  cr_method :: string
  cr_target :: string
  cr_headers :: "(string \<times> string) list"
  cr_body :: string

text \<open>\<open>set\<close> replaces every field of the name, compared without case (\<open>ieq\<close>).\<close>

definition set_field ::
  "(string \<Rightarrow> string \<Rightarrow> bool) \<Rightarrow> string \<Rightarrow> string \<Rightarrow> (string \<times> string) list \<Rightarrow> (string \<times> string) list"
where
  "set_field ieq name v hs = filter (\<lambda>p. \<not> ieq (fst p) name) hs @ [(name, v)]"

definition host_header :: "http_url_scheme \<Rightarrow> string" where
  "host_header sch =
     (if port sch = 80 \<or> port sch = 443 then host sch else host sch @ '':'' @ dec_nat (unat (port sch)))"

text \<open>\<open>auth\<close> is the authorization of a retry; \<open>headers\<close> the caller's map in its order.\<close>

definition build_request ::
  "(string \<Rightarrow> string \<Rightarrow> bool) \<Rightarrow> string \<Rightarrow> http_url_scheme \<Rightarrow> string option \<Rightarrow> string \<Rightarrow> string
     \<Rightarrow> (string \<times> string) list \<Rightarrow> client_request"
where
  "build_request ieq version sch auth meth data headers =
     (let h1 = set_field ieq ''Accept'' ''*/*''
                 (set_field ieq ''User-Agent'' version (set_field ieq ''Host'' (host_header sch) []));
          h2 = (case auth of
                  None \<Rightarrow> h1
                | Some a \<Rightarrow> set_field ieq ''Authorization'' a (set_field ieq ''Accept-Encoding'' ''identity'' h1));
          h3 = foldl (\<lambda>hs (k, v). set_field ieq k v hs) h2 headers;
          h4 = (if data \<noteq> [] \<and> \<not> list_ex (\<lambda>p. ieq (fst p) ''Content-Type'') h3
                then set_field ieq ''Content-Type'' ''text/html'' h3 else h3)
      in \<lparr>cr_method = meth, cr_target = (if target sch \<noteq> [] then target sch else ''/''),
          cr_headers = set_field ieq ''Connection'' ''Keep-Alive'' h4, cr_body = data\<rparr>)"

section \<open>Multipart responses\<close>

text \<open>\<open>string_view::find(string)\<close>.\<close>

fun sub_find :: "string \<Rightarrow> string \<Rightarrow> nat option" where
  "sub_find p [] = (if p = [] then Some 0 else None)"
| "sub_find p (c # s) = (if starts_with (c # s) p then Some 0 else map_option Suc (sub_find p s))"

text \<open>
  The eight patterns of \<open>deduce_boundary\<close>: \<open>^multipart/\<close>subtype\<open>\s*;\s*boundary="([^"]+)"$\<close> and the same without
  quotes, compared without case. White space cannot match what follows it, so the match is unique.
\<close>

definition lower :: "char \<Rightarrow> char" where
  "lower c = (if 65 \<le> (of_char c :: nat) \<and> (of_char c :: nat) \<le> 90 then char_of (of_char c + 32 :: nat) else c)"

definition strip_icase :: "string \<Rightarrow> string \<Rightarrow> string option" where
  "strip_icase p s =
     (if length p \<le> length s \<and> map lower (take (length p) s) = map lower p then Some (drop (length p) s) else None)"

definition quoted_capture :: "string \<Rightarrow> string option" where
  "quoted_capture s =
     (if length s \<ge> 3 \<and> hd s = CHR 0x22 \<and> last s = CHR 0x22 \<and> CHR 0x22 \<notin> set (butlast (tl s))
      then Some (butlast (tl s)) else None)"

definition plain_capture :: "string \<Rightarrow> string option" where
  "plain_capture s = (if s \<noteq> [] \<and> CHR 0x22 \<notin> set s then Some s else None)"

definition match_boundary :: "(string \<Rightarrow> string option) \<Rightarrow> string \<Rightarrow> string \<Rightarrow> string option" where
  "match_boundary capture subtype s =
     do {
       s1 \<leftarrow> strip_icase (''multipart/'' @ subtype) s;
       s2 \<leftarrow> strip_icase '';'' (dropWhile isspace s1);
       s3 \<leftarrow> strip_icase ''boundary='' (dropWhile isspace s2);
       capture s3
     }"

fun first_some :: "'a option list \<Rightarrow> 'a option" where
  "first_some [] = None"
| "first_some (Some x # xs) = Some x"
| "first_some (None # xs) = first_some xs"

definition deduce_boundary :: "string \<Rightarrow> string option" where
  "deduce_boundary content_type =
     first_some (concat (map (\<lambda>t. [match_boundary quoted_capture t content_type, match_boundary plain_capture t content_type])
       [''mixed-replace'', ''mixed'', ''x-mixed-replace'', ''form-data'']))"

text \<open>
  The input of a connection: the buffer and the results of the reads to come. Running out of them means that the fiber waits.
\<close>

record stream =
  buf :: string
  incoming :: "(exn + string) list"

function find_multipart_boundary :: "string \<Rightarrow> stream \<Rightarrow> (exn + bool \<times> stream) option" where
  "find_multipart_boundary boundary st =
     (let boundary_line = boundary @ [CHR 0x0D, CHR 0x0A];
          terminate_line = boundary @ ''--'' @ [CHR 0x0D, CHR 0x0A]
      in case sub_find boundary_line (buf st) of
           Some pos \<Rightarrow> Some (Inr (True, st\<lparr>buf := drop (pos + length boundary_line) (buf st)\<rparr>))
         | None \<Rightarrow>
             if sub_find terminate_line (buf st) \<noteq> None then Some (Inr (False, st))
             else
               case incoming st of
                 [] \<Rightarrow> None
               | Inl e # rs \<Rightarrow> Some (Inl e)
               | Inr bytes # rs \<Rightarrow> find_multipart_boundary boundary \<lparr>buf = buf st @ bytes, incoming = rs\<rparr>)"
  by pat_completeness auto
termination by (relation "measure (\<lambda>(b, st). length (incoming st))") auto

declare find_multipart_boundary.simps [simp del]

section \<open>One exchange\<close>

record head =
  h_status :: nat
  h_content_type :: "string option"
  h_www_authenticate :: string
  h_content_length :: "nat option"

record client_response =
  rp_head :: head
  rp_body :: string

text \<open>
  Beast's reading of a header and of a body from a stream, with the limits on their sizes (\<open>None\<close>: the fiber waits); the
  network: opening a connection for the \<open>n\<close>-th request, with the host's resolution and the TLS handshake, and
  the outcome of writing the request; the exception for a method name Beast does not know; the client
  nonce of the \<open>n\<close>-th request. (\<open>prepare_payload\<close> adds the length of the body when the request is written.)
\<close>

type_synonym 'a reading = "(exn + 'a) option"

record net =
  n_parse_uri :: "string \<Rightarrow> url_view option"
  n_verb :: "string \<Rightarrow> exn option"
  n_ieq :: "string \<Rightarrow> string \<Rightarrow> bool"
  n_version :: string
  n_read_header :: "stream \<Rightarrow> (head \<times> stream) reading"
  n_read_body :: "head \<Rightarrow> stream \<Rightarrow> (client_response \<times> stream) reading"
  n_open :: "nat \<Rightarrow> http_url_scheme \<Rightarrow> client_request \<Rightarrow> exn + stream"
  n_write :: "nat \<Rightarrow> exn option"
  n_cnonce :: "nat \<Rightarrow> string"
  n_digest :: digest_lib

text \<open>One part: its header must give the length of its body.\<close>

definition read_part :: "net \<Rightarrow> stream \<Rightarrow> (client_response \<times> stream) reading" where
  "read_part net st =
     (case n_read_header net st of
        None \<Rightarrow> None
      | Some (Inl e) \<Rightarrow> Some (Inl e)
      | Some (Inr (h, st1)) \<Rightarrow>
          if h_content_length h = None
          then Some (Inl (make_error Unexpected_error Ec_shut_down
                 ''HTTP multipart without part content-length is not supported!''))
          else n_read_body net h st1)"

text \<open>
  The parts of a multipart response: each is delivered to \<open>f\<close>, which may throw. \<open>fuel\<close> bounds the number of parts;
  running out of it counts as waiting.
\<close>

fun multipart_loop ::
  "net \<Rightarrow> (client_response \<Rightarrow> exn option) \<Rightarrow> string \<Rightarrow> nat \<Rightarrow> stream \<Rightarrow> client_response list \<times> unit reading"
where
  "multipart_loop net f boundary 0 st = ([], None)"
| "multipart_loop net f boundary (Suc fuel) st =
     (case find_multipart_boundary boundary st of
        None \<Rightarrow> ([], None)
      | Some (Inl e) \<Rightarrow> ([], Some (Inl e))
      | Some (Inr (False, st1)) \<Rightarrow> ([], Some (Inr ()))
      | Some (Inr (True, st1)) \<Rightarrow>
          (case read_part net st1 of
             None \<Rightarrow> ([], None)
           | Some (Inl e) \<Rightarrow> ([], Some (Inl e))
           | Some (Inr (part, st2)) \<Rightarrow>
               (case f part of
                  Some e \<Rightarrow> ([part], Some (Inl e))
                | None \<Rightarrow>
                    (case multipart_loop net f boundary fuel st2 of (parts, en) \<Rightarrow> (part # parts, en)))))"

text \<open>
  The end of an exchange: a response, an exception, the challenge that makes the caller retry, a read outside the
  challenge, or waiting.
\<close>

datatype 'a outcome = Ok 'a | Err exn | Challenge string | Fault | Blocked

fun of_reading :: "('a \<Rightarrow> 'b) \<Rightarrow> 'a reading \<Rightarrow> 'b outcome" where
  "of_reading g None = Blocked"
| "of_reading g (Some (Inl e)) = Err e"
| "of_reading g (Some (Inr x)) = Ok (g x)"

text \<open>\<open>n\<close> numbers the request; \<open>count0\<close> is the nonce counter.\<close>

definition handle_client_auth ::
  "net \<Rightarrow> nat \<Rightarrow> u32 \<Rightarrow> http_url_scheme \<Rightarrow> client_request \<Rightarrow> head \<Rightarrow> stream \<Rightarrow> client_response outcome"
where
  "handle_client_auth net n count0 sch req h st =
     (case n_read_body net h st of
        None \<Rightarrow> Blocked
      | Some (Inl e) \<Rightarrow> Err e
      | Some (Inr (resp, st1)) \<Rightarrow>
          (case generateAuthorization (n_digest net) (n_cnonce net n) count0
                  \<lparr>m_authenticate = h_www_authenticate (rp_head resp), m_username = username sch,
                   m_password = password sch, m_uri = target sch, m_method = cr_method req, m_body = rp_body resp\<rparr> of
             None \<Rightarrow> Fault
           | Some (Some a, _) \<Rightarrow> (case n_write net n of Some e \<Rightarrow> Err e | None \<Rightarrow> Challenge a)
           | Some (None, _) \<Rightarrow> Ok resp))"

definition contains_str :: "string \<Rightarrow> string \<Rightarrow> bool" where
  "contains_str p s \<longleftrightarrow> sub_find p s \<noteq> None"

definition handle_client_request_response ::
  "net \<Rightarrow> (client_response \<Rightarrow> exn option) \<Rightarrow> nat \<Rightarrow> nat \<Rightarrow> u32 \<Rightarrow> http_url_scheme \<Rightarrow> client_request \<Rightarrow> bool \<Rightarrow> stream
     \<Rightarrow> client_response list \<times> client_response outcome"
where
  "handle_client_request_response net f fuel n count0 sch req try_auth st =
     (case n_read_header net st of
        None \<Rightarrow> ([], Blocked)
      | Some (Inl e) \<Rightarrow> ([], Err e)
      | Some (Inr (h, st1)) \<Rightarrow>
          if try_auth \<and> h_status h = 401 \<and> username sch \<noteq> [] \<and> password sch \<noteq> [] then
            ([], handle_client_auth net n count0 sch req h st1)
          else if (case h_content_type h of Some t \<Rightarrow> contains_str ''multipart'' t | None \<Rightarrow> False) then
            (case deduce_boundary (the (h_content_type h)) of
               None \<Rightarrow> ([], Err (make_error Unexpected_error Ec_shut_down ''HTTP response error, cannot get boundary token''))
             | Some boundary \<Rightarrow>
                 (case multipart_loop net f boundary fuel st1 of
                    (parts, en) \<Rightarrow> (parts, of_reading (\<lambda>_. \<lparr>rp_head = h, rp_body = []\<rparr>) en)))
          else ([], of_reading fst (n_read_body net h st1)))"

section \<open>Requests with a retry\<close>

lemma of_reading_no_challenge [simp]: "of_reading g r \<noteq> Challenge a"
  by (cases "(g, r)" rule: of_reading.cases) auto

lemma no_challenge_again: "snd (handle_client_request_response net f fuel n count0 sch req False st) \<noteq> Challenge a"
  by (auto simp: handle_client_request_response_def split: option.split sum.split prod.split)

lemma challenge_first:
  "(parts, Challenge a) = handle_client_request_response net f fuel n count0 sch req (auth = None) st \<Longrightarrow> auth = None"
  using no_challenge_again [of net f fuel n count0 sch req st a] by (cases auth) (auto dest: sym)

text \<open>
  \<open>http_easy_request_multipart\<close>. The result is the requests sent, the parts delivered and the outcome; a URL that cannot be
  analysed gives a null response. The authenticated retry passes its authorization, which turns off \<open>try_auth\<close>.
\<close>

function http_easy_request_multipart ::
  "net \<Rightarrow> (client_response \<Rightarrow> exn option) \<Rightarrow> nat \<Rightarrow> nat \<Rightarrow> u32 \<Rightarrow> string \<Rightarrow> string \<Rightarrow> string \<Rightarrow> (string \<times> string) list
     \<Rightarrow> string option \<Rightarrow> client_request list \<times> client_response list \<times> client_response option outcome"
where
  "http_easy_request_multipart net f fuel n count0 meth url data headers auth =
     (case http_analyze_url (n_parse_uri net) url of
        None \<Rightarrow> ([], [], Ok None)
      | Some sch \<Rightarrow>
          let req = build_request (n_ieq net) (n_version net) sch auth meth data headers in
          case (case n_verb net meth of Some e \<Rightarrow> Inl e | None \<Rightarrow> n_open net n sch req) of
            Inl e \<Rightarrow> ([], [], Err e)
          | Inr st \<Rightarrow>
              (case handle_client_request_response net f fuel n count0 sch req (auth = None) st of
                 (parts, Challenge a) \<Rightarrow>
                   (case http_easy_request_multipart net f fuel (Suc n) (count0 + 1) meth url (cr_body req) headers (Some a) of
                      (sent, parts', r) \<Rightarrow> (req # sent, parts @ parts', r))
               | (parts, Ok resp) \<Rightarrow> ([req], parts, Ok (Some resp))
               | (parts, Err e) \<Rightarrow> ([req], parts, Err e)
               | (parts, Fault) \<Rightarrow> ([req], parts, Fault)
               | (parts, Blocked) \<Rightarrow> ([req], parts, Blocked)))"
  by pat_completeness auto
termination
  by (relation "measure (\<lambda>(net, f, fuel, n, count0, meth, url, data, headers, auth). if auth = None then 1 else 0)")
    (auto dest: challenge_first)

declare http_easy_request_multipart.simps [simp del]

text \<open>\<open>http_easy_request\<close> refuses multipart responses.\<close>

definition http_easy_request ::
  "net \<Rightarrow> nat \<Rightarrow> nat \<Rightarrow> u32 \<Rightarrow> string \<Rightarrow> string \<Rightarrow> string \<Rightarrow> (string \<times> string) list
     \<Rightarrow> client_request list \<times> client_response list \<times> client_response option outcome"
where
  "http_easy_request net fuel n count0 meth url data headers =
     http_easy_request_multipart net
       (\<lambda>_. Some (make_error Unexpected_error Ec_shut_down
          (''could not handle multipart response using http_easy_request(). '' @
           ''Use http_easy_request_multipart() instead'')))
       fuel n count0 meth url data headers None"

section \<open>Opening a websocket\<close>

datatype ws_step =
    Resolve string string
  | Connect int
  | Tls_handshake string
  | Ws_handshake string string

definition ws_target :: "http_url_scheme \<Rightarrow> string" where
  "ws_target sch = (if target sch \<noteq> [] then target sch else ''/'')"

definition make_websocket_connection_plain :: "http_url_scheme \<Rightarrow> int \<Rightarrow> ws_step list" where
  "make_websocket_connection_plain sch timeout =
     [Resolve (host sch) (dec_nat (unat (port sch))), Connect timeout,
      if port sch = 80 \<or> port sch = 443 then Ws_handshake (host sch) (ws_target sch)
      else Ws_handshake (host sch @ '':'' @ dec_nat (unat (port sch))) (target sch)]"

definition make_websocket_connection_ssl :: "http_url_scheme \<Rightarrow> int \<Rightarrow> ws_step list" where
  "make_websocket_connection_ssl sch timeout =
     [Resolve (host sch) (dec_nat (unat (port sch))), Connect timeout, Tls_handshake (host sch),
      if port sch = 80 \<or> port sch = 443 then Ws_handshake (host sch) (ws_target sch)
      else Ws_handshake (host sch @ '':'' @ dec_nat (unat (port sch))) (ws_target sch)]"

text \<open>The steps run in order until one throws: those performed, and the exception.\<close>

fun run_steps :: "(ws_step \<Rightarrow> exn option) \<Rightarrow> ws_step list \<Rightarrow> ws_step list \<times> exn option" where
  "run_steps run [] = ([], None)"
| "run_steps run (x # xs) =
     (case run x of
        Some e \<Rightarrow> ([], Some e)
      | None \<Rightarrow> (case run_steps run xs of (done, r) \<Rightarrow> (x # done, r)))"

text \<open>\<open>None\<close>: the URL cannot be analysed and the result is null.\<close>

definition make_websocket_connection ::
  "(string \<Rightarrow> url_view option) \<Rightarrow> (ws_step \<Rightarrow> exn option) \<Rightarrow> string \<Rightarrow> int \<Rightarrow> (ws_step list \<times> exn option) option"
where
  "make_websocket_connection parse_uri run url timeout =
     map_option (\<lambda>sch. run_steps run (if is_ssl sch then make_websocket_connection_ssl sch timeout
                                      else make_websocket_connection_plain sch timeout))
       (http_analyze_url parse_uri url)"

section \<open>Specification\<close>

text \<open>All bytes of a stream whose reads succeed.\<close>

definition whole :: "stream \<Rightarrow> string" where
  "whole st = buf st @ concat (map projr (incoming st))"

definition reads_ok :: "stream \<Rightarrow> bool" where
  "reads_ok st \<longleftrightarrow> list_all (\<lambda>r. \<not> isl r) (incoming st)"

definition boundary_line :: "string \<Rightarrow> string" where
  "boundary_line b = b @ [CHR 0x0D, CHR 0x0A]"

definition terminate_line :: "string \<Rightarrow> string" where
  "terminate_line b = b @ ''--'' @ [CHR 0x0D, CHR 0x0A]"

section \<open>Lemmas\<close>

lemma sub_find_spec:
  "(case sub_find p s of
      None \<Rightarrow> \<forall>j \<le> length s. \<not> starts_with (drop j s) p
    | Some i \<Rightarrow> i \<le> length s \<and> starts_with (drop i s) p \<and> (\<forall>j < i. \<not> starts_with (drop j s) p))"
proof (induction p s rule: sub_find.induct)
  case (1 p)
  then show ?case by (auto simp: starts_with_iff)
next
  case (2 p c s)
  show ?case
  proof (cases "starts_with (c # s) p")
    case False
    have shift: "\<not> starts_with (drop j (c # s)) p" if "\<And>j'. j = Suc j' \<Longrightarrow> \<not> starts_with (drop j' s) p" for j
      using that False by (cases j) auto
    show ?thesis using 2 [OF False] False shift by (auto split: option.splits simp: less_Suc_eq_0_disj)
  qed simp
qed

lemma sub_find_Some:
  "sub_find p s = Some i \<longleftrightarrow> i \<le> length s \<and> starts_with (drop i s) p \<and> (\<forall>j < i. \<not> starts_with (drop j s) p)"
  using sub_find_spec [where p = p and s = s] by (auto split: option.splits) (metis linorder_neqE_nat)

lemma sub_find_None: "sub_find p s = None \<longleftrightarrow> (\<forall>j \<le> length s. \<not> starts_with (drop j s) p)"
  using sub_find_spec [where p = p and s = s] by (auto split: option.splits)

lemma starts_with_take: "starts_with s p \<longleftrightarrow> take (length p) s = p"
  by (auto simp: starts_with_iff) (metis append_take_drop_id)

lemma starts_with_drop_append:
  "j + length p \<le> length xs \<Longrightarrow> starts_with (drop j (xs @ ys)) p \<longleftrightarrow> starts_with (drop j xs) p"
  by (simp add: starts_with_take)

lemma starts_with_length: "starts_with (drop j xs) p \<Longrightarrow> j \<le> length xs \<Longrightarrow> j + length p \<le> length xs"
  using length_take [of "length p" "drop j xs"] by (simp add: starts_with_take min_def split: if_splits)

text \<open>A search in a prefix finds the first occurrence of the whole text when the prefix contains it.\<close>

lemma sub_find_prefix:
  assumes "sub_find p (xs @ ys) = Some i" and "p \<noteq> []"
  shows "sub_find p xs = (if i + length p \<le> length xs then Some i else None)"
proof -
  have i: "i \<le> length (xs @ ys)" "starts_with (drop i (xs @ ys)) p" "\<forall>j < i. \<not> starts_with (drop j (xs @ ys)) p"
    using assms(1) by (simp_all add: sub_find_Some)
  have inside: "starts_with (drop j (xs @ ys)) p" if "starts_with (drop j xs) p" "j \<le> length xs" for j
    using that starts_with_drop_append starts_with_length by blast
  show ?thesis
  proof (cases "i + length p \<le> length xs")
    case True
    then have "sub_find p xs = Some i" using i starts_with_drop_append inside
      by (auto simp: sub_find_Some)
    with True show ?thesis by simp
  next
    case False
    have "\<not> starts_with (drop j xs) p" if "j \<le> length xs" for j
    proof
      assume s: "starts_with (drop j xs) p"
      then have "i \<le> j" using inside [OF s that] i(3) by (meson not_le)
      moreover have "j + length p \<le> length xs" using starts_with_length [OF s that] .
      ultimately show False using False by simp
    qed
    then show ?thesis using False by (simp add: sub_find_None)
  qed
qed

lemma sub_find_prefix_None:
  assumes "sub_find p (xs @ ys) = None" shows "sub_find p xs = None"
proof -
  have "\<not> starts_with (drop j xs) p" if "j \<le> length xs" for j
  proof
    assume s: "starts_with (drop j xs) p"
    then have "starts_with (drop j (xs @ ys)) p"
      using starts_with_drop_append [OF starts_with_length [OF s that]] by simp
    moreover have "j \<le> length (xs @ ys)" using that by simp
    ultimately show False using assms unfolding sub_find_None by blast
  qed
  then show ?thesis by (simp add: sub_find_None)
qed


lemma find_multipart_boundary_eq:
  "find_multipart_boundary b st =
     (case sub_find (boundary_line b) (buf st) of
        Some pos \<Rightarrow> Some (Inr (True, st\<lparr>buf := drop (pos + length (boundary_line b)) (buf st)\<rparr>))
      | None \<Rightarrow>
          if sub_find (terminate_line b) (buf st) \<noteq> None then Some (Inr (False, st))
          else case incoming st of
            [] \<Rightarrow> None
          | Inl e # rs \<Rightarrow> Some (Inl e)
          | Inr bytes # rs \<Rightarrow> find_multipart_boundary b \<lparr>buf = buf st @ bytes, incoming = rs\<rparr>)"
  unfolding boundary_line_def terminate_line_def by (subst find_multipart_boundary.simps) (simp only: Let_def)

lemma reads_ok_cases:
  assumes "reads_ok st"
  obtains "incoming st = []" "whole st = buf st"
  | bytes rs where "incoming st = Inr bytes # rs" "reads_ok \<lparr>buf = buf st @ bytes, incoming = rs\<rparr>"
      "whole st = whole \<lparr>buf = buf st @ bytes, incoming = rs\<rparr>"
proof (cases "incoming st")
  case Nil
  then show ?thesis using that(1) by (simp add: whole_def)
next
  case (Cons r rs)
  then obtain bytes where "r = Inr bytes" using assms by (cases r) (auto simp: reads_ok_def)
  then show ?thesis using that(2) [of bytes rs] Cons assms by (simp add: whole_def reads_ok_def)
qed

lemma boundary_found:
  assumes "reads_ok st" and "sub_find (boundary_line b) (whole st) = Some p"
    and "sub_find (terminate_line b) (take (p + length b + 1) (whole st)) = None"
  shows "\<exists>st'. find_multipart_boundary b st = Some (Inr (True, st')) \<and> reads_ok st' \<and>
    whole st' = drop (p + length (boundary_line b)) (whole st)"
  using assms
proof (induction "length (incoming st)" arbitrary: st rule: less_induct)
  case less
  let ?rest = "concat (map projr (incoming st))"
  have w: "whole st = buf st @ ?rest" by (simp add: whole_def)
  have len: "length (boundary_line b) = length b + 2" by (simp add: boundary_line_def)
  have found: "sub_find (boundary_line b) (buf st) = (if p + length (boundary_line b) \<le> length (buf st) then Some p else None)"
    by (rule sub_find_prefix) (use less.prems(2) w in \<open>simp_all add: boundary_line_def\<close>)
  show ?case
  proof (cases "p + length (boundary_line b) \<le> length (buf st)")
    case True
    then show ?thesis using found less.prems(1) w
      by (subst find_multipart_boundary_eq) (auto simp: reads_ok_def whole_def)
  next
    case False
    then have "take (p + length b + 1) (whole st) = buf st @ take (p + length b + 1 - length (buf st)) ?rest"
      using len by (simp add: w)
    then have t: "sub_find (terminate_line b) (buf st) = None"
      using less.prems(3) sub_find_prefix_None by metis
    have "p + length (boundary_line b) \<le> length (whole st)"
      using less.prems(2) starts_with_length by (auto simp: sub_find_Some)
    then have "incoming st \<noteq> []" using False w by auto
    then obtain bytes rs where inc: "incoming st = Inr bytes # rs" "reads_ok \<lparr>buf = buf st @ bytes, incoming = rs\<rparr>"
      "whole st = whole \<lparr>buf = buf st @ bytes, incoming = rs\<rparr>"
      using reads_ok_cases [OF less.prems(1)] by metis
    have "find_multipart_boundary b st = find_multipart_boundary b \<lparr>buf = buf st @ bytes, incoming = rs\<rparr>"
      using found False t inc(1) by (subst find_multipart_boundary_eq) simp
    then show ?thesis using less.hyps [OF _ inc(2)] less.prems inc by simp
  qed
qed

lemma terminator_found:
  assumes "reads_ok st" and "sub_find (boundary_line b) (whole st) = None" and "sub_find (terminate_line b) (whole st) \<noteq> None"
  shows "\<exists>st'. find_multipart_boundary b st = Some (Inr (False, st')) \<and> whole st' = whole st"
  using assms
proof (induction "length (incoming st)" arbitrary: st rule: less_induct)
  case less
  have n: "sub_find (boundary_line b) (buf st) = None"
    using less.prems(2) sub_find_prefix_None [of _ "buf st"] by (simp add: whole_def)
  show ?case
  proof (cases "sub_find (terminate_line b) (buf st)")
    case (Some i)
    then show ?thesis using n by (subst find_multipart_boundary_eq) simp
  next
    case None
    then have "incoming st \<noteq> []" using less.prems(3) by (auto simp: whole_def)
    then obtain bytes rs where inc: "incoming st = Inr bytes # rs" "reads_ok \<lparr>buf = buf st @ bytes, incoming = rs\<rparr>"
      "whole st = whole \<lparr>buf = buf st @ bytes, incoming = rs\<rparr>"
      using reads_ok_cases [OF less.prems(1)] by metis
    have "find_multipart_boundary b st = find_multipart_boundary b \<lparr>buf = buf st @ bytes, incoming = rs\<rparr>"
      using n None inc(1) by (subst find_multipart_boundary_eq) simp
    then show ?thesis using less.hyps [OF _ inc(2)] less.prems inc by simp
  qed
qed

lemma no_challenge_pair: "handle_client_request_response net f fuel n c sch req False st = (parts, Challenge a) \<Longrightarrow> False"
  using no_challenge_again [of net f fuel n c sch req st a] by simp

lemma retry_not_challenged:
  "http_easy_request_multipart net f fuel n c meth url data headers (Some a) = (sent, parts, r) \<Longrightarrow>
     (\<forall>h. r \<noteq> Challenge h) \<and> (sent = [] \<or> (\<exists>sch. http_analyze_url (n_parse_uri net) url = Some sch \<and>
       sent = [build_request (n_ieq net) (n_version net) sch (Some a) meth data headers]))"
  by (subst (asm) http_easy_request_multipart.simps)
    (auto simp: Let_def dest: no_challenge_pair split: option.splits sum.splits prod.splits outcome.splits)

lemma connected_sends:
  assumes "\<exists>sch. http_analyze_url (n_parse_uri net) url = Some sch" and "n_verb net meth = None"
    and "\<And>sch q. \<exists>st. n_open net n sch q = Inr st"
  shows "fst (http_easy_request_multipart net f fuel n c meth url data headers auth) \<noteq> []"
proof -
  obtain sch where sch: "http_analyze_url (n_parse_uri net) url = Some sch" using assms(1) by blast
  obtain st where "n_open net n sch (build_request (n_ieq net) (n_version net) sch auth meth data headers) = Inr st"
    using assms(3) by blast
  with sch assms(2) show ?thesis
    by (subst http_easy_request_multipart.simps) (simp add: Let_def split: prod.split outcome.split)
qed

lemma challenge_from_401:
  assumes "handle_client_request_response net f fuel n c sch req True st = (parts, Challenge a)"
  shows "username sch \<noteq> [] \<and> password sch \<noteq> [] \<and>
    (\<exists>h st1 resp st2. n_read_header net st = Some (Inr (h, st1)) \<and> h_status h = 401 \<and>
      n_read_body net h st1 = Some (Inr (resp, st2)) \<and>
      (\<exists>c'. generateAuthorization (n_digest net) (n_cnonce net n) c
         \<lparr>m_authenticate = h_www_authenticate (rp_head resp), m_username = username sch, m_password = password sch,
          m_uri = target sch, m_method = cr_method req, m_body = rp_body resp\<rparr> = Some (Some a, c')))"
  using assms
  by (auto simp: handle_client_request_response_def handle_client_auth_def
      split: option.splits sum.splits prod.splits if_splits)
lemma boundary_consumes:
  assumes "find_multipart_boundary b st = Some (Inr (True, st'))" and "reads_ok st"
  shows "reads_ok st' \<and> length (whole st') < length (whole st)"
  using assms
proof (induction "length (incoming st)" arbitrary: st rule: less_induct)
  case less
  show ?case
  proof (cases "sub_find (boundary_line b) (buf st)")
    case (Some p)
    then have "p + length (boundary_line b) \<le> length (buf st)" using starts_with_length by (auto simp: sub_find_Some)
    moreover have "st' = st\<lparr>buf := drop (p + length (boundary_line b)) (buf st)\<rparr>"
      using less.prems(1) Some by (subst (asm) find_multipart_boundary_eq) simp
    moreover have "length (boundary_line b) = length b + 2" by (simp add: boundary_line_def)
    ultimately show ?thesis using less.prems(2) by (simp add: reads_ok_def whole_def)
  next
    case None
    then obtain bytes rs where inc: "incoming st = Inr bytes # rs"
      "find_multipart_boundary b \<lparr>buf = buf st @ bytes, incoming = rs\<rparr> = Some (Inr (True, st'))"
      using less.prems(1)
      by (subst (asm) (2) find_multipart_boundary_eq) (auto split: if_splits list.splits sum.splits)
    moreover have "reads_ok \<lparr>buf = buf st @ bytes, incoming = rs\<rparr>" "whole st = whole \<lparr>buf = buf st @ bytes, incoming = rs\<rparr>"
      using less.prems(2) inc(1) by (simp_all add: reads_ok_def whole_def)
    ultimately show ?thesis using less.hyps [of "\<lparr>buf = buf st @ bytes, incoming = rs\<rparr>"] by simp
  qed
qed

text \<open>
  Fuel beyond the bytes of the response is enough, when reading a part does not make the input longer: every part takes at
  least its boundary line.
\<close>

lemma multipart_fuel_enough:
  assumes "\<And>st p st'. read_part net st = Some (Inr (p, st')) \<Longrightarrow> reads_ok st \<Longrightarrow>
      reads_ok st' \<and> length (whole st') \<le> length (whole st)"
  shows "reads_ok st \<Longrightarrow> length (whole st) < fuel \<Longrightarrow> length (whole st) < fuel' \<Longrightarrow>
    multipart_loop net f b fuel st = multipart_loop net f b fuel' st"
proof (induction fuel arbitrary: fuel' st)
  case (Suc fuel)
  then obtain fuel2 where f2: "fuel' = Suc fuel2" by (cases fuel') auto
  have "multipart_loop net f b fuel st2 = multipart_loop net f b fuel2 st2"
    if "find_multipart_boundary b st = Some (Inr (True, st1))" "read_part net st1 = Some (Inr (p, st2))" for st1 p st2
  proof -
    from boundary_consumes [OF that(1) Suc.prems(1)] assms [OF that(2)] Suc.prems(2,3) f2
    show ?thesis by (intro Suc.IH) auto
  qed
  then show ?case unfolding f2 by (auto split: option.split sum.split bool.split)
qed simp

text \<open>The host and target of the websocket handshake.\<close>

lemma websocket_ssl_before_handshake:
  assumes "make_websocket_connection parse_uri run url timeout = Some (performed, r)"
    and "http_analyze_url parse_uri url = Some sch" and "is_ssl sch" and "Ws_handshake h t \<in> set performed"
  shows "run (Tls_handshake (host sch)) = None \<and> Tls_handshake (host sch) \<in> set performed \<and> t \<noteq> []"
  using assms
  by (auto simp: make_websocket_connection_def make_websocket_connection_ssl_def ws_target_def
      split: option.splits if_splits)

text \<open>A plain websocket to a port of its own gets the empty target of a URL without a path, unlike all other cases.\<close>

lemma websocket_plain_empty_target:
  "port sch \<noteq> 80 \<Longrightarrow> port sch \<noteq> 443 \<Longrightarrow> target sch = [] \<Longrightarrow>
     last (make_websocket_connection_plain sch timeout) = Ws_handshake (host sch @ '':'' @ dec_nat (unat (port sch))) []"
  by (simp add: make_websocket_connection_plain_def)

section \<open>Properties\<close>

text \<open>A server for examples that asks for credentials on the first request.\<close>

definition demo_net :: net where
  "demo_net = \<lparr>n_parse_uri = (\<lambda>_. Some \<lparr>u_scheme = Sch_http, u_host = ''h'', u_encoded_host = ''h'', u_port = 0, u_user = ''u'',
       u_password = ''p'', u_resource = ''/''\<rparr>),
     n_verb = (\<lambda>_. None), n_ieq = (=), n_version = ''libasyik'',
     n_read_header = (\<lambda>st. Some (Inr (\<lparr>h_status = if buf st = ''a'' then 401 else 200, h_content_type = None,
       h_www_authenticate = ''Digest realm=r, nonce=n'', h_content_length = None\<rparr>, st))),
     n_read_body = (\<lambda>h st. Some (Inr (\<lparr>rp_head = h, rp_body = []\<rparr>, st))),
     n_open = (\<lambda>n sch q. Inr \<lparr>buf = if n = 0 then ''a'' else ''b'', incoming = []\<rparr>),
     n_write = (\<lambda>_. None), n_cnonce = (\<lambda>_. ''c''), n_digest = demo_digest_lib\<rparr>"

text \<open>
  Finding a part does not depend on how the network cuts the response into reads: when the bytes still to come contain
  the boundary line first at position \<open>p\<close>, with no closing line before it, the search stops there and what is
  left to read is exactly what follows the line; when they contain a closing line and no boundary line, the search
  reports the end and consumes nothing.
\<close>

lemma multipart_framing:
  assumes "reads_ok st"
  shows "(sub_find (boundary_line b) (whole st) = Some p \<and>
       sub_find (terminate_line b) (take (p + length b + 1) (whole st)) = None \<longrightarrow>
       (\<exists>st'. find_multipart_boundary b st = Some (Inr (True, st')) \<and> reads_ok st' \<and>
          whole st' = drop (p + length (boundary_line b)) (whole st))) \<and>
    (sub_find (boundary_line b) (whole st) = None \<and> sub_find (terminate_line b) (whole st) \<noteq> None \<longrightarrow>
       (\<exists>st'. find_multipart_boundary b st = Some (Inr (False, st')) \<and> whole st' = whole st))"
  using boundary_found [OF assms] terminator_found [OF assms] by blast

text \<open>
  C33. A request is sent at most twice. The first request carries no authorization; a second one is sent only with
  credentials in the URL and after a 401 whose challenge could be answered, has the same method, target, body and headers, and
  carries the answer to that challenge; and no challenge escapes to the caller, so a rejected retry returns its response.
\<close>

theorem client_retries_once:
  assumes "http_easy_request_multipart net f fuel n c meth url data headers None = (sent, parts, r)" and "sent \<noteq> []"
  shows "length sent \<le> 2 \<and> (\<forall>h. r \<noteq> Challenge h) \<and>
    (\<exists>sch. http_analyze_url (n_parse_uri net) url = Some sch \<and>
       hd sent = build_request (n_ieq net) (n_version net) sch None meth data headers \<and>
       (\<forall>q \<in> set (tl sent). \<exists>a h st st' resp c'.
          q = build_request (n_ieq net) (n_version net) sch (Some a) meth data headers \<and>
          username sch \<noteq> [] \<and> password sch \<noteq> [] \<and> h_status h = 401 \<and>
          n_read_body net h st = Some (Inr (resp, st')) \<and>
          generateAuthorization (n_digest net) (n_cnonce net n) c
            \<lparr>m_authenticate = h_www_authenticate (rp_head resp), m_username = username sch, m_password = password sch,
             m_uri = target sch, m_method = meth, m_body = rp_body resp\<rparr> = Some (Some a, c')))"
proof -
  let ?req = "\<lambda>sch auth. build_request (n_ieq net) (n_version net) sch auth meth data headers"
  have body: "cr_body (?req sch auth) = data" "cr_method (?req sch auth) = meth" for sch auth
    by (simp_all add: build_request_def Let_def)
  obtain sch st where sch: "http_analyze_url (n_parse_uri net) url = Some sch" "n_verb net meth = None"
    "n_open net n sch (?req sch None) = Inr st"
    using assms by (subst (asm) http_easy_request_multipart.simps) (auto simp: Let_def split: option.splits sum.splits)
  obtain parts1 o1 where h: "handle_client_request_response net f fuel n c sch (?req sch None) True st = (parts1, o1)"
    by (cases "handle_client_request_response net f fuel n c sch (?req sch None) True st")
  show ?thesis
  proof (cases "\<exists>a. o1 = Challenge a")
    case True
    then obtain a where a: "o1 = Challenge a" by blast
    obtain sent2 parts2 where rec: "http_easy_request_multipart net f fuel (Suc n) (c + 1) meth url data headers (Some a) =
        (sent2, parts2, r)" "sent = ?req sch None # sent2"
      using assms(1) sch h a body
      by (subst (asm) http_easy_request_multipart.simps) (auto simp: Let_def split: prod.splits)
    from retry_not_challenged [OF rec(1)] sch(1) have "(\<forall>h. r \<noteq> Challenge h) \<and> (sent2 = [] \<or> sent2 = [?req sch (Some a)])"
      by auto
    moreover note challenge_from_401 [OF h [unfolded a]]
    ultimately show ?thesis using rec(2) sch(1) body by auto blast
  next
    case False
    then have "sent = [?req sch None] \<and> (\<forall>h. r \<noteq> Challenge h)"
      using assms(1) sch h
      by (subst (asm) http_easy_request_multipart.simps) (auto simp: Let_def split: outcome.splits)
    with sch(1) show ?thesis by auto
  qed
qed

theorem client_retries_once_witness:
  "length (fst (http_easy_request_multipart demo_net (\<lambda>_. None) 0 0 0 ''GET'' ''u'' [] [] None)) \<le> 2"
proof -
  obtain sent parts r where e: "http_easy_request_multipart demo_net (\<lambda>_. None) 0 0 0 ''GET'' ''u'' [] [] None = (sent, parts, r)"
    by (rule prod_cases3)
  have "fst (http_easy_request_multipart demo_net (\<lambda>_. None) 0 0 0 ''GET'' ''u'' [] [] None) \<noteq> []"
    by (rule connected_sends) (simp_all add: demo_net_def http_analyze_url_def Let_def)
  with client_retries_once [OF e] e show ?thesis by simp
qed

end
