(* ===== verification/Client_Tls.thy ===== *)
theory Client_Tls
  imports Http_Client Tls
begin

text \<open>
  Opening the connection of a client request (\<open>http_easy_request_multipart\<close> in \<open>include/libasyik/http.hpp\<close>): resolving, the choice of the TLS
  context, connecting and the TLS handshake, joined with the requests of \<open>Http_Client\<close>. The resolver, the network and OpenSSL's
  handshake are arguments.
\<close>

section \<open>Opening a stream\<close>

text \<open>
  The handshake of OpenSSL on a context and a prepared connection: its exception, if any, and the verify result with its text.
\<close>

record 'cb connector =
  co_resolve :: "string \<Rightarrow> string \<Rightarrow> exn option"
  co_connect :: "int \<Rightarrow> exn option"
  co_handshake :: "'cb ssl_ctx \<Rightarrow> ssl_conn \<Rightarrow> exn option \<times> int \<times> string"

definition fresh_conn :: ssl_conn where
  "fresh_conn = \<lparr>sni = None, check_host = None, check_ip = None\<rparr>"

text \<open>
  The stream that is opened: a prepared TLS connection, or none for plain HTTP; \<open>d\<close> is the process-wide default context, which
  may be built on the way. \<open>timeout_ms\<close> bounds the connection attempt.
\<close>

definition open_stream ::
  "ossl \<Rightarrow> 'cb connector \<Rightarrow> (error_code \<Rightarrow> string) \<Rightarrow> int \<Rightarrow> 'cb client_ctx option \<Rightarrow> 'cb client_ctx option \<Rightarrow>
     'cb client_ctx option \<Rightarrow> http_url_scheme \<Rightarrow> (exn + ssl_conn option) \<times> 'cb client_ctx option"
where
  "open_stream os co msg timeout_ms tls_ctx own d sch =
     (case co_resolve co (host sch) (dec_nat (unat (port sch))) of
        Some e \<Rightarrow> (Inl e, d)
      | None \<Rightarrow>
          if is_ssl sch then
            (case request_context os tls_ctx own d of
               (Inl e, d1) \<Rightarrow> (Inl e, d1)
             | (Inr (cfg, native), d1) \<Rightarrow>
                 (case co_connect co timeout_ms of
                    Some e \<Rightarrow> (Inl e, d1)
                  | None \<Rightarrow>
                      (case client_handshake os cfg (co_handshake co native) msg (host sch) fresh_conn of
                         Inl e \<Rightarrow> (Inl e, d1)
                       | Inr conn \<Rightarrow> (Inr (Some conn), d1))))
          else
            (case co_connect co timeout_ms of
               Some e \<Rightarrow> (Inl e, d)
             | None \<Rightarrow> (Inr None, d)))"

text \<open>The network of a request whose streams are opened so; \<open>streams n\<close> is what the server sends on the \<open>n\<close>-th one.\<close>

definition with_open ::
  "ossl \<Rightarrow> 'cb connector \<Rightarrow> (error_code \<Rightarrow> string) \<Rightarrow> int \<Rightarrow> 'cb client_ctx option \<Rightarrow> 'cb client_ctx option \<Rightarrow>
     'cb client_ctx option \<Rightarrow> (nat \<Rightarrow> stream) \<Rightarrow> net \<Rightarrow> net"
where
  "with_open os co msg timeout_ms tls_ctx own d streams net =
     net\<lparr>n_open := (\<lambda>n sch req.
       case fst (open_stream os co msg timeout_ms tls_ctx own d sch) of Inl e \<Rightarrow> Inl e | Inr _ \<Rightarrow> Inr (streams n))\<rparr>"

section \<open>Specification\<close>

text \<open>
  What OpenSSL documents: on a context that verifies, without a callback of the user's, a handshake succeeds only with a peer whose
  certificate chain is trusted by the context and is valid for the name or address that is checked.
\<close>

definition verifies :: "'cb connector \<Rightarrow> ('cb ssl_ctx \<Rightarrow> bool) \<Rightarrow> (string \<Rightarrow> bool) \<Rightarrow> bool" where
  "verifies co chain_ok valid_for \<longleftrightarrow>
     (\<forall>ctx conn vr. co_handshake co ctx conn = (None, vr) \<and> c_verify ctx = Verify_peer \<and> c_callback ctx = None \<longrightarrow>
        chain_ok ctx \<and> (\<forall>h. check_host conn = Some h \<or> check_ip conn = Some h \<longrightarrow> valid_for h))"

text \<open>A context made from a configuration that verifies.\<close>

definition secure_ctx :: "'cb client_ctx \<Rightarrow> bool" where
  "secure_ctx c \<longleftrightarrow>
     (\<exists>os. client_context os (fst c) = Inr (snd c)) \<and> verify_peer (fst c) \<and> verify_hostname (fst c) \<and>
     verify_callback (fst c) = None"

section \<open>Lemmas\<close>

lemma client_context_verifies:
  assumes "client_context os cfg = Inr ctx" and "verify_peer cfg"
  shows "c_verify ctx = Verify_peer" and "c_callback ctx = verify_callback cfg"
  using assms
  by (auto simp: client_context_def setup_verification_def setup_client_identity_def fresh_ctx_def tls_success split: if_splits)

lemma prepare_checks:
  assumes "prepare_client os cfg h conn = Inr conn1" and "verify_peer cfg" and "verify_hostname cfg"
  shows "check_host conn1 = Some (normalise_host h) \<or> check_ip conn1 = Some (normalise_host h)"
  using assms by (auto simp: prepare_client_def Let_def split: if_splits)

lemma request_context_secure:
  assumes "request_context os tls_ctx own d = (Inr c, d1)"
    and "pred_option secure_ctx tls_ctx" and "pred_option secure_ctx own" and "pred_option secure_ctx d"
  shows "secure_ctx c \<and> pred_option secure_ctx d1"
  using assms
  by (auto simp: request_context_def get_tls_client_context_def default_client_context_def make_client_context_def
      secure_ctx_def default_client_config_def res_bind_Inr split: option.splits sum.splits)

lemma open_stream_verified:
  assumes "verifies co chain_ok valid_for" and "is_ssl sch"
    and "open_stream os co msg t tls_ctx own d sch = (Inr s, d')"
    and "pred_option secure_ctx tls_ctx" and "pred_option secure_ctx own" and "pred_option secure_ctx d"
  shows "valid_for (normalise_host (host sch)) \<and> pred_option secure_ctx d'"
proof -
  obtain cfg native d1 conn where c: "request_context os tls_ctx own d = (Inr (cfg, native), d1)" "d' = d1"
    and h: "client_handshake os cfg (co_handshake co native) msg (host sch) fresh_conn = Inr conn"
    using assms(2,3) by (auto simp: open_stream_def split: option.splits sum.splits prod.splits)
  have sec: "secure_ctx (cfg, native)" "pred_option secure_ctx d1" using request_context_secure [OF c(1) assms(4-6)] by auto
  then obtain os' where cc: "client_context os' cfg = Inr native" "verify_peer cfg" "verify_hostname cfg" "verify_callback cfg = None"
    by (auto simp: secure_ctx_def)
  then have v: "verify_peer cfg" "verify_hostname cfg" "c_verify native = Verify_peer" "c_callback native = None"
    using client_context_verifies [OF cc(1,2)] by simp_all
  obtain conn1 where p: "prepare_client os cfg (host sch) fresh_conn = Inr conn1"
    and h1: "(case co_handshake co native conn1 of (None, vr) \<Rightarrow> Inr conn1
      | (Some e, vr) \<Rightarrow> Inl (rethrow_client_handshake_error cfg vr msg (host sch) e)) = Inr conn"
    using h by (auto simp: client_handshake_def res_bind_Inr)
  obtain vr where "co_handshake co native conn1 = (None, vr)"
    using h1 by (cases "co_handshake co native conn1"; cases "fst (co_handshake co native conn1)") auto
  with prepare_checks [OF p v(1,2)] assms(1) v(3,4) sec(2) c(2) show ?thesis unfolding verifies_def by blast
qed

text \<open>A connector for examples: the network works, and the peer has a certificate for \<open>good.org\<close> only.\<close>

definition demo_connector :: "unit connector" where
  "demo_connector =
     \<lparr>co_resolve = (\<lambda>h p. None), co_connect = (\<lambda>t. None),
      co_handshake = (\<lambda>ctx conn.
        if c_verify ctx = Verify_none \<or> (check_host conn \<in> {None, Some ''good.org''} \<and> check_ip conn = None) then (None, 0, [])
        else (Some (make_error Tls_error (Ec_ssl 1) []), 62, ''hostname mismatch''))\<rparr>"

lemma demo_verifies: "verifies demo_connector (\<lambda>_. True) (\<lambda>h. h = ''good.org'')"
  by (auto simp: verifies_def demo_connector_def split: if_splits)

definition demo_evil :: "string \<Rightarrow> url_view option" where
  "demo_evil u = Some \<lparr>u_scheme = Sch_https, u_host = ''evil.org'', u_encoded_host = ''evil.org'', u_port = 0, u_user = [],
     u_password = [], u_resource = []\<rparr>"

section \<open>Properties\<close>

text \<open>
  C11. An HTTPS request is sent only to a verified peer: unless somebody chose a context that does not verify, a request for an
  \<open>https\<close> URL whose server has no certificate valid for the URL's host ends with an exception before anything is sent, its
  credentials included; this holds whether the context comes from the request, the service or the process.
\<close>

theorem https_sends_only_to_verified_peer:
  assumes "verifies co chain_ok valid_for"
    and "pred_option secure_ctx tls_ctx" and "pred_option secure_ctx own" and "pred_option secure_ctx d"
    and "http_analyze_url (n_parse_uri net) url = Some sch" and "is_ssl sch"
    and "\<not> valid_for (normalise_host (host sch))"
  shows "\<exists>e. http_easy_request_multipart (with_open os co msg t tls_ctx own d streams net) f fuel n count0 meth url data headers auth =
    ([], [], Err e)"
proof -
  obtain e where "fst (open_stream os co msg t tls_ctx own d sch) = Inl e"
    using open_stream_verified [OF assms(1,6) _ assms(2-4), of os msg t] assms(7)
    by (metis prod.collapse sumE)
  with assms(5) show ?thesis
    by (subst http_easy_request_multipart.simps) (simp add: with_open_def Let_def split: option.split)
qed

theorem https_sends_only_to_verified_peer_witness:
  "\<exists>e. http_easy_request_multipart
      (with_open demo_ossl demo_connector (\<lambda>ec. []) 30000 None None None (\<lambda>n. \<lparr>buf = [], incoming = []\<rparr>)
        (demo_net\<lparr>n_parse_uri := demo_evil\<rparr>))
      (\<lambda>_. None) 1 0 0 ''GET'' ''https://evil.org'' [] [] None = ([], [], Err e)"
proof -
  obtain sch where sch: "http_analyze_url (n_parse_uri (demo_net\<lparr>n_parse_uri := demo_evil\<rparr>)) ''https://evil.org'' = Some sch"
    "is_ssl sch" "host sch = ''evil.org''"
    by (simp add: http_analyze_url_def demo_evil_def)
  have "normalise_host (host sch) \<noteq> ''good.org''" unfolding sch(3) by (simp add: normalise_host_def ends_with_def)
  then show ?thesis using sch(1,2) by (intro https_sends_only_to_verified_peer [OF demo_verifies]) simp_all
qed

end
