(* ===== verification/Client_Time.thy ===== *)
theory Client_Time
  imports Http_Client Fiber_Future
begin

text \<open>
  The deadlines of the HTTP client (\<open>http_easy_request_multipart\<close> and \<open>handle_client_request_response\<close> in
  \<open>include/libasyik/http.hpp\<close>): the client of \<open>Http_Client\<close> with a clock. Beast's \<open>expires_after\<close> sets the time at which
  every waiting operation of the stream fails; name resolution has no deadline. The theory also has the end of a
  request, where the write is awaited and the connection shut down. Times are milliseconds.
\<close>

section \<open>Clock and durations\<close>

text \<open>The time, the stream's deadline, and the number of reads started.\<close>

record clock =
  t_now :: nat
  t_expiry :: nat
  t_reads :: nat

text \<open>
  How long things take: the name resolution, opening and TLS handshake, the write and the TLS shutdown of the \<open>n\<close>-th request
  (\<open>None\<close>: never done), the \<open>i\<close>-th read, and the caller's function.
\<close>

record timing =
  tm_timeout :: nat
  tm_resolve :: "nat \<Rightarrow> nat option"
  tm_open :: "nat \<Rightarrow> nat option"
  tm_write :: "nat \<Rightarrow> nat option"
  tm_shutdown :: "nat \<Rightarrow> nat option"
  tm_read :: "nat \<Rightarrow> nat"
  tm_call :: "client_response \<Rightarrow> nat"

definition timeout_error :: exn where
  "timeout_error = error_of_code (\<lambda>_. []) Ec_beast_timeout"

definition expires_after :: "nat \<Rightarrow> clock \<Rightarrow> clock" where
  "expires_after ms t = t\<lparr>t_expiry := t_now t + ms\<rparr>"

definition elapse :: "nat \<Rightarrow> clock \<Rightarrow> clock" where
  "elapse ms t = t\<lparr>t_now := t_now t + ms\<rparr>"

text \<open>
  Waiting for an operation with result \<open>r\<close> (\<open>None\<close>: its data never comes) that takes \<open>d\<close>; what is in the buffer already (\<open>here\<close>)
  needs no waiting.
\<close>

definition await :: "nat option \<Rightarrow> bool \<Rightarrow> 'a reading \<Rightarrow> clock \<Rightarrow> (exn + 'a) \<times> clock" where
  "await d here r t =
     (case (r, d) of
        (Some x, Some k) \<Rightarrow>
          if here then (x, t)
          else if t_now t + k \<le> t_expiry t then (x, elapse k t)
          else (Inl timeout_error, t\<lparr>t_now := max (t_now t) (t_expiry t)\<rparr>)
      | _ \<Rightarrow> (Inl timeout_error, t\<lparr>t_now := max (t_now t) (t_expiry t)\<rparr>))"

definition await_read :: "timing \<Rightarrow> (stream \<Rightarrow> 'a reading) \<Rightarrow> stream \<Rightarrow> clock \<Rightarrow> (exn + 'a) \<times> clock" where
  "await_read tm R st t =
     await (Some (tm_read tm (t_reads t))) (R (st\<lparr>incoming := []\<rparr>) \<noteq> None) (R st) (t\<lparr>t_reads := Suc (t_reads t)\<rparr>)"

section \<open>The exchange\<close>

text \<open>The deadline of a part is set once its boundary is found.\<close>

fun timed_multipart_loop ::
  "net \<Rightarrow> timing \<Rightarrow> (client_response \<Rightarrow> exn option) \<Rightarrow> string \<Rightarrow> nat \<Rightarrow> stream \<Rightarrow> clock
     \<Rightarrow> client_response list \<times> unit reading \<times> clock"
where
  "timed_multipart_loop net tm f boundary 0 st t = ([], None, t)"
| "timed_multipart_loop net tm f boundary (Suc fuel) st t =
     (case await_read tm (find_multipart_boundary boundary) st t of
        (Inl e, t1) \<Rightarrow> ([], Some (Inl e), t1)
      | (Inr (False, st1), t1) \<Rightarrow> ([], Some (Inr ()), t1)
      | (Inr (True, st1), t1) \<Rightarrow>
          (case await_read tm (n_read_header net) st1 (expires_after (tm_timeout tm) t1) of
             (Inl e, t2) \<Rightarrow> ([], Some (Inl e), t2)
           | (Inr (h, st2), t2) \<Rightarrow>
               if h_content_length h = None
               then ([], Some (Inl (make_error Unexpected_error Ec_shut_down
                      ''HTTP multipart without part content-length is not supported!'')), t2)
               else
                 (case await_read tm (n_read_body net h) st2 t2 of
                    (Inl e, t3) \<Rightarrow> ([], Some (Inl e), t3)
                  | (Inr (part, st3), t3) \<Rightarrow>
                      (case f part of
                         Some e \<Rightarrow> ([part], Some (Inl e), elapse (tm_call tm part) t3)
                       | None \<Rightarrow>
                           (case timed_multipart_loop net tm f boundary fuel st3 (elapse (tm_call tm part) t3) of
                              (parts, en, t4) \<Rightarrow> (part # parts, en, t4))))))"

definition timed_client_auth ::
  "net \<Rightarrow> timing \<Rightarrow> nat \<Rightarrow> u32 \<Rightarrow> http_url_scheme \<Rightarrow> client_request \<Rightarrow> head \<Rightarrow> stream \<Rightarrow> clock \<Rightarrow> client_response outcome \<times> clock"
where
  "timed_client_auth net tm n count0 sch req h st t =
     (case await_read tm (n_read_body net h) st t of
        (Inl e, t1) \<Rightarrow> (Err e, t1)
      | (Inr (resp, st1), t1) \<Rightarrow>
          (case generateAuthorization (n_digest net) (n_cnonce net n) count0
                  \<lparr>m_authenticate = h_www_authenticate (rp_head resp), m_username = username sch,
                   m_password = password sch, m_uri = target sch, m_method = cr_method req, m_body = rp_body resp\<rparr> of
             None \<Rightarrow> (Fault, t1)
           | Some (Some a, _) \<Rightarrow>
               (case await (tm_write tm n) False (Some (case n_write net n of None \<Rightarrow> Inr () | Some e \<Rightarrow> Inl e)) t1 of
                  (Inl e, t2) \<Rightarrow> (Err e, t2)
                | (Inr _, t2) \<Rightarrow> (Challenge a, t2))
           | Some (None, _) \<Rightarrow> (Ok resp, t1)))"

definition timed_request_response ::
  "net \<Rightarrow> timing \<Rightarrow> (client_response \<Rightarrow> exn option) \<Rightarrow> nat \<Rightarrow> nat \<Rightarrow> u32 \<Rightarrow> http_url_scheme \<Rightarrow> client_request \<Rightarrow> bool \<Rightarrow> stream \<Rightarrow> clock
     \<Rightarrow> client_response list \<times> client_response outcome \<times> clock"
where
  "timed_request_response net tm f fuel n count0 sch req try_auth st t =
     (case await_read tm (n_read_header net) st t of
        (Inl e, t1) \<Rightarrow> ([], Err e, t1)
      | (Inr (h, st1), t1) \<Rightarrow>
          if try_auth \<and> h_status h = 401 \<and> username sch \<noteq> [] \<and> password sch \<noteq> [] then
            ([], timed_client_auth net tm n count0 sch req h st1 t1)
          else if (case h_content_type h of Some ct \<Rightarrow> contains_str ''multipart'' ct | None \<Rightarrow> False) then
            (case deduce_boundary (the (h_content_type h)) of
               None \<Rightarrow> ([], Err (make_error Unexpected_error Ec_shut_down ''HTTP response error, cannot get boundary token''), t1)
             | Some boundary \<Rightarrow>
                 (case timed_multipart_loop net tm f boundary fuel st1 t1 of
                    (parts, en, t2) \<Rightarrow> (parts, of_reading (\<lambda>_. \<lparr>rp_head = h, rp_body = []\<rparr>) en, t2)))
          else
            (case await_read tm (n_read_body net h) st1 t1 of (r, t2) \<Rightarrow> ([], of_reading fst (Some r), t2)))"

text \<open>
  The end of a request that was answered: the write is awaited, then the connection is shut down, over TLS with another wait; failures
  are ignored. (After a challenge the future of the write was never assigned: \<open>get\<close> throws at once and nothing is shut down.)
\<close>

definition finish_request :: "net \<Rightarrow> timing \<Rightarrow> nat \<Rightarrow> bool \<Rightarrow> clock \<Rightarrow> clock" where
  "finish_request net tm n ssl t =
     (case await (tm_write tm n) False (Some (case n_write net n of None \<Rightarrow> Inr () | Some e \<Rightarrow> Inl e)) t of
        (Inl e, t1) \<Rightarrow> t1
      | (Inr _, t1) \<Rightarrow> if ssl then snd (await (tm_shutdown tm n) False (Some (Inr ())) t1) else t1)"

lemma timed_no_challenge: "fst (snd (timed_request_response net tm f fuel n count0 sch req False st t)) \<noteq> Challenge a"
  by (auto simp: timed_request_response_def split: option.split sum.split prod.split)

lemma timed_challenge_first:
  "(parts, Challenge a, t') = timed_request_response net tm f fuel n count0 sch req (auth = None) st t \<Longrightarrow> auth = None"
  using timed_no_challenge [of net tm f fuel n count0 sch req st t a] by (cases auth) (auto dest: sym)

function timed_request ::
  "net \<Rightarrow> timing \<Rightarrow> (client_response \<Rightarrow> exn option) \<Rightarrow> nat \<Rightarrow> nat \<Rightarrow> u32 \<Rightarrow> string \<Rightarrow> string \<Rightarrow> string \<Rightarrow> (string \<times> string) list
     \<Rightarrow> string option \<Rightarrow> clock \<Rightarrow> client_response list \<times> client_response option outcome \<times> clock"
where
  "timed_request net tm f fuel n count0 meth url data headers auth t =
     (case http_analyze_url (n_parse_uri net) url of
        None \<Rightarrow> ([], Ok None, t)
      | Some sch \<Rightarrow>
          let req = build_request (n_ieq net) (n_version net) sch auth meth data headers in
          case n_verb net meth of
            Some e \<Rightarrow> ([], Err e, t)
          | None \<Rightarrow>
              (case tm_resolve tm n of
                 None \<Rightarrow> ([], Blocked, t)
               | Some d \<Rightarrow>
                   (case await (tm_open tm n) False (Some (n_open net n sch req)) (expires_after (tm_timeout tm) (elapse d t)) of
                      (Inl e, t1) \<Rightarrow> ([], Err e, t1)
                    | (Inr st, t1) \<Rightarrow>
                        (case timed_request_response net tm f fuel n count0 sch req (auth = None) st t1 of
                           (parts, Challenge a, t2) \<Rightarrow>
                             (case timed_request net tm f fuel (Suc n) (count0 + 1) meth url (cr_body req) headers (Some a) t2 of
                                (parts', r, t3) \<Rightarrow> (parts @ parts', r, t3))
                         | (parts, Ok resp, t2) \<Rightarrow> (parts, Ok (Some resp), finish_request net tm n (is_ssl sch) t2)
                         | (parts, Err e, t2) \<Rightarrow> (parts, Err e, t2)
                         | (parts, Fault, t2) \<Rightarrow> (parts, Fault, t2)
                         | (parts, Blocked, t2) \<Rightarrow> (parts, Blocked, t2)))))"
  by pat_completeness auto
termination
  by (relation "measure (\<lambda>(net, tm, f, fuel, n, count0, meth, url, data, headers, auth, t). if auth = None then 1 else 0)")
    (auto dest: timed_challenge_first)

declare timed_request.simps [simp del]

text \<open>The overloads without a timeout take 30 seconds, those without headers an empty map, the one without data no body.\<close>

definition timed_request_default ::
  "net \<Rightarrow> timing \<Rightarrow> (client_response \<Rightarrow> exn option) \<Rightarrow> nat \<Rightarrow> nat \<Rightarrow> u32 \<Rightarrow> string \<Rightarrow> string \<Rightarrow> string \<Rightarrow> (string \<times> string) list
     \<Rightarrow> clock \<Rightarrow> client_response list \<times> client_response option outcome \<times> clock"
where
  "timed_request_default net tm f fuel n count0 meth url data headers t =
     timed_request net (tm\<lparr>tm_timeout := 30000\<rparr>) f fuel n count0 meth url data headers None t"

definition timed_request_no_headers ::
  "net \<Rightarrow> timing \<Rightarrow> (client_response \<Rightarrow> exn option) \<Rightarrow> nat \<Rightarrow> nat \<Rightarrow> u32 \<Rightarrow> string \<Rightarrow> string \<Rightarrow> string
     \<Rightarrow> clock \<Rightarrow> client_response list \<times> client_response option outcome \<times> clock"
where
  "timed_request_no_headers net tm f fuel n count0 meth url data t = timed_request_default net tm f fuel n count0 meth url data [] t"

definition timed_request_no_data ::
  "net \<Rightarrow> timing \<Rightarrow> (client_response \<Rightarrow> exn option) \<Rightarrow> nat \<Rightarrow> nat \<Rightarrow> u32 \<Rightarrow> string \<Rightarrow> string
     \<Rightarrow> clock \<Rightarrow> client_response list \<times> client_response option outcome \<times> clock"
where
  "timed_request_no_data net tm f fuel n count0 meth url t = timed_request_no_headers net tm f fuel n count0 meth url [] t"

section \<open>How long a request takes\<close>

text \<open>When the waiting of a stream is over at the latest; waiting never moves it.\<close>

definition horizon :: "clock \<Rightarrow> nat" where
  "horizon t = max (t_now t) (t_expiry t)"

lemma await_horizon: "horizon (snd (await d here r t)) \<le> horizon t"
  by (auto simp: await_def horizon_def elapse_def split: option.split)

lemma await_read_horizon: "horizon (snd (await_read tm R st t)) \<le> horizon t"
  using await_horizon [of _ _ _ "t\<lparr>t_reads := Suc (t_reads t)\<rparr>"] unfolding await_read_def by (simp add: horizon_def)

lemma await_readD: "await_read tm R st t = (x, t') \<Longrightarrow> horizon t' \<le> horizon t"
  using await_read_horizon [of tm R st t] by simp

lemma awaitD: "await d here r t = (x, t') \<Longrightarrow> horizon t' \<le> horizon t"
  using await_horizon [of d here r t] by simp

lemma expires_horizon: "horizon (expires_after ms t) \<le> horizon t + ms"
  by (auto simp: horizon_def expires_after_def)

lemma elapse_horizon: "horizon (elapse ms t) \<le> horizon t + ms"
  by (auto simp: horizon_def elapse_def)

definition parts_time :: "timing \<Rightarrow> client_response list \<Rightarrow> nat" where
  "parts_time tm parts = sum_list (map (\<lambda>p. tm_timeout tm + tm_call tm p) parts)"

lemma parts_time_simps [simp]:
  "parts_time tm [] = 0" "parts_time tm (p # ps) = tm_timeout tm + tm_call tm p + parts_time tm ps"
  "parts_time tm (ps @ qs) = parts_time tm ps + parts_time tm qs"
  by (simp_all add: parts_time_def)

lemma horizon_armed: "horizon a \<le> horizon (expires_after ms u) \<Longrightarrow> horizon a \<le> horizon u + ms"
  using expires_horizon le_trans by blast

lemma horizon_elapsed: "horizon a \<le> horizon (elapse c u) + k + l \<Longrightarrow> horizon a \<le> horizon u + c + k + l"
  using elapse_horizon [of c u] by simp

lemma timed_loop_bounded:
  "timed_multipart_loop net tm f boundary fuel st t = (parts, en, t') \<Longrightarrow>
     horizon t' \<le> horizon t + tm_timeout tm + parts_time tm parts \<and> (en = None \<longrightarrow> fuel \<le> length parts)"
proof (induction fuel arbitrary: st t parts)
  case (Suc fuel)
  from Suc.prems show ?case
    by (auto split: prod.splits sum.splits bool.splits if_splits option.splits
        dest!: await_readD Suc.IH horizon_armed horizon_elapsed intro: le_trans [OF elapse_horizon])
qed simp

lemma of_reading_blocked [simp]: "of_reading g r = Blocked \<longleftrightarrow> r = None"
  by (cases "(g, r)" rule: of_reading.cases) auto

lemma timed_auth_bounded:
  assumes "timed_client_auth net tm n count0 sch req h st t = (out, t')"
  shows "horizon t' \<le> horizon t \<and> out \<noteq> Blocked"
  using assms unfolding timed_client_auth_def
  by (auto split: prod.splits sum.splits option.splits dest!: await_readD awaitD)

lemma timed_exchange_bounded:
  assumes "timed_request_response net tm f fuel n count0 sch req try_auth st t = (parts, out, t')"
  shows "horizon t' \<le> horizon t + tm_timeout tm + parts_time tm parts \<and> (out = Blocked \<longrightarrow> fuel \<le> length parts) \<and>
    (\<forall>a. out = Challenge a \<longrightarrow> try_auth \<and> parts = [] \<and> horizon t' \<le> horizon t)"
  using assms unfolding timed_request_response_def
  by (auto split: prod.splits sum.splits if_splits option.splits dest!: await_readD timed_auth_bounded timed_loop_bounded)

lemma finish_bounded: "horizon (finish_request net tm n ssl t) \<le> horizon t"
  by (auto simp: finish_request_def split: prod.split sum.split dest!: awaitD intro: le_trans [OF await_horizon])

definition resolve_time :: "timing \<Rightarrow> nat \<Rightarrow> nat" where
  "resolve_time tm n = (case tm_resolve tm n of None \<Rightarrow> 0 | Some d \<Rightarrow> d)"

text \<open>One attempt: it ends, or challenges the caller to try again.\<close>

lemma now_horizon: "t_now t \<le> horizon t"
  by (simp add: horizon_def)

lemma start_horizon: "horizon (expires_after ms (elapse d t)) = t_now t + d + ms"
  by (simp add: horizon_def expires_after_def elapse_def)

lemma attempt_horizon:
  assumes "horizon t1 \<le> horizon (expires_after T (elapse d t))"
  shows "t_now t1 \<le> t_now t + d + T"
    and "horizon t2 \<le> horizon t1 \<Longrightarrow> t_now t2 \<le> t_now t + d + T"
    and "horizon t2 \<le> horizon t1 + T + k \<Longrightarrow> t_now t2 \<le> t_now t + d + 2 * T + k"
    and "horizon t2 \<le> horizon t1 + T + k \<Longrightarrow> t_now (finish_request net tm n ssl t2) \<le> t_now t + d + 2 * T + k"
  using assms now_horizon [of t1] now_horizon [of t2] now_horizon [of "finish_request net tm n ssl t2"]
    finish_bounded [of net tm n ssl t2]
  by (simp_all add: start_horizon)

lemma timed_attempt:
  assumes "timed_request net tm f fuel n count0 meth url data headers auth t = (parts, out, t')"
  shows "t_now t' \<le> t_now t + resolve_time tm n + 2 * tm_timeout tm + parts_time tm parts \<and>
      (out = Blocked \<longrightarrow> tm_resolve tm n = None \<or> fuel \<le> length parts) \<or>
    auth = None \<and> (\<exists>t2 data' a. t_now t2 \<le> t_now t + resolve_time tm n + tm_timeout tm \<and>
      timed_request net tm f fuel (Suc n) (count0 + 1) meth url data' headers (Some a) t2 = (parts, out, t'))"
  using assms
  by (subst (asm) timed_request.simps)
    (auto simp: Let_def resolve_time_def split: option.splits prod.splits sum.splits outcome.splits
      dest!: awaitD timed_exchange_bounded intro: attempt_horizon, (metis attempt_horizon(2) | (drule attempt_horizon(1), simp))+)

text \<open>
  The deadline runs on while the caller's function works on a part: when it takes longer than what is left, the
  wait for the next boundary fails, unless the boundary is in the buffer already.
\<close>

lemma late_read_fails:
  assumes "t_expiry t < t_now t" and "R (st\<lparr>incoming := []\<rparr>) = None"
  shows "fst (await_read tm R st t) = Inl timeout_error"
  using assms by (simp add: await_read_def await_def split: option.split)

section \<open>Without delays the clock changes nothing\<close>

definition prompt :: "timing \<Rightarrow> bool" where
  "prompt tm \<longleftrightarrow> tm_resolve tm = (\<lambda>_. Some 0) \<and> tm_open tm = (\<lambda>_. Some 0) \<and> tm_write tm = (\<lambda>_. Some 0) \<and>
     tm_read tm = (\<lambda>_. 0) \<and> tm_call tm = (\<lambda>_. 0)"

lemma elapse_0 [simp]: "elapse 0 t = t"
  by (simp add: elapse_def)

lemma await_prompt: "t_now t \<le> t_expiry t \<Longrightarrow> await (Some 0) here (Some x) t = (x, t)"
  by (simp add: await_def)

lemma expires_prompt [simp]: "t_now (expires_after ms t) \<le> t_expiry (expires_after ms t)"
  by (simp add: expires_after_def)

lemma await_read_prompt_eq:
  "prompt tm \<Longrightarrow> t_now t \<le> t_expiry t \<Longrightarrow> await_read tm R st t =
     (case R st of Some x \<Rightarrow> (x, t\<lparr>t_reads := Suc (t_reads t)\<rparr>)
      | None \<Rightarrow> (Inl timeout_error, t\<lparr>t_reads := Suc (t_reads t), t_now := t_expiry t\<rparr>))"
  by (auto simp: await_read_def prompt_def await_def max_def split: option.split)

lemma prompt_loop:
  assumes "prompt tm"
  shows "multipart_loop net f boundary fuel st = (parts, Some y) \<Longrightarrow> timed_multipart_loop net tm f boundary fuel st t = (ps, e, t') \<Longrightarrow>
    t_now t \<le> t_expiry t \<Longrightarrow> ps = parts \<and> e = Some y \<and> t_now t' \<le> t_expiry t'"
proof (induction fuel arbitrary: st t parts ps)
  case (Suc fuel)
  have call: "tm_call tm part = 0" for part using assms by (simp add: prompt_def)
  from Suc.prems show ?case
    by (auto simp: read_part_def await_read_prompt_eq [OF assms] call split: option.splits sum.splits prod.splits bool.splits if_splits
        dest!: Suc.IH)
qed simp

lemma prompt_auth:
  assumes "prompt tm" and "timed_client_auth net tm n count0 sch req h st t = (out, t')" and "t_now t \<le> t_expiry t"
    and "handle_client_auth net n count0 sch req h st \<noteq> Blocked"
  shows "out = handle_client_auth net n count0 sch req h st \<and> t_now t' \<le> t_expiry t'"
proof -
  have w: "tm_write tm n = Some 0" using assms(1) by (simp add: prompt_def)
  from assms(2-) show ?thesis
    by (auto simp: handle_client_auth_def timed_client_auth_def await_read_prompt_eq [OF assms(1)] await_prompt w
        split: option.splits sum.splits prod.splits)
qed

lemma prompt_exchange:
  assumes "prompt tm" and "handle_client_request_response net f fuel n count0 sch req try_auth st = (parts, out)" and "out \<noteq> Blocked"
    and "timed_request_response net tm f fuel n count0 sch req try_auth st t = (ps, out', t')" and "t_now t \<le> t_expiry t"
  shows "ps = parts \<and> out' = out \<and> t_now t' \<le> t_expiry t'"
  using assms(2-)
  by (auto simp: handle_client_request_response_def timed_request_response_def await_read_prompt_eq [OF assms(1)]
      split: option.splits sum.splits prod.splits if_splits dest!: prompt_loop [OF assms(1)] prompt_auth [OF assms(1)])

lemma prompt_request:
  assumes "prompt tm"
  shows "http_easy_request_multipart net f fuel n count0 meth url data headers auth = (sent, parts, out) \<Longrightarrow> out \<noteq> Blocked \<Longrightarrow>
    timed_request net tm f fuel n count0 meth url data headers auth t = (ps, out', t') \<Longrightarrow> ps = parts \<and> out' = out"
proof (induction "if auth = None then 1 else 0 :: nat" arbitrary: n count0 data auth sent parts ps t rule: less_induct)
  case less
  have tm: "tm_resolve tm n = Some 0" "tm_open tm n = Some 0" using assms by (simp_all add: prompt_def)
  have arm: "t_now (expires_after (tm_timeout tm) t) \<le> t_expiry (expires_after (tm_timeout tm) t)" by simp
  have again: "q = p \<and> o2 = o1"
    if "timed_request_response net tm f fuel n count0 sch req (auth = None) st u = (x, Challenge a, u')"
      and "http_easy_request_multipart net f fuel k c meth url data' headers (Some a) = (s', p, o1)" and "o1 \<noteq> Blocked"
      and "timed_request net tm f fuel k c meth url data' headers (Some a) v = (q, o2, v')" and "v' = t'" and "o1 = out" and "o2 = out'"
    for sch req st u x a u' k c data' s' p o1 v q o2 v'
    using less.hyps [of "Some a" k c data' s' p v q] timed_challenge_first [OF that(1) [symmetric]] that by simp
  from less.prems show ?case
    by (subst (asm) http_easy_request_multipart.simps, subst (asm) timed_request.simps)
      (auto simp: Let_def tm await_prompt [OF arm] split: option.splits sum.splits prod.splits outcome.splits
        dest!: prompt_exchange [OF assms] dest: again)
qed

section \<open>Properties\<close>

text \<open>Timing for examples: a server that is slow to answer, and a write that never ends.\<close>

definition demo_timing :: timing where
  "demo_timing = \<lparr>tm_timeout = 1000, tm_resolve = \<lambda>_. Some 20, tm_open = \<lambda>_. Some 30, tm_write = \<lambda>_. None,
     tm_shutdown = \<lambda>_. None, tm_read = \<lambda>_. 5000, tm_call = \<lambda>_. 0\<rparr>"

definition demo_clock :: clock where
  "demo_clock = \<lparr>t_now = 0, t_expiry = 0, t_reads = 0\<rparr>"

text \<open>
  C24. A request returns in bounded time: whatever the server and the network do (an operation that never completes included), a request with a
  timeout \<open>T\<close> ends, at most \<open>3 T\<close> plus \<open>T\<close> and the time of the caller's function for every part of a multipart
  response, plus the time of its name resolutions, after its start. Only a name resolution that never ends and a server that sends more parts than
  any given number keep it from returning.
\<close>

theorem client_request_bounded:
  assumes "timed_request net tm f fuel n count0 meth url data headers None t = (parts, out, t')"
  shows "t_now t' \<le> t_now t + resolve_time tm n + resolve_time tm (Suc n) + 3 * tm_timeout tm + parts_time tm parts \<and>
    (out = Blocked \<longrightarrow> tm_resolve tm n = None \<or> tm_resolve tm (Suc n) = None \<or> fuel \<le> length parts)"
  using timed_attempt [OF assms] by (auto dest!: timed_attempt)

theorem client_request_bounded_witness:
  "t_now (snd (snd (timed_request demo_net demo_timing (\<lambda>_. None) 1 0 0 ''GET'' ''u'' [] [] None demo_clock)))
     \<le> 3040 + 1000 * length (fst (timed_request demo_net demo_timing (\<lambda>_. None) 1 0 0 ''GET'' ''u'' [] [] None demo_clock))"
proof -
  obtain parts out t' where e: "timed_request demo_net demo_timing (\<lambda>_. None) 1 0 0 ''GET'' ''u'' [] [] None demo_clock = (parts, out, t')"
    by (rule prod_cases3)
  have "parts_time demo_timing parts = 1000 * length parts" by (induction parts) (simp_all add: demo_timing_def)
  with client_request_bounded [OF e] e show ?thesis by (simp add: resolve_time_def demo_timing_def demo_clock_def)
qed

end
