(* ===== verification/Ws_Client.thy ===== *)
theory Ws_Client
  imports Client_Tls Client_Time Websocket
begin

text \<open>
  Opening a websocket (\<open>src/http_websocket.cpp\<close>, \<open>src/http_websocket_plain.cpp\<close>, \<open>src/http_websocket_ssl.cpp\<close>): the whole sequence with
  its deadlines, the TLS context and the object that is returned. Resolver, network, OpenSSL's handshake and Beast's websocket
  handshake are arguments, as are the timeouts that Beast suggests for a client.
\<close>

section \<open>The object\<close>

record 'cb ws_object =
  wo_host :: string
  wo_port :: string
  wo_path :: string
  wo_is_server_connection :: bool
  wo_tls_context :: "'cb client_ctx option"
  wo_tls :: "ssl_conn option"
  wo_tcp_expiry :: "nat option"
  wo_timeout :: ws_timeout
  wo_user_agent :: string

text \<open>The constructor of \<open>websocket_impl\<close> for a client.\<close>

definition websocket_ctor :: "string \<Rightarrow> string \<Rightarrow> string \<Rightarrow> ws_timeout \<Rightarrow> 'cb ws_object" where
  "websocket_ctor h p path default_timeout =
     \<lparr>wo_host = h, wo_port = p, wo_path = path, wo_is_server_connection = False, wo_tls_context = None, wo_tls = None,
      wo_tcp_expiry = None, wo_timeout = default_timeout, wo_user_agent = []\<rparr>"

text \<open>The path of the object, and the host and target of the websocket handshake.\<close>

definition ws_path :: "http_url_scheme \<Rightarrow> string" where
  "ws_path sch = (if is_ssl sch then ws_target sch else target sch)"

definition ws_handshake_args :: "http_url_scheme \<Rightarrow> string \<times> string" where
  "ws_handshake_args sch =
     (if port sch = 80 \<or> port sch = 443 then (host sch, ws_target sch)
      else (host sch @ '':'' @ dec_nat (unat (port sch)), if is_ssl sch then ws_target sch else target sch))"

section \<open>Opening\<close>

text \<open>
  How long the steps take (\<open>None\<close>: never done): the name resolution, connecting with the TLS handshake, and the
  websocket handshake.
\<close>

record ws_timing =
  wt_resolve :: "nat option"
  wt_open :: "nat option"
  wt_shake :: "nat option"

record ws_beast =
  wb_version :: string
  wb_default :: ws_timeout
  wb_suggested :: ws_timeout
  wb_handshake :: "string \<Rightarrow> string \<Rightarrow> exn option"

text \<open>
  \<open>make_websocket_connection_plain\<close> and \<open>make_websocket_connection_ssl\<close>, by the scheme: connecting has \<open>timeout\<close> seconds; then the
  deadline of the TCP stream is taken off, since the websocket has its own. The result is \<open>None\<close> while the name resolution has not ended.
\<close>

definition open_websocket ::
  "ossl \<Rightarrow> 'cb connector \<Rightarrow> (error_code \<Rightarrow> string) \<Rightarrow> ws_beast \<Rightarrow> ws_timing \<Rightarrow> 'cb client_ctx option \<Rightarrow> 'cb client_ctx option \<Rightarrow>
     'cb client_ctx option \<Rightarrow> http_url_scheme \<Rightarrow> nat \<Rightarrow> clock \<Rightarrow> (exn + 'cb ws_object) option \<times> clock"
where
  "open_websocket os co msg be wt tls_ctx own d sch timeout t =
     (case wt_resolve wt of
        None \<Rightarrow> (None, t)
      | Some k \<Rightarrow>
          (case co_resolve co (host sch) (dec_nat (unat (port sch))) of
             Some e \<Rightarrow> (Some (Inl e), elapse k t)
           | None \<Rightarrow>
               (case await (wt_open wt) False (Some (fst (open_stream os co msg (int timeout) tls_ctx own d sch)))
                       (expires_after (1000 * timeout) (elapse k t)) of
                  (Inl e, t1) \<Rightarrow> (Some (Inl e), t1)
                | (Inr conn, t1) \<Rightarrow>
                    let ctx = (if is_ssl sch then (case fst (request_context os tls_ctx own d) of Inr c \<Rightarrow> Some c | Inl _ \<Rightarrow> None) else None);
                        ws = (websocket_ctor (host sch) (dec_nat (unat (port sch))) (ws_path sch) (wb_default be))
                               \<lparr>wo_tls_context := ctx, wo_tls := conn, wo_tcp_expiry := None, wo_timeout := wb_suggested be,
                                wo_user_agent := wb_version be @ '' websocket-client-async''\<rparr>;
                        (h, p) = ws_handshake_args sch
                    in (case await (wt_shake wt) False (Some (case wb_handshake be h p of None \<Rightarrow> Inr () | Some e \<Rightarrow> Inl e))
                               (expires_after (1000 * nat (handshake_timeout (wo_timeout ws))) t1) of
                          (Inl e, t2) \<Rightarrow> (Some (Inl e), t2)
                        | (Inr _, t2) \<Rightarrow> (Some (Inr ws), t2)))))"

text \<open>\<open>make_websocket_connection\<close>: a URL that cannot be analysed gives a null pointer.\<close>

definition make_websocket ::
  "ossl \<Rightarrow> 'cb connector \<Rightarrow> (error_code \<Rightarrow> string) \<Rightarrow> ws_beast \<Rightarrow> ws_timing \<Rightarrow> 'cb client_ctx option \<Rightarrow> 'cb client_ctx option \<Rightarrow>
     'cb client_ctx option \<Rightarrow> (string \<Rightarrow> url_view option) \<Rightarrow> string \<Rightarrow> nat \<Rightarrow> clock \<Rightarrow> (exn + 'cb ws_object option) option \<times> clock"
where
  "make_websocket os co msg be wt tls_ctx own d parse_uri url timeout t =
     (case http_analyze_url parse_uri url of
        None \<Rightarrow> (Some (Inr None), t)
      | Some sch \<Rightarrow>
          (case open_websocket os co msg be wt tls_ctx own d sch timeout t of
             (r, t1) \<Rightarrow> (map_option (map_sum id Some) r, t1)))"

section \<open>Lemmas\<close>

text \<open>The handshake is the last of the steps listed for the scheme.\<close>

lemma handshake_is_last_step:
  "Ws_handshake (fst (ws_handshake_args sch)) (snd (ws_handshake_args sch)) =
     last (if is_ssl sch then make_websocket_connection_ssl sch timeout else make_websocket_connection_plain sch timeout)"
  by (simp add: ws_handshake_args_def make_websocket_connection_ssl_def make_websocket_connection_plain_def)

lemma await_InrD: "await d here (Some x) t = (Inr y, t') \<Longrightarrow> x = Inr y"
  by (auto simp: await_def split: option.splits if_splits)

lemma open_websocket_time:
  assumes "open_websocket os co msg be wt tls_ctx own d sch timeout t = (Some r, t')"
  shows "t_now t' \<le> t_now t + (case wt_resolve wt of None \<Rightarrow> 0 | Some k \<Rightarrow> k) + 1000 * timeout +
    1000 * nat (handshake_timeout (wb_suggested be))"
proof -
  obtain k where k: "wt_resolve wt = Some k" using assms by (auto simp: open_websocket_def split: option.splits)
  let ?t0 = "expires_after (1000 * timeout) (elapse k t)"
  have h0: "horizon ?t0 \<le> t_now t + k + 1000 * timeout" by (simp add: horizon_def expires_after_def elapse_def)
  have now: "t_now u \<le> horizon u" for u by (simp add: horizon_def)
  show ?thesis
  proof (cases "co_resolve co (host sch) (dec_nat (unat (port sch)))")
    case (Some e)
    then show ?thesis using assms k by (auto simp: open_websocket_def elapse_def)
  next
    case None
    obtain r1 t1 where a: "await (wt_open wt) False (Some (fst (open_stream os co msg (int timeout) tls_ctx own d sch))) ?t0 = (r1, t1)" by force
    have h1: "horizon t1 \<le> t_now t + k + 1000 * timeout" using awaitD [OF a] h0 by simp
    show ?thesis
    proof (cases r1)
      case (Inl e)
      then have "t' = t1" using assms k None a by (auto simp: open_websocket_def)
      then show ?thesis using h1 now [of t1] k by simp
    next
      case (Inr conn)
      let ?t2 = "expires_after (1000 * nat (handshake_timeout (wb_suggested be))) t1"
      obtain r2 where "await (wt_shake wt) False (Some (case wb_handshake be (fst (ws_handshake_args sch)) (snd (ws_handshake_args sch)) of
          None \<Rightarrow> Inr () | Some e \<Rightarrow> Inl e)) ?t2 = (r2, t')"
        using assms k None a Inr by (auto simp: open_websocket_def Let_def split: prod.splits sum.splits)
      from awaitD [OF this] expires_horizon [of "1000 * nat (handshake_timeout (wb_suggested be))" t1] h1 now [of t'] k
      show ?thesis by simp
    qed
  qed
qed

lemma open_websocket_ok:
  assumes "open_websocket os co msg be wt tls_ctx own d sch timeout t = (Some (Inr ws), t')"
  shows "fst (open_stream os co msg (int timeout) tls_ctx own d sch) = Inr (wo_tls ws) \<and>
    wb_handshake be (fst (ws_handshake_args sch)) (snd (ws_handshake_args sch)) = None \<and>
    wo_host ws = host sch \<and> wo_path ws = ws_path sch \<and> \<not> wo_is_server_connection ws \<and> wo_timeout ws = wb_suggested be"
  using assms
  by (auto simp: open_websocket_def websocket_ctor_def Let_def split: option.splits prod.splits sum.splits
      dest!: await_InrD)

section \<open>Properties\<close>

text \<open>
  C27. A websocket is opened in bounded time and only to a verified peer: whatever the network does, once the name is resolved the
  call returns within the timeout for connecting plus the one Beast suggests for the handshake; when it returns a websocket, the
  handshake was done for the host and target of the URL, the object belongs to that host and is a client's, and for a \<open>wss\<close> URL, unless
  somebody chose a context that does not verify, the peer has a certificate valid for the URL's host.
\<close>

theorem websocket_opens_to_verified_peer:
  assumes "verifies co chain_ok valid_for"
    and "pred_option secure_ctx tls_ctx" and "pred_option secure_ctx own" and "pred_option secure_ctx d"
    and "http_analyze_url parse_uri url = Some sch"
    and "make_websocket os co msg be wt tls_ctx own d parse_uri url timeout t = (Some r, t')"
  shows "t_now t' \<le> t_now t + (case wt_resolve wt of None \<Rightarrow> 0 | Some k \<Rightarrow> k) + 1000 * timeout +
      1000 * nat (handshake_timeout (wb_suggested be)) \<and> r \<noteq> Inr None \<and>
    (\<forall>ws. r = Inr (Some ws) \<longrightarrow>
       (is_ssl sch \<longrightarrow> valid_for (normalise_host (host sch))) \<and>
       wb_handshake be (fst (ws_handshake_args sch)) (snd (ws_handshake_args sch)) = None \<and>
       wo_host ws = host sch \<and> \<not> wo_is_server_connection ws)"
proof -
  obtain r1 where o: "open_websocket os co msg be wt tls_ctx own d sch timeout t = (Some r1, t')" "r = map_sum id Some r1"
    using assms(5,6) by (auto simp: make_websocket_def split: prod.splits)
  have "(is_ssl sch \<longrightarrow> valid_for (normalise_host (host sch))) \<and>
      wb_handshake be (fst (ws_handshake_args sch)) (snd (ws_handshake_args sch)) = None \<and>
      wo_host ws = host sch \<and> \<not> wo_is_server_connection ws" if "r = Inr (Some ws)" for ws
  proof -
    have "r1 = Inr ws" using o(2) that by (cases r1) auto
    note ok = open_websocket_ok [OF o(1) [unfolded this]]
    obtain d' where "open_stream os co msg (int timeout) tls_ctx own d sch = (Inr (wo_tls ws), d')"
      using ok by (metis prod.collapse)
    with ok open_stream_verified [OF assms(1) _ this assms(2-4)] show ?thesis by blast
  qed
  moreover have "r \<noteq> Inr None" using o(2) by (cases r1) auto
  ultimately show ?thesis using open_websocket_time [OF o(1)] by blast
qed

text \<open>A client for examples.\<close>

definition demo_beast :: ws_beast where
  "demo_beast = \<lparr>wb_version = ''Boost.Beast'', wb_default = \<lparr>handshake_timeout = 0, idle_timeout = 0, keep_alive_pings = False\<rparr>,
     wb_suggested = \<lparr>handshake_timeout = 30, idle_timeout = 0, keep_alive_pings = False\<rparr>, wb_handshake = (\<lambda>h p. None)\<rparr>"

theorem websocket_opens_to_verified_peer_witness:
  "\<exists>r t'. make_websocket demo_ossl demo_connector (\<lambda>ec. []) demo_beast \<lparr>wt_resolve = Some 7, wt_open = None, wt_shake = None\<rparr>
     None None None demo_evil ''wss://evil.org'' 10 demo_clock = (Some r, t') \<and> t_now t' \<le> 40007"
proof -
  let ?wt = "\<lparr>wt_resolve = Some 7, wt_open = None, wt_shake = None\<rparr>"
  obtain sch where sch: "http_analyze_url demo_evil ''wss://evil.org'' = Some sch" by (simp add: http_analyze_url_def demo_evil_def)
  obtain r t' where m: "make_websocket demo_ossl demo_connector (\<lambda>ec. []) demo_beast ?wt None None None demo_evil ''wss://evil.org'' 10 demo_clock =
      (Some r, t')" by (simp add: make_websocket_def sch open_websocket_def demo_connector_def await_def)
  from websocket_opens_to_verified_peer [OF demo_verifies _ _ _ sch m] have "t_now t' \<le> 40007"
    by (simp add: demo_beast_def demo_clock_def)
  with m show ?thesis by blast
qed

end
