(* ===== verification/Conn_Fiber.thy ===== *)
theory Conn_Fiber
  imports Http_Server
begin

text \<open>
  The fiber of a connection step by step (\<open>http_connection::start\<close> in \<open>include/libasyik/http.hpp\<close>): the code between two
  suspension points is one step, and what wakes the fiber is the completion of the operation it waits for. \<open>conn_task\<close> of
  \<open>Http_Connection\<close> describes the same fiber as one function of everything that happens to it; the two are shown equal.
\<close>

section \<open>Suspension points\<close>

text \<open>
  Where the fiber waits: before its task runs, in the TLS handshake, for a request (with its request object and
  \<open>safe_to_close\<close>), for the response to be written, for the websocket handshake, for the websocket's handler, for the 413 answer to be
  written, in the TLS shutdown; or it has ended, with or without a logged warning.
\<close>

datatype fiber_pc =
    P_start
  | P_handshake
  | P_read http_request bool
  | P_write http_request http_res
  | P_ws_accept nat "string list"
  | P_ws_handler
  | P_413 http_res
  | P_shutdown
  | P_end bool

text \<open>What wakes it: the operation is done, it failed, or it gave a request and what is left in the buffer.\<close>

datatype wake = Done | Failed exn | Got http_req string bool

section \<open>Steps\<close>

text \<open>The handlers of an exception in the loop.\<close>

definition on_throw :: "'r conn_env \<Rightarrow> exn \<Rightarrow> bool \<Rightarrow> fiber_pc" where
  "on_throw env e safe_to_close =
     (if exn_class e \<le> Overflow_error then P_413 (too_large_response env (exn_what e))
      else if exn_class e \<le> Already_closed_error then P_end (\<not> safe_to_close)
      else P_end True)"

definition on_upgrade :: "'r conn_env \<Rightarrow> bool \<Rightarrow> http_request \<Rightarrow> fiber_pc" where
  "on_upgrade env server_alive r =
     (if buffer r \<noteq> [] then
        on_throw env (make_error Unexpected_input_error Ec_invalid_argument ''unexpected data before websocket handshake!'') False
      else if \<not> server_alive then P_end False
      else
        (case find_route (e_iequals env) (e_search env) (rq_method (beast_request r)) (rq_target (beast_request r))
                (e_ws_routes env) of
           Inl Route_not_found \<Rightarrow> P_end False
         | Inr (route, args) \<Rightarrow> P_ws_accept (snd (snd route)) args))"

definition on_request :: "'r conn_env \<Rightarrow> http_req \<Rightarrow> string \<Rightarrow> bool \<Rightarrow> http_request \<Rightarrow> fiber_pc" where
  "on_request env q rest server_alive r =
     (let r1 = r\<lparr>beast_request := q, buffer := rest\<rparr> in
      if rq_upgrade q then on_upgrade env server_alive r1
      else
        let r2 = dispatch_request env server_alive (prepare_response env r1) in
        if manual_response r2 then P_shutdown
        else P_write r2 (e_prepare_payload env (beast_response r2)))"

definition next_request :: "'r conn_env \<Rightarrow> http_request \<Rightarrow> fiber_pc" where
  "next_request env r = P_read (r\<lparr>beast_response := e_fresh env, manual_response := False\<rparr>) True"

text \<open>A wake-up that does not fit the operation leaves the fiber where it is.\<close>

fun fiber_step :: "'r conn_env \<Rightarrow> http_req \<Rightarrow> wake \<Rightarrow> fiber_pc \<Rightarrow> fiber_pc \<times> action list" where
  "fiber_step env q0 Done P_start = (P_handshake, [])"
| "fiber_step env q0 (Failed e) P_start = (P_end True, [])"
| "fiber_step env q0 Done P_handshake = (P_read (acquire_request env q0) False, [])"
| "fiber_step env q0 (Failed e) P_handshake = (P_end False, [])"
| "fiber_step env q0 (Got q rest alive) (P_read r safe) = (on_request env q rest alive r, [])"
| "fiber_step env q0 (Failed e) (P_read r safe) = (on_throw env e safe, [])"
| "fiber_step env q0 Done (P_write r res) = (if e_need_eof env res then P_shutdown else next_request env r, [Sent res])"
| "fiber_step env q0 (Failed e) (P_write r res) = (on_throw env e False, [])"
| "fiber_step env q0 Done (P_ws_accept h args) = (P_ws_handler, [Ws_handler h args])"
| "fiber_step env q0 (Failed e) (P_ws_accept h args) = (P_end False, [])"
| "fiber_step env q0 Done P_ws_handler = (P_end False, [])"
| "fiber_step env q0 (Failed e) P_ws_handler = (P_end False, [])"
| "fiber_step env q0 Done (P_413 res) = (P_shutdown, [Sent res])"
| "fiber_step env q0 (Failed e) (P_413 res) = (P_end False, [])"
| "fiber_step env q0 Done P_shutdown = (P_end False, [])"
| "fiber_step env q0 (Failed e) P_shutdown = (P_end False, [])"
| "fiber_step env q0 _ pc = (pc, [])"

fun fiber_run :: "'r conn_env \<Rightarrow> http_req \<Rightarrow> wake list \<Rightarrow> fiber_pc \<Rightarrow> fiber_pc \<times> action list" where
  "fiber_run env q0 [] pc = (pc, [])"
| "fiber_run env q0 (w # ws) pc =
     (case fiber_step env q0 w pc of (pc1, acts) \<Rightarrow> case fiber_run env q0 ws pc1 of (pc2, acts') \<Rightarrow> (pc2, acts @ acts'))"

section \<open>Steps agree with the whole\<close>

text \<open>
  What a fiber that sent \<open>acts\<close> has done so far, as a run of the loop: the loop may go on from where the fiber waits.
\<close>

definition loop0 :: "'r conn_env \<Rightarrow> http_req \<Rightarrow> event list \<Rightarrow> action list \<times> conn_end" where
  "loop0 env q0 evs = conn_loop env False (acquire_request env q0) evs"

definition continue :: "action list \<Rightarrow> action list \<times> conn_end \<Rightarrow> action list \<times> conn_end" where
  "continue acts r = (acts @ fst r, snd r)"

text \<open>How the loop goes on from a pending write, by its outcome.\<close>

fun after_write :: "'r conn_env \<Rightarrow> action list \<Rightarrow> http_request \<Rightarrow> http_res \<Rightarrow> exn option \<Rightarrow> event list \<Rightarrow> action list \<times> conn_end" where
  "after_write env acts r res (Some e) evs = (acts, Threw e False)"
| "after_write env acts r res None evs =
     (if e_need_eof env res then (acts @ [Sent res], Broke)
      else continue (acts @ [Sent res])
             (conn_loop env True (r\<lparr>beast_response := e_fresh env, manual_response := False\<rparr>) evs))"

fun so_far :: "'r conn_env \<Rightarrow> http_req \<Rightarrow> fiber_pc \<Rightarrow> action list \<Rightarrow> bool" where
  "so_far env q0 P_start acts \<longleftrightarrow> acts = []"
| "so_far env q0 P_handshake acts \<longleftrightarrow> acts = []"
| "so_far env q0 (P_read r safe) acts \<longleftrightarrow>
     (\<exists>evs. \<forall>evs'. loop0 env q0 (evs @ evs') = continue acts (conn_loop env safe r evs'))"
| "so_far env q0 (P_write r res) acts \<longleftrightarrow>
     (\<exists>evs q rest alive ok. \<forall>w evs'.
        loop0 env q0 (evs @ Read_ok q rest alive ok w # evs') = after_write env acts r res w evs')"
| "so_far env q0 (P_ws_accept h args) acts \<longleftrightarrow>
     (\<exists>evs q rest. \<forall>ok. loop0 env q0 (evs @ [Read_ok q rest True ok None]) =
        (acts @ (if ok then [Ws_handler h args] else []), Returned))"
| "so_far env q0 P_ws_handler acts \<longleftrightarrow> (\<exists>evs. loop0 env q0 evs = (acts, Returned))"
| "so_far env q0 (P_413 res) acts \<longleftrightarrow>
     (\<exists>evs e safe. loop0 env q0 evs = (acts, Threw e safe) \<and> exn_class e \<le> Overflow_error \<and>
        res = too_large_response env (exn_what e))"
| "so_far env q0 P_shutdown acts \<longleftrightarrow> (\<exists>fw evs. conn_task env None None q0 fw evs = (acts, True, False))"
| "so_far env q0 (P_end warned) acts \<longleftrightarrow>
     (\<exists>opt hs fw evs shut. conn_task env opt hs q0 fw evs = (acts, shut, warned) \<and>
        (opt = None \<and> hs = None \<longrightarrow> snd (loop0 env q0 evs) \<noteq> Waiting))"

lemma continue_simps [simp]: "continue acts (a, e) = (acts @ a, e)" "continue [] r = r" "continue a (continue b r) = continue (a @ b) r"
  by (simp_all add: continue_def)

lemma loop0_task:
  "loop0 env q0 evs = (acts, Broke) \<Longrightarrow> conn_task env None None q0 fw evs = (acts, True, False)"
  "loop0 env q0 evs = (acts, Returned) \<Longrightarrow> conn_task env None None q0 fw evs = (acts, False, False)"
  "loop0 env q0 evs = (acts, Threw e safe) \<Longrightarrow> conn_task env None None q0 fw evs =
     (if exn_class e \<le> Overflow_error then
        (case fw of None \<Rightarrow> (acts @ [Sent (too_large_response env (exn_what e))], True, False) | Some _ \<Rightarrow> (acts, False, False))
      else if exn_class e \<le> Already_closed_error then (acts, False, \<not> safe)
      else (acts, False, True))"
  by (simp_all add: loop0_def conn_task_def less_eq_error_class_def)

lemma so_far_endI:
  assumes "conn_task env None None q0 fw evs = (acts, shut, warned)" and "snd (loop0 env q0 evs) \<noteq> Waiting"
  shows "so_far env q0 (P_end warned) acts"
  unfolding so_far.simps(9) using assms by blast

declare so_far.simps(9) [simp del]

lemma so_far_shutdown:
  assumes "so_far env q0 P_shutdown acts"
  shows "so_far env q0 (P_end False) acts"
proof -
  from assms obtain fw evs where task: "conn_task env None None q0 fw evs = (acts, True, False)" by auto
  then have "snd (loop0 env q0 evs) \<noteq> Waiting" by (auto simp: conn_task_def loop0_def split: prod.splits conn_end.splits)
  with task show ?thesis by (rule so_far_endI)
qed

lemma so_far_returned:
  assumes "loop0 env q0 evs = (acts, Returned)"
  shows "so_far env q0 (P_end False) acts"
  using so_far_endI [OF loop0_task(2) [OF assms]] assms by simp

lemma on_throw_so_far:
  assumes "loop0 env q0 evs = (acts, Threw e safe)"
  shows "so_far env q0 (on_throw env e safe) acts"
proof (cases "exn_class e \<le> Overflow_error")
  case True
  with assms show ?thesis by (auto simp: on_throw_def)
next
  case False
  then show ?thesis
    using loop0_task(3) [OF assms, of None] assms
    by (auto simp: on_throw_def intro!: so_far_endI)
qed

lemma on_upgrade_so_far:
  assumes loop: "\<And>evs'. loop0 env q0 (evs @ evs') = continue acts (conn_loop env safe r evs')" and "rq_upgrade q"
  shows "so_far env q0 (on_upgrade env alive (r\<lparr>beast_request := q, buffer := rest\<rparr>)) acts"
proof -
  let ?r = "r\<lparr>beast_request := q, buffer := rest\<rparr>"
  have up: "loop0 env q0 (evs @ [Read_ok q rest alive ok None]) = continue acts (websocket_upgrade env alive ok ?r)" for ok
    using loop [of "[Read_ok q rest alive ok None]"] assms(2) by simp
  show ?thesis
  proof (cases "rest \<noteq> [] \<or> \<not> alive")
    case True
    then show ?thesis using up [of True]
      by (auto simp: on_upgrade_def websocket_upgrade_def intro: on_throw_so_far so_far_returned)
  next
    case False
    show ?thesis
    proof (cases "find_route (e_iequals env) (e_search env) (rq_method q) (rq_target q) (e_ws_routes env)")
      case (Inl x)
      then have "loop0 env q0 (evs @ [Read_ok q rest alive True None]) = (acts, Returned)"
        using False up [of True] by (cases x) (simp add: websocket_upgrade_def)
      then show ?thesis using False Inl by (cases x) (simp add: on_upgrade_def so_far_returned)
    next
      case (Inr x)
      then obtain route args where x: "find_route (e_iequals env) (e_search env) (rq_method q) (rq_target q) (e_ws_routes env) =
          Inr (route, args)" by (cases x) simp
      have "loop0 env q0 (evs @ [Read_ok q rest True ok None]) = (acts @ (if ok then [Ws_handler (snd (snd route)) args] else []), Returned)"
        for ok using False up [of ok] x by (simp add: websocket_upgrade_def)
      then have "so_far env q0 (P_ws_accept (snd (snd route)) args) acts" unfolding so_far.simps by blast
      then show ?thesis using False x by (simp add: on_upgrade_def)
    qed
  qed
qed

lemma on_request_so_far:
  assumes loop: "\<And>evs'. loop0 env q0 (evs @ evs') = continue acts (conn_loop env safe r evs')"
  shows "so_far env q0 (on_request env q rest alive r) acts"
proof (cases "rq_upgrade q")
  case True
  then show ?thesis using on_upgrade_so_far [OF loop True] by (simp add: on_request_def Let_def)
next
  case False
  define r2 where "r2 = dispatch_request env alive (prepare_response env (r\<lparr>beast_request := q, buffer := rest\<rparr>))"
  show ?thesis
  proof (cases "manual_response r2")
    case True
    then have "loop0 env q0 (evs @ [Read_ok q rest alive False None]) = (acts, Broke)"
      using loop [of "[Read_ok q rest alive False None]"] False by (simp add: r2_def Let_def)
    from loop0_task(1) [OF this] True False show ?thesis by (auto simp: on_request_def Let_def r2_def)
  next
    case False
    let ?res = "e_prepare_payload env (beast_response r2)"
    have "loop0 env q0 (evs @ Read_ok q rest alive ok w # evs') = after_write env acts r2 ?res w evs'" for ok w evs'
      using loop [of "Read_ok q rest alive ok w # evs'"] False \<open>\<not> rq_upgrade q\<close>
      by (cases w) (auto simp: r2_def Let_def continue_def split: prod.split)
    then have "so_far env q0 (P_write r2 ?res) acts" unfolding so_far.simps by blast
    then show ?thesis using False \<open>\<not> rq_upgrade q\<close> by (simp add: on_request_def r2_def Let_def)
  qed
qed

lemma so_far_start: "so_far env q0 (P_end True) []" "so_far env q0 (P_end False) []"
proof -
  have "conn_task env (Some e) None q0 None [] = ([], False, True)" "conn_task env None (Some e) q0 None [] = ([], False, False)" for e
    by (simp_all add: conn_task_def)
  then show "so_far env q0 (P_end True) []" "so_far env q0 (P_end False) []" unfolding so_far.simps(9) by blast+
qed

text \<open>What is known of a fiber that waits for a request, for a write, or for the websocket handshake.\<close>

lemma so_far_readE:
  assumes "so_far env q0 (P_read r safe) acts"
  obtains evs where "\<And>evs'. loop0 env q0 (evs @ evs') = continue acts (conn_loop env safe r evs')"
  using assms by auto

lemma so_far_writeE:
  assumes "so_far env q0 (P_write r res) acts"
  obtains evs q rest alive ok where
    "\<And>w evs'. loop0 env q0 (evs @ Read_ok q rest alive ok w # evs') = after_write env acts r res w evs'"
  using assms unfolding so_far.simps by blast

lemma so_far_acceptE:
  assumes "so_far env q0 (P_ws_accept h args) acts"
  obtains evs q rest where
    "\<And>ok. loop0 env q0 (evs @ [Read_ok q rest True ok None]) = (acts @ (if ok then [Ws_handler h args] else []), Returned)"
  using assms unfolding so_far.simps by blast

text \<open>A write that succeeds.\<close>

lemma so_far_written:
  assumes "so_far env q0 (P_write r res) acts"
  shows "so_far env q0 (if e_need_eof env res then P_shutdown else next_request env r) (acts @ [Sent res])"
proof -
  from assms obtain evs q rest alive ok where
    loop: "\<And>w evs'. loop0 env q0 (evs @ Read_ok q rest alive ok w # evs') = after_write env acts r res w evs'"
    by (rule so_far_writeE) blast
  show ?thesis
  proof (cases "e_need_eof env res")
    case True
    then show ?thesis using loop0_task(1) [of env q0 "evs @ [Read_ok q rest alive ok None]"] loop [of None "[]"] by auto
  next
    case False
    then have "loop0 env q0 ((evs @ [Read_ok q rest alive ok None]) @ evs') = continue (acts @ [Sent res])
        (conn_loop env True (r\<lparr>beast_response := e_fresh env, manual_response := False\<rparr>) evs')" for evs'
      using loop [of None evs'] by simp
    then have "so_far env q0 (next_request env r) (acts @ [Sent res])" unfolding next_request_def so_far.simps by blast
    then show ?thesis using False by simp
  qed
qed

text \<open>Every step of the fiber is accounted for by the loop.\<close>

lemma so_far_step:
  assumes "so_far env q0 pc acts"
  shows "so_far env q0 (fst (fiber_step env q0 w pc)) (acts @ snd (fiber_step env q0 w pc))"
proof (cases "(env, q0, w, pc)" rule: fiber_step.cases)
  case (3 env q0)
  then show ?thesis using assms by (auto simp: loop0_def intro!: exI [of _ "[]"])
next
  case (5 env q0 q rest alive r safe)
  with assms have "so_far env q0 (P_read r safe) acts" by simp
  then obtain evs where "\<And>evs'. loop0 env q0 (evs @ evs') = continue acts (conn_loop env safe r evs')" by (rule so_far_readE) blast
  with 5 show ?thesis using on_request_so_far [of env q0 evs acts safe r] by simp
next
  case (6 env q0 e r safe)
  with assms have "so_far env q0 (P_read r safe) acts" by simp
  then obtain evs where "\<And>evs'. loop0 env q0 (evs @ evs') = continue acts (conn_loop env safe r evs')" by (rule so_far_readE) blast
  from this [of "[Read_fail e]"] 6 show ?thesis by (auto intro: on_throw_so_far)
next
  case (7 env q0 r res)
  with assms so_far_written [of env q0 r res acts] show ?thesis by simp
next
  case (8 env q0 e r res)
  with assms have "so_far env q0 (P_write r res) acts" by simp
  then obtain evs q rest alive ok where
    "\<And>w evs'. loop0 env q0 (evs @ Read_ok q rest alive ok w # evs') = after_write env acts r res w evs'" by (rule so_far_writeE) blast
  from this [of "Some e" "[]"] 8 show ?thesis by (auto intro: on_throw_so_far)
next
  case (9 env q0 h args)
  with assms have "so_far env q0 (P_ws_accept h args) acts" by simp
  then obtain evs q rest where
    "\<And>ok. loop0 env q0 (evs @ [Read_ok q rest True ok None]) = (acts @ (if ok then [Ws_handler h args] else []), Returned)"
    by (rule so_far_acceptE) blast
  from this [of True] 9 show ?thesis by auto
next
  case (10 env q0 e h args)
  with assms have "so_far env q0 (P_ws_accept h args) acts" by simp
  then obtain evs q rest where
    "\<And>ok. loop0 env q0 (evs @ [Read_ok q rest True ok None]) = (acts @ (if ok then [Ws_handler h args] else []), Returned)"
    by (rule so_far_acceptE) blast
  from this [of False] 10 show ?thesis by (auto intro: so_far_returned)
next
  case (13 env q0 res)
  with assms obtain evs e safe where "loop0 env q0 evs = (acts, Threw e safe)" "exn_class e \<le> Overflow_error"
    "res = too_large_response env (exn_what e)" by auto
  with 13 loop0_task(3) [of env q0 evs acts e safe None] show ?thesis by auto
next
  case (14 env q0 e' res)
  with assms obtain evs e safe where "loop0 env q0 evs = (acts, Threw e safe)" "exn_class e \<le> Overflow_error" by auto
  with loop0_task(3) [of env q0 evs acts e safe "Some e'"] have "so_far env q0 (P_end False) acts" by (auto intro: so_far_endI)
  with 14 show ?thesis by simp
qed (use assms so_far_start in \<open>auto intro: so_far_returned so_far_shutdown simp del: so_far.simps(8)\<close>)

lemma so_far_run:
  "so_far env q0 pc acts \<Longrightarrow> so_far env q0 (fst (fiber_run env q0 ws pc)) (acts @ snd (fiber_run env q0 ws pc))"
proof (induction ws arbitrary: pc acts)
  case (Cons w ws)
  from Cons.IH [OF so_far_step [OF Cons.prems, of w]] show ?case by (simp add: case_prod_beta)
qed simp

lemma fiber_run_append:
  "fiber_run env q0 (ws @ ws') pc =
     (case fiber_run env q0 ws pc of (pc1, a) \<Rightarrow> case fiber_run env q0 ws' pc1 of (pc2, a') \<Rightarrow> (pc2, a @ a'))"
  by (induction ws arbitrary: pc) (simp_all add: case_prod_beta)

text \<open>Where the fiber is when the loop has ended.\<close>

fun end_pc :: "'r conn_env \<Rightarrow> conn_end \<Rightarrow> fiber_pc" where
  "end_pc env Broke = P_shutdown"
| "end_pc env Returned = P_end False"
| "end_pc env (Threw e safe) = on_throw env e safe"
| "end_pc env Waiting = P_end False"

lemma upgrade_realised:
  assumes "websocket_upgrade env alive ok r = (acts, en)"
  shows "\<exists>ws. fiber_run env q0 ws (on_upgrade env alive r) = (end_pc env en, acts)"
proof -
  have "\<exists>ws. fiber_run env q0 ws (P_ws_accept h args) = (P_end False, if ok then [Ws_handler h args] else [])" for h args
    by (rule exI [of _ "if ok then [Done, Done] else [Failed undefined]"]) simp
  moreover have "\<exists>ws. fiber_run env q0 ws pc = (pc, [])" for pc by (rule exI [of _ "[]"]) simp
  ultimately show ?thesis using assms
    by (auto simp: websocket_upgrade_def on_upgrade_def split: if_splits sum.splits route_error.splits)
qed

lemma loop_realised:
  "conn_loop env safe r evs = (acts, en) \<Longrightarrow> en \<noteq> Waiting \<Longrightarrow>
     \<exists>ws. fiber_run env q0 ws (P_read r safe) = (end_pc env en, acts)"
proof (induction env safe r evs arbitrary: acts rule: conn_loop.induct)
  case (2 env safe r e evs)
  then show ?case by (intro exI [of _ "[Failed e]"]) auto
next
  case (3 env safe r q rest alive ok wr evs)
  define r1 where "r1 = r\<lparr>beast_request := q, buffer := rest\<rparr>"
  define r2 where "r2 = dispatch_request env alive (prepare_response env r1)"
  define res where "res = e_prepare_payload env (beast_response r2)"
  consider (up) "rq_upgrade q" | (manual) "\<not> rq_upgrade q" "manual_response r2"
    | (fail) e where "\<not> rq_upgrade q" "\<not> manual_response r2" "wr = Some e"
    | (last) "\<not> rq_upgrade q" "\<not> manual_response r2" "wr = None" "e_need_eof env res"
    | (again) "\<not> rq_upgrade q" "\<not> manual_response r2" "wr = None" "\<not> e_need_eof env res"
    by (cases wr) auto
  then show ?case
  proof cases
    case up
    with 3 have "websocket_upgrade env alive ok r1 = (acts, en)" by (simp add: r1_def Let_def)
    from upgrade_realised [OF this, of q0] obtain ws where "fiber_run env q0 ws (on_upgrade env alive r1) = (end_pc env en, acts)" by blast
    with up show ?thesis by (intro exI [of _ "Got q rest alive # ws"]) (simp add: on_request_def r1_def Let_def)
  next
    case manual
    with 3 show ?thesis
      by (intro exI [of _ "[Got q rest alive]"]) (simp add: on_request_def r1_def r2_def Let_def)
  next
    case (fail e)
    with 3 show ?thesis
      by (intro exI [of _ "[Got q rest alive, Failed e]"]) (auto simp: on_request_def r1_def r2_def Let_def)
  next
    case last
    with 3 show ?thesis
      by (intro exI [of _ "[Got q rest alive, Done]"]) (simp add: on_request_def r1_def r2_def res_def Let_def)
  next
    case again
    let ?r3 = "r2\<lparr>beast_response := e_fresh env, manual_response := False\<rparr>"
    from again 3(2) obtain acts' where a: "conn_loop env True ?r3 evs = (acts', en)" "acts = Sent res # acts'"
      by (auto simp: r1_def r2_def res_def Let_def split: prod.splits)
    have "\<exists>ws. fiber_run env q0 ws (P_read ?r3 True) = (end_pc env en, acts')"
      using 3(1) [OF r1_def _ r2_def _ res_def] again a(1) 3(3) by simp
    then obtain ws where "fiber_run env q0 ws (P_read ?r3 True) = (end_pc env en, acts')" by blast
    with again a(2) show ?thesis
      by (intro exI [of _ "Got q rest alive # Done # ws"]) (simp add: on_request_def next_request_def r1_def r2_def res_def Let_def)
  qed
qed simp

lemma end_realised:
  assumes l: "loop0 env q0 evs = (acts', en)" and "en \<noteq> Waiting" and "conn_task env None None q0 fw evs = (acts, shut, warned)"
  shows "\<exists>ws'. fiber_run env q0 ws' (end_pc env en) = (P_end warned, drop (length acts') acts) \<and> take (length acts') acts = acts'"
proof (cases en)
  case Broke
  with assms loop0_task(1) [of env q0 evs acts' fw] show ?thesis by (intro exI [of _ "[Done]"]) auto
next
  case Returned
  with assms loop0_task(2) [of env q0 evs acts' fw] show ?thesis by (intro exI [of _ "[]"]) auto
next
  case (Threw e safe)
  show ?thesis
  proof (cases "exn_class e \<le> Overflow_error")
    case True
    with assms Threw loop0_task(3) [of env q0 evs acts' e safe fw] show ?thesis
      by (intro exI [of _ "case fw of None \<Rightarrow> [Done, Done] | Some e' \<Rightarrow> [Failed e']"]) (auto simp: on_throw_def split: option.splits)
  next
    case False
    with assms Threw loop0_task(3) [of env q0 evs acts' e safe fw] show ?thesis
      by (intro exI [of _ "[]"]) (auto simp: on_throw_def split: if_splits)
  qed
qed (use assms in simp)

text \<open>The wake-ups before the loop, for what happened there, and after it.\<close>

lemma task_realised:
  assumes "conn_task env opt hs q0 fw evs = (acts, shut, warned)"
    and "opt = None \<and> hs = None \<longrightarrow> snd (loop0 env q0 evs) \<noteq> Waiting"
  shows "\<exists>ws. fiber_run env q0 ws P_start = (P_end warned, acts)"
proof -
  consider (opt) e where "opt = Some e" | (hs) e where "opt = None" "hs = Some e" | (loop) "opt = None" "hs = None"
    by (cases opt; cases hs) auto
  then show ?thesis
  proof cases
    case (opt e)
    with assms(1) show ?thesis by (intro exI [of _ "[Failed e]"]) (simp add: conn_task_def)
  next
    case (hs e)
    with assms(1) show ?thesis by (intro exI [of _ "[Done, Failed e]"]) (simp add: conn_task_def)
  next
    case loop
    obtain acts' en where l: "loop0 env q0 evs = (acts', en)" by (cases "loop0 env q0 evs")
    with loop assms(2) have "en \<noteq> Waiting" by simp
    from loop_realised [OF l [unfolded loop0_def] this, of q0] obtain ws where
      ws: "fiber_run env q0 ws (P_read (acquire_request env q0) False) = (end_pc env en, acts')" by blast
    obtain ws' where "fiber_run env q0 ws' (end_pc env en) = (P_end warned, drop (length acts') acts)" "take (length acts') acts = acts'"
      using end_realised [OF l] assms(1) loop \<open>en \<noteq> Waiting\<close> by metis
    with ws have "fiber_run env q0 (Done # Done # ws @ ws') P_start = (P_end warned, acts)"
      by (simp add: fiber_run_append) (metis append_take_drop_id)
    then show ?thesis by blast
  qed
qed

text \<open>Wherever the fiber waits, what it has sent is what some run of the whole task sends.\<close>

lemma so_far_task:
  assumes "so_far env q0 pc acts"
  shows "\<exists>opt hs fw evs. fst (conn_task env opt hs q0 fw evs) = acts"
proof -
  have loop: ?thesis if "loop0 env q0 evs = (acts, en)" "en = Waiting \<or> en = Returned" for evs en
    using that by (intro exI [of _ None] exI [of _ evs]) (auto simp: conn_task_def loop0_def)
  have throw: ?thesis if "loop0 env q0 evs = (acts, Threw e safe)" for evs e safe
    using loop0_task(3) [OF that, of "Some e"] by (intro exI [of _ None] exI [of _ "Some e"] exI [of _ evs]) simp
  have start: ?thesis if "acts = []"
    using that by (intro exI [of _ "Some undefined"]) (simp add: conn_task_def)
  show ?thesis
  proof (cases pc)
    case (P_read r safe)
    with assms so_far_readE [of env q0 r safe acts] obtain evs where
      "\<And>evs'. loop0 env q0 (evs @ evs') = continue acts (conn_loop env safe r evs')" by blast
    from this [of "[]"] show ?thesis by (auto intro: loop)
  next
    case (P_write r res)
    with assms so_far_writeE [of env q0 r res acts] obtain evs q rest alive ok where
      "\<And>w evs'. loop0 env q0 (evs @ Read_ok q rest alive ok w # evs') = after_write env acts r res w evs'" by blast
    from this [of "Some undefined" "[]"] show ?thesis by (auto intro: throw)
  next
    case (P_ws_accept h args)
    with assms so_far_acceptE [of env q0 h args acts] obtain evs q rest where
      "\<And>ok. loop0 env q0 (evs @ [Read_ok q rest True ok None]) = (acts @ (if ok then [Ws_handler h args] else []), Returned)" by blast
    from this [of False] show ?thesis by (auto intro: loop)
  next
    case P_shutdown
    with assms show ?thesis by (metis fst_conv so_far.simps(8))
  next
    case (P_end warned)
    with assms show ?thesis by (metis fst_conv so_far.simps(9))
  qed (use assms start loop throw in auto)
qed

section \<open>Properties\<close>



end
