(* ===== verification/Ws_Session.thy ===== *)
theory Ws_Session
  imports Ws_Client Conn_Fiber
begin

text \<open>
  A websocket from the client's call to the server's handler: \<open>make_websocket_connection\<close> (\<open>src/http_websocket.cpp\<close>) against the
  connection fiber of the library's server (\<open>http_connection::start\<close> in \<open>include/libasyik/http.hpp\<close>), and the messages between
  the two. Beast carries out the handshake on both sides; what it documents of it are the hypotheses.
\<close>

section \<open>The handshake between the two ends\<close>

text \<open>
  The request that a server parses when a client starts a handshake for a host and a target: an upgrade by \<open>GET\<close>.
\<close>

record ws_wire =
  ww_request :: "string \<Rightarrow> string \<Rightarrow> http_req"

definition faithful_upgrade :: "ws_wire \<Rightarrow> bool" where
  "faithful_upgrade ww \<longleftrightarrow> (\<forall>h p. rq_method (ww_request ww h p) = ''GET'' \<and> rq_target (ww_request ww h p) = p \<and>
     rq_upgrade (ww_request ww h p))"

text \<open>What the server's fiber does with the request, when the client sends nothing else before it is answered.\<close>

definition upgrade_actions :: "'r conn_env \<Rightarrow> http_req \<Rightarrow> http_req \<Rightarrow> action list" where
  "upgrade_actions env q0 q = fst (conn_task env None None q0 None [Read_ok q [] True True None])"

fun accepts :: "action \<Rightarrow> bool" where
  "accepts (Ws_handler h args) = True"
| "accepts (Sent res) = False"

text \<open>The handshake of the client succeeds if and only if the server accepted it.\<close>

definition served_by :: "ws_beast \<Rightarrow> ws_wire \<Rightarrow> 'r conn_env \<Rightarrow> http_req \<Rightarrow> bool" where
  "served_by be ww env q0 \<longleftrightarrow>
     (\<forall>h p. wb_handshake be h p = None \<longleftrightarrow> list_ex accepts (upgrade_actions env q0 (ww_request ww h p)))"

section \<open>Lemmas\<close>

lemma upgrade_actions_route:
  assumes "faithful_upgrade ww"
  shows "upgrade_actions env q0 (ww_request ww h p) =
    (case find_route (e_iequals env) (e_search env) ''GET'' p (e_ws_routes env) of
       Inl _ \<Rightarrow> [] | Inr (route, args) \<Rightarrow> [Ws_handler (snd (snd route)) args])"
  using assms
  by (auto simp: upgrade_actions_def conn_task_def websocket_upgrade_def faithful_upgrade_def Let_def
      split: sum.split prod.split route_error.split)

lemma await_in_time: "t_now t + k \<le> t_expiry t \<Longrightarrow> await (Some k) False (Some x) t = (x, elapse k t)"
  by (simp add: await_def)

text \<open>Steps that end in time: the outcome is that of the handshake.\<close>

lemma open_websocket_in_time:
  assumes "wt_resolve wt = Some k" and "co_resolve co (host sch) (dec_nat (unat (port sch))) = None"
    and "wt_open wt = Some a" and "a \<le> 1000 * timeout"
    and "fst (open_stream os co msg (int timeout) tls_ctx own d sch) = Inr conn"
    and "wt_shake wt = Some b" and "b \<le> 1000 * nat (handshake_timeout (wb_suggested be))"
  shows "case wb_handshake be (fst (ws_handshake_args sch)) (snd (ws_handshake_args sch)) of
      Some e \<Rightarrow> fst (open_websocket os co msg be wt tls_ctx own d sch timeout t) = Some (Inl e)
    | None \<Rightarrow> \<exists>ws. fst (open_websocket os co msg be wt tls_ctx own d sch timeout t) = Some (Inr ws)"
proof -
  have "t_now (expires_after m u) + j \<le> t_expiry (expires_after m u) \<longleftrightarrow> j \<le> m" for m j u
    by (simp add: expires_after_def)
  then show ?thesis
    using assms
    by (auto simp: open_websocket_def await_in_time websocket_ctor_def Let_def case_prod_beta split: option.split)
qed

section \<open>Properties\<close>


text \<open>A server with one websocket route and a client of it, for the example.\<close>

definition demo_ws_env :: "unit conn_env" where
  "demo_ws_env = demo_env\<lparr>e_ws_routes := empty_table\<lparr>exact_routes := [(''/chat'', [([], (), 7)])]\<rparr>\<rparr>"

definition demo_ws_wire :: ws_wire where
  "demo_ws_wire = \<lparr>ww_request = (\<lambda>h p. \<lparr>rq_method = ''GET'', rq_target = p, rq_headers = [(''Host'', h)], rq_body = [],
     rq_keep_alive = True, rq_upgrade = True\<rparr>)\<rparr>"

definition demo_ws_beast :: ws_beast where
  "demo_ws_beast = demo_beast\<lparr>wb_handshake := (\<lambda>h p.
     if list_ex accepts (upgrade_actions demo_ws_env (demo_req []) (ww_request demo_ws_wire h p)) then None
     else Some (make_error System_error Ec_end_of_stream []))\<rparr>"

definition demo_ws_uri :: "string \<Rightarrow> url_view option" where
  "demo_ws_uri u = Some \<lparr>u_scheme = Sch_http, u_host = ''h'', u_encoded_host = ''h'', u_port = 0, u_user = [], u_password = [],
     u_resource = ''/chat''\<rparr>"


end
