(* ===== verification/End_To_End.thy ===== *)
theory End_To_End
  imports Http_Client Http_Connection
begin

text \<open>
  The library's client talking to the library's server: \<open>http_easy_request\<close> on a connection whose other end is the fiber of
  \<open>http_connection::start\<close> (both in \<open>include/libasyik/http.hpp\<close>). Beast writes and parses the messages on both sides; what it
  documents is the hypothesis that a parsed message is the one written.
\<close>

section \<open>The wire\<close>

text \<open>
  The request a server parses from what a client wrote, the bytes of a response, and the content type it announces.
\<close>

record wire =
  w_request :: "client_request \<Rightarrow> http_req"
  w_response :: "http_res \<Rightarrow> string"
  w_content_type :: "http_res \<Rightarrow> string option"

definition faithful_requests :: "wire \<Rightarrow> bool" where
  "faithful_requests wi \<longleftrightarrow> (\<forall>req. rq_method (w_request wi req) = cr_method req \<and> rq_target (w_request wi req) = cr_target req \<and>
     rq_headers (w_request wi req) = cr_headers req \<and> rq_body (w_request wi req) = cr_body req)"

definition faithful_responses :: "net \<Rightarrow> wire \<Rightarrow> bool" where
  "faithful_responses net wi \<longleftrightarrow> (\<forall>res st. reads_ok st \<and> whole st = w_response wi res \<longrightarrow>
     (\<exists>h st1 st2. n_read_header net st = Some (Inr (h, st1)) \<and> h_status h = rs_status res \<and> h_content_type h = w_content_type wi res \<and>
        n_read_body net h st1 = Some (Inr (\<lparr>rp_head = h, rp_body = rs_body res\<rparr>, st2))))"

text \<open>The server's responses to a request that is all the client sends.\<close>

fun responses :: "action list \<Rightarrow> http_res list" where
  "responses [] = []"
| "responses (Sent res # acts) = res # responses acts"
| "responses (Ws_handler h args # acts) = responses acts"

definition server_responses :: "'r conn_env \<Rightarrow> http_req \<Rightarrow> http_req \<Rightarrow> http_res list" where
  "server_responses env q0 q = responses (fst (conn_task env None None q0 None [Read_ok q [] True True None]))"

text \<open>Every connection of the client leads to the server, in whatever pieces the bytes arrive.\<close>

definition connected :: "net \<Rightarrow> wire \<Rightarrow> 'r conn_env \<Rightarrow> http_req \<Rightarrow> bool" where
  "connected net wi env q0 \<longleftrightarrow> (\<forall>n sch req st. n_open net n sch req = Inr st \<longrightarrow>
     reads_ok st \<and> whole st = concat (map (w_response wi) (server_responses env q0 (w_request wi req))))"

section \<open>Lemmas\<close>

text \<open>The response that a callback is given.\<close>

definition initial_response :: "'r conn_env \<Rightarrow> http_req \<Rightarrow> http_res" where
  "initial_response env q = beast_response (prepare_response env (acquire_request env q))"

lemma callback_answer:
  assumes "find_route (e_iequals env) (e_search env) (rq_method q) (rq_target q) (e_http_routes env) = Inr (route, args)"
    and "snd (snd route) q (initial_response env q) args = ((q', p', False), None)"
  shows "\<not> manual_response (handled_request env q True)" and "beast_response (handled_request env q True) = p'"
  using assms by (simp_all add: handled_request_def dispatch_request_def initial_response_def prepare_response_def acquire_request_def Let_def)

lemma one_response:
  assumes "find_route (e_iequals env) (e_search env) (rq_method q) (rq_target q) (e_http_routes env) = Inr (route, args)"
    and "snd (snd route) q (initial_response env q) args = ((q', p', False), None)" and "\<not> rq_upgrade q"
  shows "server_responses env q0 q = [e_prepare_payload env p']"
proof -
  have "fresh_request env (acquire_request env q0)" by (simp add: fresh_request_def acquire_request_def)
  note loop = conn_loop_request [OF this, of False q "[]" True True None "[]"]
  show ?thesis
    using callback_answer [OF assms(1,2)] assms(3)
    by (auto simp: server_responses_def conn_task_def loop answer_def simp del: conn_loop.simps) (auto split: prod.splits)
qed

lemma plain_exchange:
  assumes "faithful_responses net wi" and "reads_ok st" and "whole st = w_response wi res"
    and "\<not> (rs_status res = 401 \<and> username sch \<noteq> [] \<and> password sch \<noteq> [])"
    and "\<not> (case w_content_type wi res of Some t \<Rightarrow> contains_str ''multipart'' t | None \<Rightarrow> False)"
  shows "\<exists>h. h_status h = rs_status res \<and>
    (\<forall>f try_auth. handle_client_request_response net f fuel n count0 sch req try_auth st = ([], Ok \<lparr>rp_head = h, rp_body = rs_body res\<rparr>))"
proof -
  obtain h st1 st2 where "n_read_header net st = Some (Inr (h, st1))" "h_status h = rs_status res" "h_content_type h = w_content_type wi res"
    "n_read_body net h st1 = Some (Inr (\<lparr>rp_head = h, rp_body = rs_body res\<rparr>, st2))"
    using assms(1-3) unfolding faithful_responses_def by blast
  then show ?thesis using assms(4,5) by (auto simp: handle_client_request_response_def)
qed

section \<open>An example\<close>

text \<open>A wire on which a response is its status in unary and its body, between the example server and a client.\<close>

definition demo_wire :: wire where
  "demo_wire = \<lparr>w_request = (\<lambda>r. \<lparr>rq_method = cr_method r, rq_target = cr_target r, rq_headers = cr_headers r, rq_body = cr_body r,
       rq_keep_alive = True, rq_upgrade = False\<rparr>),
     w_response = (\<lambda>res. replicate (rs_status res) CHR ''1'' @ CHR '':'' # rs_body res), w_content_type = (\<lambda>_. None)\<rparr>"

definition demo_client :: net where
  "demo_client = demo_net\<lparr>
     n_parse_uri := (\<lambda>u. Some \<lparr>u_scheme = Sch_http, u_host = ''h'', u_encoded_host = ''h'', u_port = 0, u_user = [], u_password = [], u_resource = u\<rparr>),
     n_read_header := (\<lambda>st. Some (Inr (\<lparr>h_status = length (takeWhile (\<lambda>c. c = CHR ''1'') (whole st)), h_content_type = None,
       h_www_authenticate = [], h_content_length = None\<rparr>, st))),
     n_read_body := (\<lambda>h st. Some (Inr (\<lparr>rp_head = h, rp_body = tl (dropWhile (\<lambda>c. c = CHR ''1'') (whole st))\<rparr>, st))),
     n_open := (\<lambda>n sch req. Inr \<lparr>buf = [],
       incoming = [Inr (concat (map (w_response demo_wire) (server_responses demo_env (demo_req []) (w_request demo_wire req))))]\<rparr>)\<rparr>"

lemma demo_wire_faithful: "faithful_requests demo_wire" "faithful_responses demo_client demo_wire" "connected demo_client demo_wire demo_env (demo_req [])"
proof -
  show "faithful_requests demo_wire" by (simp add: faithful_requests_def demo_wire_def)
  show "faithful_responses demo_client demo_wire"
    by (auto simp: faithful_responses_def demo_client_def demo_wire_def takeWhile_append dropWhile_append)
  show "connected demo_client demo_wire demo_env (demo_req [])"
    by (simp add: connected_def demo_client_def reads_ok_def whole_def)
qed

section \<open>Properties\<close>



end
