(* ===== verification/Digest_Exchange.thy ===== *)
theory Digest_Exchange
  imports End_To_End
begin

text \<open>
  A digest challenge between the library's client and a handler of the library's server: the request of \<open>End_To_End\<close> whose handler first
  asks for credentials (\<open>handle_client_auth\<close> and \<open>http_easy_request_multipart\<close> in \<open>include/libasyik/http.hpp\<close>).
\<close>

section \<open>The challenge on the wire\<close>

text \<open>The challenge that a client reads is the one in the response, \<open>ch\<close> of it.\<close>

definition faithful_challenges :: "net \<Rightarrow> wire \<Rightarrow> (http_res \<Rightarrow> string) \<Rightarrow> bool" where
  "faithful_challenges net wi ch \<longleftrightarrow>
     (\<forall>res st h st1. reads_ok st \<and> whole st = w_response wi res \<and> n_read_header net st = Some (Inr (h, st1)) \<longrightarrow>
        h_www_authenticate h = ch res)"

text \<open>The names of header fields that the client adds after the authorization do not hide it.\<close>

definition keeps_authorization :: "(string \<Rightarrow> string \<Rightarrow> bool) \<Rightarrow> (string \<times> string) list \<Rightarrow> bool" where
  "keeps_authorization ieq headers \<longleftrightarrow>
     (\<forall>k \<in> insert ''Content-Type'' (insert ''Connection'' (fst ` set headers)). \<not> ieq ''Authorization'' k)"

section \<open>Lemmas\<close>

lemma set_field_keeps: "(k, v) \<in> set hs \<Longrightarrow> \<not> ieq k name \<Longrightarrow> (k, v) \<in> set (set_field ieq name w hs)"
  by (simp add: set_field_def)

lemma fold_fields_keep:
  "(k, v) \<in> set hs \<Longrightarrow> \<forall>name \<in> fst ` set xs. \<not> ieq k name \<Longrightarrow> (k, v) \<in> set (foldl (\<lambda>hs (k, v). set_field ieq k v hs) hs xs)"
  by (induction xs arbitrary: hs) (auto simp: set_field_keeps)

lemma authorization_sent:
  assumes "keeps_authorization ieq headers"
  shows "(''Authorization'', a) \<in> set (cr_headers (build_request ieq version sch (Some a) meth data headers))"
proof -
  have "(''Authorization'', a) \<in> set (set_field ieq ''Authorization'' a hs)" for hs by (simp add: set_field_def)
  note fold_fields_keep [OF this]
  then show ?thesis
    using assms by (auto simp: build_request_def Let_def keeps_authorization_def intro!: set_field_keeps)
qed

text \<open>A response with status 401 and a challenge that can be answered.\<close>

lemma challenge_exchange:
  assumes "faithful_responses net wi" and "faithful_challenges net wi ch" and "reads_ok st" and "whole st = w_response wi res"
    and "rs_status res = 401" and "username sch \<noteq> []" and "password sch \<noteq> []" and "n_write net n = None"
    and "generateAuthorization (n_digest net) (n_cnonce net n) count0
      \<lparr>m_authenticate = ch res, m_username = username sch, m_password = password sch, m_uri = target sch, m_method = cr_method req,
       m_body = rs_body res\<rparr> = Some (Some a, c')"
  shows "handle_client_request_response net f fuel n count0 sch req True st = ([], Challenge a)"
proof -
  obtain h st1 st2 where h: "n_read_header net st = Some (Inr (h, st1))" "h_status h = rs_status res"
    "n_read_body net h st1 = Some (Inr (\<lparr>rp_head = h, rp_body = rs_body res\<rparr>, st2))"
    using assms(1,3,4) unfolding faithful_responses_def by blast
  then have "h_www_authenticate h = ch res" using assms(2-4) unfolding faithful_challenges_def by blast
  then show ?thesis using h assms(5-9) by (simp add: handle_client_request_response_def handle_client_auth_def)
qed

section \<open>Properties\<close>


text \<open>A server that asks for credentials, and a client that has some.\<close>

definition demo_guarded :: "unit conn_env" where
  "demo_guarded = demo_env\<lparr>e_http_routes := empty_table\<lparr>exact_routes := [(''/a'', [([], (), \<lambda>q p args.
     ((q, if list_ex (\<lambda>h. fst h = ''Authorization'') (rq_headers q) then p\<lparr>rs_body := ''hi''\<rparr> else p\<lparr>rs_status := 401\<rparr>, False), None))])]\<rparr>\<rparr>"

definition demo_credentials :: net where
  "demo_credentials = demo_client\<lparr>
     n_parse_uri := (\<lambda>u. Some \<lparr>u_scheme = Sch_http, u_host = ''h'', u_encoded_host = ''h'', u_port = 0, u_user = ''u'', u_password = ''p'', u_resource = u\<rparr>),
     n_read_header := (\<lambda>st. Some (Inr (\<lparr>h_status = length (takeWhile (\<lambda>c. c = CHR ''1'') (whole st)), h_content_type = None,
       h_www_authenticate = ''Digest realm=r, nonce=n'', h_content_length = None\<rparr>, st))),
     n_open := (\<lambda>n sch req. Inr \<lparr>buf = [],
       incoming = [Inr (concat (map (w_response demo_wire) (server_responses demo_guarded (demo_req []) (w_request demo_wire req))))]\<rparr>)\<rparr>"

lemma demo_credentials_faithful:
  "faithful_responses demo_credentials demo_wire" "faithful_challenges demo_credentials demo_wire (\<lambda>_. ''Digest realm=r, nonce=n'')"
  "connected demo_credentials demo_wire demo_guarded (demo_req [])" "beast_laws demo_guarded"
  "keeps_authorization (n_ieq demo_credentials) []"
proof -
  show "faithful_responses demo_credentials demo_wire"
    by (auto simp: faithful_responses_def demo_credentials_def demo_client_def demo_wire_def takeWhile_append dropWhile_append)
  show "faithful_challenges demo_credentials demo_wire (\<lambda>_. ''Digest realm=r, nonce=n'')"
    by (auto simp: faithful_challenges_def demo_credentials_def)
  show "connected demo_credentials demo_wire demo_guarded (demo_req [])"
    by (simp add: connected_def demo_credentials_def reads_ok_def whole_def)
  show "beast_laws demo_guarded" using demo_laws by (simp add: beast_laws_def demo_guarded_def)
  show "keeps_authorization (n_ieq demo_credentials) []"
    by (simp add: keeps_authorization_def demo_credentials_def demo_client_def demo_net_def)
qed


end
