(* ===== verification/Scheduler.thy ===== *)
theory Scheduler
  imports Errors
begin

text \<open>
  The round-robin fiber scheduler with stop support (\<open>include/libasyik/asyik_round_robin.hpp\<close>).
  Fibers are numbers; the mutex makes \<open>notify\<close> one step.
\<close>

record sched =
  rqueue :: "nat list"
  flag :: bool
  sched_stopped :: bool

definition sched_init :: sched where
  "sched_init = \<lparr>rqueue = [], flag = False, sched_stopped = False\<rparr>"

definition awakened :: "nat \<Rightarrow> sched \<Rightarrow> sched" where
  "awakened ctx s = s\<lparr>rqueue := rqueue s @ [ctx]\<rparr>"

definition pick_next :: "sched \<Rightarrow> nat option \<times> sched" where
  "pick_next s = (case rqueue s of [] \<Rightarrow> (None, s) | victim # q \<Rightarrow> (Some victim, s\<lparr>rqueue := q\<rparr>))"

definition has_ready_fibers :: "sched \<Rightarrow> bool" where
  "has_ready_fibers s \<longleftrightarrow> rqueue s \<noteq> []"

text \<open>
  \<open>suspend_until\<close>: \<open>None\<close> as time point is \<open>time_point::max\<close>. The result is \<open>None\<close> while the call
  has to wait at time \<open>now\<close>.
\<close>

definition suspend_until :: "int option \<Rightarrow> int \<Rightarrow> sched \<Rightarrow> sched option" where
  "suspend_until time_point now s =
     (case time_point of
        None \<Rightarrow> if flag s then Some (s\<lparr>flag := False\<rparr>) else None
      | Some t \<Rightarrow> if flag s \<or> t \<le> now then Some (s\<lparr>flag := False\<rparr>) else None)"

definition notify :: "sched \<Rightarrow> sched" where
  "notify s = s\<lparr>flag := True\<rparr>"

definition request_stop :: "sched \<Rightarrow> sched" where
  "request_stop s = notify (s\<lparr>sched_stopped := True\<rparr>)"

definition is_stopped :: "sched \<Rightarrow> bool" where
  "is_stopped s = sched_stopped s"

datatype context_type = Worker_context | Main_context | Dispatcher_context

text \<open>
  \<open>check_interrupt\<close>: the scheduler of the thread (\<open>None\<close>: another algorithm is in use) and the
  type of the active context, if any; \<open>Some\<close> is the exception thrown.
\<close>

definition check_interrupt :: "sched option \<Rightarrow> context_type option \<Rightarrow> exn option" where
  "check_interrupt inst ctx =
     (case inst of
        None \<Rightarrow> None
      | Some s \<Rightarrow>
          if sched_stopped s \<and> ctx = Some Worker_context
          then Some (make_error Service_terminated_error Ec_operation_aborted ''service stopped'')
          else None)"

text \<open>\<open>sleep_for\<close> of \<open>service.hpp\<close> checks before and after the sleep; \<open>s'\<close> is the scheduler then.\<close>

definition sleep_for :: "sched option \<Rightarrow> sched option \<Rightarrow> context_type option \<Rightarrow> exn option" where
  "sleep_for inst inst' ctx =
     (case check_interrupt inst ctx of Some e \<Rightarrow> Some e | None \<Rightarrow> check_interrupt inst' ctx)"

section \<open>Runs\<close>

datatype sched_op = Op_awakened nat | Op_pick | Op_notify | Op_stop | Op_suspend "int option" int

fun sched_step :: "sched_op \<Rightarrow> sched \<Rightarrow> sched" where
  "sched_step (Op_awakened c) s = awakened c s"
| "sched_step Op_pick s = snd (pick_next s)"
| "sched_step Op_notify s = notify s"
| "sched_step Op_stop s = request_stop s"
| "sched_step (Op_suspend t now) s = (case suspend_until t now s of None \<Rightarrow> s | Some s' \<Rightarrow> s')"

definition sched_run :: "sched_op list \<Rightarrow> sched \<Rightarrow> sched" where
  "sched_run ops s = fold sched_step ops s"

text \<open>The fibers made ready and the fibers picked, in order.\<close>

fun awakened_of :: "sched_op list \<Rightarrow> nat list" where
  "awakened_of [] = []"
| "awakened_of (Op_awakened c # ops) = c # awakened_of ops"
| "awakened_of (_ # ops) = awakened_of ops"

fun picked :: "sched_op list \<Rightarrow> sched \<Rightarrow> nat list" where
  "picked [] s = []"
| "picked (op # ops) s =
     (case op of
        Op_pick \<Rightarrow> (case fst (pick_next s) of None \<Rightarrow> [] | Some c \<Rightarrow> [c])
      | _ \<Rightarrow> []) @ picked ops (sched_step op s)"

lemma sched_run_Cons: "sched_run (op # ops) s = sched_run ops (sched_step op s)"
  by (simp add: sched_run_def)

lemma rqueue_step:
  "rqueue s @ awakened_of [op] = picked [op] s @ rqueue (sched_step op s)"
  by (cases op) (auto simp: awakened_def pick_next_def notify_def request_stop_def suspend_until_def
      split: list.split option.split)

lemma stopped_step: "sched_stopped s \<Longrightarrow> sched_stopped (sched_step op s)"
  by (cases op) (auto simp: awakened_def pick_next_def notify_def request_stop_def suspend_until_def
      split: list.split option.split)

lemma stopped_run: "sched_stopped s \<Longrightarrow> sched_stopped (sched_run ops s)"
  by (induction ops arbitrary: s) (simp_all add: sched_run_def stopped_step)

section \<open>Properties\<close>

text \<open>
  Scheduling is first in, first out: over any history, the fibers picked so far followed by the
  ready queue are exactly the initial queue followed by the fibers made ready, in order. So a fiber
  made ready is picked after the fibers ready before it, and no fiber is lost or run twice for one
  awakening.
\<close>

lemma scheduling_fifo: "rqueue s @ awakened_of ops = picked ops s @ rqueue (sched_run ops s)"
proof (induction ops arbitrary: s)
  case (Cons op ops)
  have a: "awakened_of (op # ops) = awakened_of [op] @ awakened_of ops" by (cases op) simp_all
  have p: "picked (op # ops) s = picked [op] s @ picked ops (sched_step op s)" by simp
  have "rqueue s @ awakened_of (op # ops) = (picked [op] s @ rqueue (sched_step op s)) @ awakened_of ops"
    by (simp only: a rqueue_step [symmetric] append_assoc)
  also have "\<dots> = picked [op] s @ picked ops (sched_step op s) @ rqueue (sched_run ops (sched_step op s))"
    by (simp only: append_assoc Cons.IH)
  finally show ?case by (simp only: p sched_run_Cons append_assoc)
qed (simp add: sched_run_def)

text \<open>
  A stop request is neither lost nor taken back: afterwards, whatever happens, every suspension point
  of a worker fiber throws \<open>service_terminated_error\<close> with the code \<open>operation_aborted\<close>, main and dispatcher
  contexts are never interrupted, and the first \<open>suspend_until\<close> returns at once.
\<close>

lemma stop_interrupts_workers:
  "let s' = sched_run ops (request_stop s) in
     check_interrupt (Some s') (Some Worker_context) =
       Some (make_error Service_terminated_error Ec_operation_aborted ''service stopped'') \<and>
     check_interrupt (Some s') (Some Main_context) = None \<and>
     check_interrupt (Some s') (Some Dispatcher_context) = None \<and>
     sleep_for (Some s') inst (Some Worker_context) \<noteq> None \<and>
     suspend_until t now (request_stop s) \<noteq> None"
proof -
  have "sched_stopped (sched_run ops (request_stop s))"
    by (rule stopped_run) (simp add: request_stop_def notify_def)
  then show ?thesis
    by (simp add: Let_def check_interrupt_def sleep_for_def suspend_until_def request_stop_def notify_def
        split: option.split)
qed

end
