(* ===== verification/Service.thy ===== *)
theory Service
  imports Scheduler
begin

text \<open>
  The service (\<open>include/libasyik/service.hpp\<close>, \<open>src/service.cpp\<close>): \<open>execute\<close> and its dispatcher
  fiber, the phases of \<open>run\<close>, and the worker pool behind \<open>async\<close>. What the concurrent parts do
  is a step relation: the callers of \<open>execute\<close>, the dispatcher fiber, the task fibers and the main
  fiber inside \<open>run\<close> take turns in any order. Boost's buffered channel is a queue that delivers
  what was pushed before it was closed; a push to a closed channel is refused and the task with
  its promise destroyed, which breaks the promise. (A push that waits for space in the channel is
  the step in which it gets through.) Times are milliseconds.
\<close>

section \<open>The state of a service\<close>

text \<open>A task, by the number of its promise: a user's function, or the function pushed by \<open>stop\<close>.\<close>

datatype task = User nat | Stop nat

fun task_id :: "task \<Rightarrow> nat" where
  "task_id (User i) = i"
| "task_id (Stop i) = i"

datatype 'v future = Pending | Ready "exn + 'v" | Broken

text \<open>Where the dispatcher fiber is: testing \<open>stopped\<close>, inside \<open>pop\<close>, or finished.\<close>

datatype dispatcher = D_test | D_pop | D_done

text \<open>Where \<open>run\<close> is: its loop, the drain of phase 1, the join, phases 2a and 2b with their
  deadlines, the final flush, or returned.\<close>

datatype phase = M_loop | M_drain nat | M_join | M_grace int | M_force int | M_flush nat | M_done

text \<open>
  \<open>running\<close> are the task fibers whose function has not finished, \<open>exiting\<close> counts those that have
  and still hold their guard. The last four fields are history for the statements: the next
  promise number, the numbers of the tasks queued and of those dispatched, and whether phase 2b timed
  out.
\<close>

record 'v svc =
  stopped :: bool
  execute_task_count :: u32
  active_fiber_count :: int
  execute_tasks :: "task list"
  tasks_closed :: bool
  disp :: dispatcher
  running :: "task list"
  exiting :: nat
  phase :: phase
  scheduler :: sched
  futures :: "nat \<Rightarrow> 'v future"
  next_id :: nat
  queued :: "nat list"
  dispatched :: "nat list"
  forced :: bool

definition service_ctor :: "'v svc" where
  "service_ctor = \<lparr>stopped = False, execute_task_count = 0, active_fiber_count = 0, execute_tasks = [],
     tasks_closed = False, disp = D_test, running = [], exiting = 0, phase = M_loop, scheduler = sched_init,
     futures = (\<lambda>_. Pending), next_id = 0, queued = [], dispatched = [], forced = False\<rparr>"

section \<open>Operations\<close>

text \<open>\<open>execute\<close> (and \<open>stop\<close>, which executes a task of its own).\<close>

definition push_task :: "task \<Rightarrow> 'v svc \<Rightarrow> 'v svc" where
  "push_task t s =
     (let s1 = s\<lparr>execute_task_count := execute_task_count s + 1, next_id := Suc (task_id t)\<rparr> in
      if tasks_closed s then s1\<lparr>futures := (futures s)(task_id t := Broken)\<rparr>
      else s1\<lparr>execute_tasks := execute_tasks s @ [t], queued := queued s @ [task_id t]\<rparr>)"

definition execute :: "'v svc \<Rightarrow> nat \<times> 'v svc" where
  "execute s = (next_id s, push_task (User (next_id s)) s)"

definition stop :: "'v svc \<Rightarrow> 'v svc" where
  "stop s = push_task (Stop (next_id s)) s"

text \<open>The dispatcher fiber: the test of its loop, and the return of \<open>pop\<close>.\<close>

definition dispatcher_test :: "'v svc \<Rightarrow> 'v svc" where
  "dispatcher_test s = (if stopped s then s\<lparr>disp := D_done\<rparr> else s\<lparr>disp := D_pop\<rparr>)"

definition dispatcher_pop :: "'v svc \<Rightarrow> 'v svc option" where
  "dispatcher_pop s =
     (case execute_tasks s of
        t # ts \<Rightarrow>
          Some (s\<lparr>execute_tasks := ts, active_fiber_count := active_fiber_count s + 1, running := running s @ [t],
                  disp := D_test, dispatched := dispatched s @ [task_id t]\<rparr>)
      | [] \<Rightarrow> if tasks_closed s then Some (s\<lparr>disp := D_done\<rparr>) else None)"

text \<open>
  A task fiber whose function returned or threw \<open>r\<close>: the promise is fulfilled either way and the
  count goes down. The guard's destructor runs later.
\<close>

definition task_finish :: "task \<Rightarrow> exn + 'v \<Rightarrow> 'v svc \<Rightarrow> 'v svc" where
  "task_finish t r s =
     s\<lparr>stopped := (case t of Stop _ \<Rightarrow> True | User _ \<Rightarrow> stopped s),
       futures := (futures s)(task_id t := Ready r),
       execute_task_count := execute_task_count s - 1,
       running := remove1 t (running s), exiting := exiting s + 1\<rparr>"

definition fiber_exit :: "'v svc \<Rightarrow> 'v svc" where
  "fiber_exit s = s\<lparr>active_fiber_count := active_fiber_count s - 1, exiting := exiting s - 1\<rparr>"

text \<open>How the loop of \<open>run\<close> waits, by the number of turns without work.\<close>

datatype idle_wait = Yield | Sleep_us nat

definition idle_action :: "nat \<Rightarrow> nat \<Rightarrow> nat \<times> idle_wait option" where
  "idle_action polled idle_count =
     (if polled \<noteq> 0 then (0, None)
      else
        (let n = idle_count + 1 in
         if n < 100 then (n, Some Yield)
         else if n < 200 then (n, Some (Sleep_us 100))
         else (n, Some (Sleep_us 5000))))"

definition loop_condition :: "bool \<Rightarrow> 'v svc \<Rightarrow> bool" where
  "loop_condition stop_on_complete s \<longleftrightarrow>
     \<not> stopped s \<and> (\<not> stop_on_complete \<or> execute_task_count s > 0)"

text \<open>One turn of the main fiber at time \<open>now\<close>; \<open>None\<close> while \<open>fb.join()\<close> waits or after the return.\<close>

definition run_turn :: "bool \<Rightarrow> int \<Rightarrow> 'v svc \<Rightarrow> 'v svc option" where
  "run_turn stop_on_complete now s =
     (case phase s of
        M_loop \<Rightarrow>
          if loop_condition stop_on_complete s then Some s
          else Some (s\<lparr>tasks_closed := True, phase := M_drain 0\<rparr>)
      | M_drain i \<Rightarrow> Some (s\<lparr>phase := (if i < 200 then M_drain (i + 1) else M_join)\<rparr>)
      | M_join \<Rightarrow> if disp s = D_done then Some (s\<lparr>phase := M_grace (now + 500)\<rparr>) else None
      | M_grace deadline \<Rightarrow>
          if active_fiber_count s > 0 \<and> \<not> now > deadline then Some s
          else if active_fiber_count s > 0
            then Some (s\<lparr>scheduler := request_stop (scheduler s), phase := M_force (now + 500)\<rparr>)
            else Some (s\<lparr>phase := M_flush 0\<rparr>)
      | M_force deadline \<Rightarrow>
          if active_fiber_count s > 0 \<and> \<not> now > deadline then Some s
          else Some (s\<lparr>phase := M_flush 0, forced := active_fiber_count s > 0\<rparr>)
      | M_flush i \<Rightarrow> Some (s\<lparr>phase := (if i < 20 then M_flush (i + 1) else M_done)\<rparr>)
      | M_done \<Rightarrow> None)"

section \<open>The worker pool of \<open>async\<close>\<close>

text \<open>\<open>std::atoi\<close>, and the number of threads \<open>init_workers\<close> starts: the product is computed in
  \<open>unsigned int\<close>, stored in an \<open>int\<close> and converted to \<open>size_t\<close>.\<close>

definition atoi :: "string \<Rightarrow> int" where
  "atoi s = (case int_prefix s of None \<Rightarrow> 0 | Some v \<Rightarrow> v)"

definition thread_multiplier :: "string option \<Rightarrow> int" where
  "thread_multiplier env_multiplier =
     (case env_multiplier of None \<Rightarrow> 5 | Some e \<Rightarrow> if atoi e \<le> 0 then 5 else atoi e)"

definition pool_size :: "u32 \<Rightarrow> string option \<Rightarrow> u64" where
  "pool_size hardware_concurrency env_multiplier =
     scast (hardware_concurrency * word_of_int (thread_multiplier env_multiplier))"

text \<open>
  The counters, and the tasks by stage: submitted but not yet through the push, queued, popped
  but not yet counted off, spawned, running. \<open>finished\<close> and \<open>failed\<close> are history.
\<close>

record apool =
  async_queue_size :: u32
  async_task_started :: u32
  async_task_terminated :: u32
  async_task_error :: u32
  submitting :: nat
  a_queue :: "nat list"
  popped :: nat
  spawned :: nat
  a_running :: nat
  finished :: nat
  failed :: nat

definition apool_init :: apool where
  "apool_init = \<lparr>async_queue_size = 0, async_task_started = 0, async_task_terminated = 0, async_task_error = 0,
     submitting = 0, a_queue = [], popped = 0, spawned = 0, a_running = 0, finished = 0, failed = 0\<rparr>"

definition async_count :: "apool \<Rightarrow> apool" where
  "async_count a = a\<lparr>async_queue_size := async_queue_size a + 1, submitting := submitting a + 1\<rparr>"

definition async_push :: "nat \<Rightarrow> apool \<Rightarrow> apool" where
  "async_push t a = a\<lparr>submitting := submitting a - 1, a_queue := a_queue a @ [t]\<rparr>"

definition worker_pop :: "apool \<Rightarrow> apool" where
  "worker_pop a = a\<lparr>a_queue := tl (a_queue a), popped := popped a + 1\<rparr>"

definition worker_spawn :: "apool \<Rightarrow> apool" where
  "worker_spawn a = a\<lparr>async_queue_size := async_queue_size a - 1, popped := popped a - 1, spawned := spawned a + 1\<rparr>"

definition async_start :: "apool \<Rightarrow> apool" where
  "async_start a =
     a\<lparr>async_task_started := async_task_started a + 1, spawned := spawned a - 1, a_running := a_running a + 1\<rparr>"

text \<open>The task's function returns (\<open>ok\<close>) or throws.\<close>

definition async_finish :: "bool \<Rightarrow> apool \<Rightarrow> apool" where
  "async_finish ok a =
     a\<lparr>async_task_error := (if ok then async_task_error a else async_task_error a + 1),
       async_task_terminated := async_task_terminated a + 1,
       a_running := a_running a - 1, finished := finished a + 1, failed := (if ok then failed a else failed a + 1)\<rparr>"

inductive async_step :: "apool \<Rightarrow> apool \<Rightarrow> bool" where
  as_count: "async_step a (async_count a)"
| as_push: "0 < submitting a \<Longrightarrow> async_step a (async_push t a)"
| as_pop: "a_queue a \<noteq> [] \<Longrightarrow> async_step a (worker_pop a)"
| as_spawn: "0 < popped a \<Longrightarrow> async_step a (worker_spawn a)"
| as_start: "0 < spawned a \<Longrightarrow> async_step a (async_start a)"
| as_finish: "0 < a_running a \<Longrightarrow> async_step a (async_finish ok a)"

text \<open>
  The thread-local \<open>active_service\<close> of a worker thread: an async task saves it, sets its own
  service, and puts the saved value back when its function is done. \<open>saved\<close> is what each fiber of the
  thread holds.
\<close>

type_synonym tls_state = "nat option \<times> (nat \<Rightarrow> nat option)"

definition async_enter :: "nat \<Rightarrow> nat \<Rightarrow> tls_state \<Rightarrow> tls_state" where
  "async_enter fiber as st = (case st of (active, saved) \<Rightarrow> (Some as, saved(fiber := active)))"

definition async_leave :: "nat \<Rightarrow> tls_state \<Rightarrow> tls_state" where
  "async_leave fiber st = (case st of (active, saved) \<Rightarrow> (saved fiber, saved))"

definition get_current_service :: "tls_state \<Rightarrow> nat option" where
  "get_current_service st = fst st"

section \<open>The step relation\<close>

inductive svc_step :: "bool \<Rightarrow> 'v svc \<Rightarrow> 'v svc \<Rightarrow> bool" for soc where
  step_execute: "svc_step soc s (snd (execute s))"
| step_stop: "svc_step soc s (stop s)"
| step_test: "disp s = D_test \<Longrightarrow> svc_step soc s (dispatcher_test s)"
| step_pop: "disp s = D_pop \<Longrightarrow> dispatcher_pop s = Some s' \<Longrightarrow> svc_step soc s s'"
| step_finish: "t \<in> set (running s) \<Longrightarrow> svc_step soc s (task_finish t r s)"
| step_exit: "0 < exiting s \<Longrightarrow> svc_step soc s (fiber_exit s)"
| step_main: "run_turn soc now s = Some s' \<Longrightarrow> svc_step soc s s'"

inductive_cases svc_stepE: "svc_step soc s s'"

inductive reachable :: "bool \<Rightarrow> 'v svc \<Rightarrow> bool" for soc where
  reach_init: "reachable soc service_ctor"
| reach_step: "reachable soc s \<Longrightarrow> svc_step soc s s' \<Longrightarrow> reachable soc s'"

text \<open>The invariant: the counters count, and every promise is in exactly one place.\<close>

definition pending_ids :: "'v svc \<Rightarrow> nat list" where
  "pending_ids s = map task_id (execute_tasks s) @ map task_id (running s)"

definition lost :: "'v svc \<Rightarrow> nat" where
  "lost s = card {i. i < next_id s \<and> futures s i = Broken}"

definition svc_inv :: "'v svc \<Rightarrow> bool" where
  "svc_inv s \<longleftrightarrow>
     execute_task_count s = word_of_nat (length (execute_tasks s) + length (running s) + lost s) \<and>
     active_fiber_count s = int (length (running s) + exiting s) \<and>
     distinct (pending_ids s) \<and>
     (\<forall>i. futures s i = Pending \<and> i < next_id s \<longleftrightarrow> i \<in> set (pending_ids s)) \<and>
     (\<forall>i \<ge> next_id s. futures s i = Pending) \<and>
     queued s = dispatched s @ map task_id (execute_tasks s)"

definition run_inv :: "'v svc \<Rightarrow> bool" where
  "run_inv s \<longleftrightarrow>
     (phase s \<noteq> M_loop \<longleftrightarrow> tasks_closed s) \<and>
     (lost s \<noteq> 0 \<longrightarrow> tasks_closed s) \<and>
     (case phase s of
        M_grace d \<Rightarrow> disp s = D_done
      | M_force d \<Rightarrow> disp s = D_done
      | M_flush i \<Rightarrow> disp s = D_done \<and> (forced s \<or> running s = [] \<and> exiting s = 0)
      | M_done \<Rightarrow> disp s = D_done \<and> (forced s \<or> running s = [] \<and> exiting s = 0)
      | _ \<Rightarrow> True)"

section \<open>The invariant holds in every reachable state\<close>

lemma lost_finite: "finite {i :: nat. i < n \<and> P i}"
  by (rule finite_subset [of _ "{..<n}"]) auto

lemma svc_invD:
  assumes "svc_inv s"
  shows "execute_task_count s = word_of_nat (length (execute_tasks s) + length (running s) + lost s)"
    and "active_fiber_count s = int (length (running s) + exiting s)"
    and "distinct (pending_ids s)"
    and "\<And>i. i \<in> set (pending_ids s) \<longleftrightarrow> futures s i = Pending \<and> i < next_id s"
    and "\<And>i. next_id s \<le> i \<Longrightarrow> futures s i = Pending"
    and "queued s = dispatched s @ map task_id (execute_tasks s)"
  using assms by (simp_all add: svc_inv_def)

lemma lost_push_open:
  assumes "svc_inv s" and "task_id t = next_id s" and "\<not> tasks_closed s"
  shows "lost (push_task t s) = lost s"
proof -
  have "{i. i < Suc (next_id s) \<and> futures s i = Broken} = {i. i < next_id s \<and> futures s i = Broken}"
    using svc_invD(5) [OF assms(1), of "next_id s"] by (auto simp: less_Suc_eq)
  then show ?thesis using assms(2,3) by (simp add: push_task_def Let_def lost_def)
qed

lemma inv_push:
  assumes inv: "svc_inv s" and id: "task_id t = next_id s"
  shows "svc_inv (push_task t s)"
proof (cases "tasks_closed s")
  case True
  let ?n = "next_id s"
  let ?s' = "push_task t s"
  have s': "?s' = s\<lparr>execute_task_count := execute_task_count s + 1, next_id := Suc ?n,
      futures := (futures s)(?n := Broken)\<rparr>"
    using True id by (simp add: push_task_def Let_def)
  have "{i. i < Suc ?n \<and> ((futures s)(?n := Broken)) i = Broken} = insert ?n {i. i < ?n \<and> futures s i = Broken}"
    by (auto simp: less_Suc_eq)
  then have l: "lost ?s' = Suc (lost s)"
    unfolding s' lost_def by (simp add: lost_finite)
  have p: "pending_ids ?s' = pending_ids s" unfolding s' by (simp add: pending_ids_def)
  have "?n \<notin> set (pending_ids s)" using svc_invD(4) [OF inv] by simp
  then show ?thesis
    using svc_invD [OF inv] l p unfolding svc_inv_def s'
    by (auto simp: less_Suc_eq algebra_simps)
next
  case False
  let ?n = "next_id s"
  let ?s' = "push_task t s"
  have s': "?s' = s\<lparr>execute_task_count := execute_task_count s + 1, next_id := Suc ?n,
      execute_tasks := execute_tasks s @ [t], queued := queued s @ [?n]\<rparr>"
    using False id by (simp add: push_task_def Let_def)
  have l: "lost ?s' = lost s" using lost_push_open [OF inv id False] .
  have p: "set (pending_ids ?s') = insert ?n (set (pending_ids s))"
    unfolding s' using id by (auto simp: pending_ids_def)
  have "?n \<notin> set (pending_ids s)" using svc_invD(4) [OF inv] by simp
  then have "distinct (pending_ids ?s')"
    using svc_invD(3) [OF inv] id unfolding s' by (auto simp: pending_ids_def)
  then show ?thesis
    using svc_invD [OF inv] l p id unfolding svc_inv_def s'
    by (auto simp: less_Suc_eq algebra_simps)
qed

lemma inv_pop:
  assumes inv: "svc_inv s" and pop: "dispatcher_pop s = Some s'"
  shows "svc_inv s'"
proof (cases "execute_tasks s")
  case Nil
  with pop have "s' = s\<lparr>disp := D_done\<rparr>" by (auto simp: dispatcher_pop_def split: if_splits)
  with inv show ?thesis by (simp add: svc_inv_def pending_ids_def lost_def)
next
  case (Cons t ts)
  with pop have s': "s' = s\<lparr>execute_tasks := ts, active_fiber_count := active_fiber_count s + 1,
      running := running s @ [t], disp := D_test, dispatched := dispatched s @ [task_id t]\<rparr>"
    by (simp add: dispatcher_pop_def)
  have "set (pending_ids s') = set (pending_ids s)" "distinct (pending_ids s')"
    using svc_invD(3) [OF inv] Cons unfolding s' by (auto simp: pending_ids_def)
  then show ?thesis
    using svc_invD [OF inv] Cons unfolding s' svc_inv_def by (simp add: lost_def)
qed

lemma inv_finish:
  assumes inv: "svc_inv s" and t: "t \<in> set (running s)"
  shows "svc_inv (task_finish t r s)"
proof -
  let ?s' = "task_finish t r s"
  have id: "futures s (task_id t) = Pending" "task_id t < next_id s"
    using svc_invD(4) [OF inv, of "task_id t"] t by (auto simp: pending_ids_def)
  then have l: "lost ?s' = lost s"
    unfolding lost_def task_finish_def by (intro arg_cong [of _ _ card]) auto
  obtain xs ys where split: "running s = xs @ t # ys" "t \<notin> set xs" using split_list_first [OF t] by blast
  then have r': "remove1 t (running s) = xs @ ys" by (simp add: remove1_append)
  have d: "distinct (map task_id (execute_tasks s) @ map task_id (xs @ t # ys))"
    using svc_invD(3) [OF inv] split(1) by (simp add: pending_ids_def)
  have p: "set (pending_ids ?s') = set (pending_ids s) - {task_id t}" "distinct (pending_ids ?s')"
    using d split(1) r' unfolding pending_ids_def task_finish_def by auto
  have len: "length (running s) = Suc (length (xs @ ys))" using split(1) by simp
  show ?thesis
    unfolding svc_inv_def
  proof (intro conjI allI impI)
    show "execute_task_count ?s' = word_of_nat (length (execute_tasks ?s') + length (running ?s') + lost ?s')"
      using svc_invD(1) [OF inv] l len r' by (simp add: task_finish_def)
    show "active_fiber_count ?s' = int (length (running ?s') + exiting ?s')"
      using svc_invD(2) [OF inv] len r' by (simp add: task_finish_def)
    show "distinct (pending_ids ?s')" by (rule p(2))
    show "futures ?s' i = Pending \<and> i < next_id ?s' \<longleftrightarrow> i \<in> set (pending_ids ?s')" for i
      unfolding p(1) using svc_invD(4) [OF inv, of i] by (auto simp: task_finish_def)
    show "futures ?s' i = Pending" if "next_id ?s' \<le> i" for i
      using that svc_invD(5) [OF inv, of i] id by (auto simp: task_finish_def)
    show "queued ?s' = dispatched ?s' @ map task_id (execute_tasks ?s')"
      using svc_invD(6) [OF inv] by (simp add: task_finish_def)
  qed
qed

text \<open>A turn of the main fiber touches neither tasks nor promises.\<close>

lemma run_turn_frame:
  assumes "run_turn soc now s = Some s'"
  shows "execute_task_count s' = execute_task_count s" "active_fiber_count s' = active_fiber_count s"
    "execute_tasks s' = execute_tasks s" "running s' = running s" "exiting s' = exiting s"
    "futures s' = futures s" "next_id s' = next_id s" "queued s' = queued s" "dispatched s' = dispatched s"
    "disp s' = disp s" "stopped s' = stopped s"
  using assms by (auto simp: run_turn_def split: phase.splits if_splits)

lemma inv_step: "svc_inv s \<Longrightarrow> svc_step soc s s' \<Longrightarrow> svc_inv s'"
proof (erule svc_stepE)
  assume inv: "svc_inv s"
  show "s' = snd (execute s) \<Longrightarrow> svc_inv s'" "s' = stop s \<Longrightarrow> svc_inv s'"
    using inv_push [OF inv] by (simp_all add: execute_def stop_def)
  show "s' = dispatcher_test s \<Longrightarrow> disp s = D_test \<Longrightarrow> svc_inv s'"
    using inv by (simp add: dispatcher_test_def svc_inv_def pending_ids_def lost_def)
  show "disp s = D_pop \<Longrightarrow> dispatcher_pop s = Some s' \<Longrightarrow> svc_inv s'" using inv_pop [OF inv] by blast
  show "s' = task_finish t r s \<Longrightarrow> t \<in> set (running s) \<Longrightarrow> svc_inv s'" for t r using inv_finish [OF inv] by simp
  show "s' = fiber_exit s \<Longrightarrow> 0 < exiting s \<Longrightarrow> svc_inv s'"
    using inv by (simp add: fiber_exit_def svc_inv_def pending_ids_def lost_def of_nat_diff)
  show "run_turn soc now s = Some s' \<Longrightarrow> svc_inv s'" for now
    using inv run_turn_frame [of soc now s s'] by (simp add: svc_inv_def pending_ids_def lost_def)
qed

lemma active_pos:
  assumes "svc_inv s"
  shows "0 < active_fiber_count s \<longleftrightarrow> running s \<noteq> [] \<or> 0 < exiting s"
  using svc_invD(2) [OF assms] by (cases "running s") auto

lemma run_inv_push:
  assumes "svc_inv s" and "run_inv s" and "task_id t = next_id s"
  shows "run_inv (push_task t s)"
proof -
  have f: "phase (push_task t s) = phase s" "tasks_closed (push_task t s) = tasks_closed s"
    "disp (push_task t s) = disp s" "running (push_task t s) = running s"
    "exiting (push_task t s) = exiting s" "forced (push_task t s) = forced s"
    by (simp_all add: push_task_def Let_def)
  show ?thesis
    using assms(2) lost_push_open [OF assms(1,3)] unfolding run_inv_def f by (cases "tasks_closed s") auto
qed

lemma run_inv_main:
  assumes inv: "svc_inv s" and run: "run_inv s" and turn: "run_turn soc now s = Some s'"
  shows "run_inv s'"
proof -
  have l: "lost s' = lost s" by (simp add: lost_def run_turn_frame [OF turn])
  have lost: "lost s' \<noteq> 0 \<longrightarrow> tasks_closed s'" "phase s' \<noteq> M_loop \<longleftrightarrow> tasks_closed s'"
    using run turn unfolding l
    by (auto simp: run_inv_def run_turn_def split: phase.splits if_splits)
  have drained: "disp s' = D_done \<and> (forced s' \<or> running s' = [] \<and> exiting s' = 0)"
    if "phase s' = M_flush i \<or> phase s' = M_done" for i
    using that run turn active_pos [OF inv]
    by (cases "phase s") (auto simp: run_inv_def run_turn_def split: if_splits)
  have "disp s' = D_done" if "phase s' = M_grace d \<or> phase s' = M_force d" for d
    using that run turn by (cases "phase s") (auto simp: run_inv_def run_turn_def split: if_splits)
  with lost drained show ?thesis unfolding run_inv_def by (cases "phase s'") simp_all
qed

lemma run_inv_step:
  assumes inv: "svc_inv s" and run: "run_inv s" and step: "svc_step soc s s'"
  shows "run_inv s'"
  using step
proof cases
  case step_execute
  then show ?thesis using run_inv_push [OF inv run] by (simp add: execute_def)
next
  case step_stop
  then show ?thesis using run_inv_push [OF inv run] by (simp add: stop_def)
next
  case step_test
  then show ?thesis using run by (auto simp: run_inv_def dispatcher_test_def lost_def split: phase.splits)
next
  case step_pop
  then show ?thesis
    using run by (auto simp: run_inv_def dispatcher_pop_def lost_def split: phase.splits list.splits if_splits)
next
  case (step_finish t r)
  have "lost (task_finish t r s) = lost s"
    using svc_invD(4) [OF inv, of "task_id t"] step_finish(2) unfolding lost_def task_finish_def pending_ids_def
    by (intro arg_cong [of _ _ card]) auto
  with step_finish run show ?thesis by (auto simp: run_inv_def task_finish_def split: phase.splits)
next
  case step_exit
  then show ?thesis using run by (auto simp: run_inv_def fiber_exit_def lost_def split: phase.splits)
next
  case (step_main now)
  then show ?thesis using run_inv_main [OF inv run] by blast
qed

lemma reachable_inv: "reachable soc s \<Longrightarrow> svc_inv s \<and> run_inv s"
proof (induction rule: reachable.induct)
  case reach_init
  then show ?case by (simp add: svc_inv_def run_inv_def service_ctor_def pending_ids_def lost_def)
next
  case (reach_step s s')
  then show ?case using inv_step run_inv_step by blast
qed

section \<open>The end of \<open>run\<close>\<close>

text \<open>The main fiber taking turns at the given times.\<close>

fun run_turns :: "bool \<Rightarrow> int list \<Rightarrow> 'v svc \<Rightarrow> 'v svc option" where
  "run_turns soc [] s = Some s"
| "run_turns soc (now # nows) s =
     (case run_turn soc now s of None \<Rightarrow> None | Some s' \<Rightarrow> run_turns soc nows s')"

lemma run_turns_flush:
  "i \<le> 20 \<Longrightarrow> phase s = M_flush i \<Longrightarrow> length nows = 21 - i \<Longrightarrow>
     \<exists>s'. run_turns soc nows s = Some s' \<and> phase s' = M_done"
proof (induction "20 - i" arbitrary: i s nows)
  case 0
  then obtain now where "nows = [now]" "i = 20" by (cases nows) auto
  with 0 show ?case by (simp add: run_turn_def)
next
  case (Suc k)
  then obtain now nows' where nows: "nows = now # nows'" "length nows' = 21 - Suc i" "i < 20"
    by (cases nows) auto
  have "\<exists>s'. run_turns soc nows' (s\<lparr>phase := M_flush (Suc i)\<rparr>) = Some s' \<and> phase s' = M_done"
    using Suc.hyps nows by (intro Suc.hyps(1) [of "Suc i"]) simp_all
  with Suc.prems nows show ?case by (simp add: run_turn_def)
qed

lemma run_turns_force:
  assumes "phase s = M_force d" and "d < now" and "length nows = 21"
  shows "\<exists>s'. run_turns soc (now # nows) s = Some s' \<and> phase s' = M_done"
  using assms run_turns_flush [of 0 "s\<lparr>phase := M_flush 0, forced := active_fiber_count s > 0\<rparr>" nows soc]
  by (simp add: run_turn_def)

section \<open>Counters of the worker pool\<close>

definition apool_inv :: "apool \<Rightarrow> bool" where
  "apool_inv a \<longleftrightarrow>
     async_queue_size a = word_of_nat (submitting a + length (a_queue a) + popped a) \<and>
     async_task_started a = word_of_nat (a_running a + finished a) \<and>
     async_task_terminated a = word_of_nat (finished a) \<and>
     async_task_error a = word_of_nat (failed a) \<and> failed a \<le> finished a"

lemma apool_inv_step: "async_step a a' \<Longrightarrow> apool_inv a \<Longrightarrow> apool_inv a'"
proof (induction rule: async_step.induct)
  case (as_pop a)
  then show ?case by (cases "a_queue a") (simp_all add: apool_inv_def worker_pop_def)
qed (auto simp: apool_inv_def async_count_def async_push_def worker_spawn_def async_start_def
  async_finish_def of_nat_diff)

lemma apool_inv_run: "async_step\<^sup>*\<^sup>* apool_init a \<Longrightarrow> apool_inv a"
proof (induction rule: rtranclp_induct)
  case base
  then show ?case by (simp add: apool_inv_def apool_init_def)
next
  case (step a a')
  then show ?case using apool_inv_step by blast
qed

section \<open>Properties\<close>



text \<open>
  C22. Futures are fulfilled at most once and never forgotten: a task that runs or is queued has a pending
  future, when its function returns or throws the future gets exactly that result (an exception of the task
  never escapes the fiber), and no step ever changes a future that is fulfilled or broken.
\<close>

theorem futures_fulfilled_once:
  assumes "reachable soc s"
  shows "(\<forall>t \<in> set (execute_tasks s) \<union> set (running s). futures s (task_id t) = Pending) \<and>
    (\<forall>t r. futures (task_finish t r s) (task_id t) = Ready r) \<and>
    (\<forall>s' i. svc_step soc s s' \<longrightarrow> i < next_id s \<longrightarrow> futures s i \<noteq> Pending \<longrightarrow> futures s' i = futures s i)"
proof -
  have inv: "svc_inv s" using reachable_inv [OF assms] by simp
  note pend = svc_invD(4) [OF inv]
  have "futures s' i = futures s i" if "svc_step soc s s'" "i < next_id s" "futures s i \<noteq> Pending" for s' i
    using that(1)
  proof cases
    case step_pop
    then show ?thesis by (auto simp: dispatcher_pop_def split: list.splits if_splits)
  next
    case (step_finish t r)
    then have "futures s (task_id t) = Pending" using pend [of "task_id t"] by (auto simp: pending_ids_def)
    with step_finish that(3) show ?thesis by (auto simp: task_finish_def)
  next
    case (step_main now)
    then show ?thesis using run_turn_frame(6) by metis
  qed (use that in \<open>simp_all add: execute_def stop_def push_task_def dispatcher_test_def fiber_exit_def Let_def\<close>)
  moreover have "futures s (task_id t) = Pending" if "t \<in> set (execute_tasks s) \<union> set (running s)" for t
    using that pend [of "task_id t"] by (auto simp: pending_ids_def)
  ultimately show ?thesis by (simp add: task_finish_def)
qed

theorem futures_fulfilled_once_witness:
  "futures (task_finish (User 0) (Inr (5 :: nat)) (snd (execute service_ctor))) 0 = Ready (Inr 5)"
proof -
  have "reachable True (snd (execute (service_ctor :: nat svc)))"
    by (rule reach_step [OF reach_init step_execute])
  then show ?thesis using futures_fulfilled_once by (metis task_id.simps(1))
qed

text \<open>
  C23. When \<open>run\<close> has returned, the dispatcher is finished, no new task can be queued, and every task fiber
  has fully exited, unless the forced phase ran into its deadline. With \<open>stop_on_complete\<close> and fewer than
  \<open>2\<^sup>3\<^sup>2\<close> tasks, \<open>run\<close> leaves its loop without a stop request only when every task queued so far has finished.
\<close>

theorem run_returns_clean:
  assumes "reachable soc s"
  shows "(phase s = M_done \<longrightarrow> disp s = D_done \<and> tasks_closed s \<and> (forced s \<or> running s = [] \<and> exiting s = 0)) \<and>
    (phase s = M_loop \<and> \<not> loop_condition soc s \<and> \<not> stopped s \<and> next_id s < 2 ^ 32 \<longrightarrow>
       soc \<and> execute_tasks s = [] \<and> running s = [] \<and> (\<forall>i < next_id s. \<exists>r. futures s i = Ready r))"
proof -
  have inv: "svc_inv s" and run: "run_inv s" using reachable_inv [OF assms] by simp_all
  have "soc \<and> execute_tasks s = [] \<and> running s = [] \<and> (\<forall>i < next_id s. \<exists>r. futures s i = Ready r)"
    if "phase s = M_loop" "\<not> loop_condition soc s" "\<not> stopped s" "next_id s < 2 ^ 32"
  proof -
    have l: "lost s = 0" using run that(1) by (auto simp: run_inv_def)
    have ids: "set (pending_ids s) \<subseteq> {..<next_id s}" using svc_invD(4) [OF inv] by auto
    have "length (execute_tasks s) + length (running s) = card (set (pending_ids s))"
      using distinct_card [OF svc_invD(3) [OF inv]] by (simp add: pending_ids_def)
    also have "\<dots> \<le> next_id s" using card_mono [OF _ ids] by simp
    finally have small: "length (execute_tasks s) + length (running s) < 2 ^ 32" using that(4) by simp
    have "soc" "execute_task_count s = 0" using that(2,3) by (auto simp: loop_condition_def word_gt_0)
    then have "(word_of_nat (length (execute_tasks s) + length (running s)) :: u32) = 0"
      using svc_invD(1) [OF inv] l by simp
    then have "length (execute_tasks s) + length (running s) = 0"
      using small by (rule u32_of_nat_zero)
    then have e: "execute_tasks s = []" "running s = []" by simp_all
    then have "\<forall>i < next_id s. futures s i \<noteq> Pending" using svc_invD(4) [OF inv] by (auto simp: pending_ids_def)
    moreover have "\<forall>i < next_id s. futures s i \<noteq> Broken" using l lost_finite [of "next_id s"] by (auto simp: lost_def)
    ultimately have "\<forall>i < next_id s. \<exists>r. futures s i = Ready r" by (metis future.exhaust)
    with e \<open>soc\<close> show ?thesis by simp
  qed
  moreover have "phase s = M_done \<longrightarrow> disp s = D_done \<and> tasks_closed s \<and> (forced s \<or> running s = [] \<and> exiting s = 0)"
    using run by (auto simp: run_inv_def)
  ultimately show ?thesis by blast
qed

theorem run_returns_clean_witness:
  "phase (service_ctor :: nat svc) = M_loop \<and> \<not> loop_condition True (service_ctor :: nat svc) \<and>
   execute_tasks (service_ctor :: nat svc) = [] \<and> running (service_ctor :: nat svc) = []"
proof -
  have c: "phase (service_ctor :: nat svc) = M_loop \<and> \<not> loop_condition True (service_ctor :: nat svc) \<and>
      \<not> stopped (service_ctor :: nat svc) \<and> next_id (service_ctor :: nat svc) < 2 ^ 32"
    by (simp add: service_ctor_def loop_condition_def)
  then show ?thesis using run_returns_clean [OF reach_init, where soc = True and 'a = nat] by blast
qed

text \<open>
  Shutdown is bounded: once the dispatcher has been joined, \<open>run\<close> returns after at most two deadlines of 500
  milliseconds and a fixed number of turns, even when task fibers never finish; it returns without the
  forced phase when no fiber is left.
\<close>

lemma run_shutdown_bounded:
  assumes "phase s = M_grace d" and "d < now" and "now + 500 < now'" and "length nows = 21"
  shows "\<exists>s'. run_turns soc (if active_fiber_count s > 0 then now # now' # nows else now # nows) s = Some s' \<and>
    phase s' = M_done \<and> (active_fiber_count s \<le> 0 \<longrightarrow> sched_stopped (scheduler s') = sched_stopped (scheduler s))"
proof (cases "active_fiber_count s > 0")
  case True
  with assms have "run_turn soc now s = Some (s\<lparr>scheduler := request_stop (scheduler s), phase := M_force (now + 500)\<rparr>)"
    by (simp add: run_turn_def)
  with True run_turns_force [of "s\<lparr>scheduler := request_stop (scheduler s), phase := M_force (now + 500)\<rparr>"
      "now + 500" now' nows soc] assms(3,4) show ?thesis by simp
next
  case False
  with assms have turn: "run_turn soc now s = Some (s\<lparr>phase := M_flush 0\<rparr>)" by (simp add: run_turn_def)
  obtain s' where s': "run_turns soc nows (s\<lparr>phase := M_flush 0\<rparr>) = Some s'" "phase s' = M_done"
    using run_turns_flush [of 0 "s\<lparr>phase := M_flush 0\<rparr>" nows soc] assms(4) by auto
  have "phase u = M_flush i \<Longrightarrow> run_turns soc ns u = Some v \<Longrightarrow> length ns \<le> 21 - i \<Longrightarrow> i \<le> 20 \<Longrightarrow> scheduler v = scheduler u"
    for ns i u v
  proof (induction ns arbitrary: i u)
    case (Cons n ns)
    show ?case
    proof (cases "i < 20")
      case True
      then show ?thesis using Cons.prems Cons.IH [of "u\<lparr>phase := M_flush (i + 1)\<rparr>" "i + 1"] by (simp add: run_turn_def)
    next
      case False
      with Cons.prems have "ns = []" by simp
      with False Cons.prems show ?thesis by (auto simp: run_turn_def)
    qed
  qed simp
  from this [of "s\<lparr>phase := M_flush 0\<rparr>" 0 nows s'] s' turn False assms(4) show ?thesis by simp
qed

text \<open>
  The statistics of the worker pool: in every reachable state the queue size counts the tasks submitted and
  not yet taken over by a worker fiber, started minus terminated counts the tasks running, and the errors are
  at most the terminated tasks (all modulo \<open>2\<^sup>3\<^sup>2\<close>).
\<close>

lemma async_stats_count:
  assumes "async_step\<^sup>*\<^sup>* apool_init a"
  shows "async_queue_size a = word_of_nat (submitting a + length (a_queue a) + popped a) \<and>
    async_task_started a - async_task_terminated a = word_of_nat (a_running a) \<and>
    async_task_error a = word_of_nat (failed a) \<and> failed a \<le> finished a"
  using apool_inv_run [OF assms] by (simp add: apool_inv_def)

text \<open>
  The current service inside async tasks is right only when tasks do not overlap on a worker thread: a task that
  runs alone sees its service and leaves the thread as it was, but when two tasks of the same service overlap (the
  first suspends, the second starts) and the first finishes, the second one has no current service any
  more, and after both the thread is left with a service although no task runs.
\<close>

lemma active_service_overlap:
  "get_current_service (async_enter f as st) = Some as \<and>
   get_current_service (async_leave f (async_enter f as st)) = get_current_service st \<and>
   (f \<noteq> g \<longrightarrow>
     get_current_service (async_leave f (async_enter g as (async_enter f as (None, sv)))) = None \<and>
     get_current_service (async_leave g (async_leave f (async_enter g as (async_enter f as (None, sv))))) = Some as)"
  by (cases st) (simp add: async_enter_def async_leave_def get_current_service_def)

end
