(* ===== verification/Http_System.thy ===== *)
theory Http_System
  imports Conn_Fiber Service
begin

text \<open>
  The HTTP server at work: the accept loop and the register of connections (\<open>Http_Connection\<close>), the service whose dispatcher
  starts the tasks (\<open>Service\<close>), and one fiber per connection (\<open>Conn_Fiber\<close>), in any interleaving. The theory shows that the three
  components keep their own contracts together, that no connection notices the others, and that the tasks drain after \<open>close\<close>.
\<close>

section \<open>The state\<close>

text \<open>
  Connection \<open>c\<close> has the fiber \<open>fibers ! c\<close>, which the service runs as the task \<open>tids ! c\<close>; \<open>op_open ! c\<close> says whether the
  socket was open when the operation the fiber waits for was started, and \<open>sent_acts ! c\<close> is what it has done so far.
\<close>

record http_sys =
  srv :: http_server
  serv :: "unit svc"
  fibers :: "fiber_pc list"
  op_open :: "bool list"
  tids :: "nat list"
  sent_acts :: "action list list"

definition sys_init :: http_sys where
  "sys_init = \<lparr>srv = server_init, serv = service_ctor, fibers = [], op_open = [], tids = [], sent_acts = []\<rparr>"

fun is_end :: "fiber_pc \<Rightarrow> bool" where
  "is_end (P_end _) = True"
| "is_end _ = False"

fun is_ws_accept :: "fiber_pc \<Rightarrow> bool" where
  "is_ws_accept (P_ws_accept _ _) = True"
| "is_ws_accept _ = False"

section \<open>Steps\<close>

text \<open>
  The accept handler with \<open>start\<close>: the connection's task goes to the service; a service whose channel is closed destroys
  the task, which never runs then.
\<close>

definition sys_accept :: "http_sys \<Rightarrow> http_sys" where
  "sys_accept s =
     (if accept_state (srv s) = Completed True then
        (case execute (serv s) of
           (i, v) \<Rightarrow>
             s\<lparr>srv := accept_handler True (srv s), serv := v,
               fibers := fibers s @ [if tasks_closed (serv s) then P_end False else P_start],
               op_open := op_open s @ [True], tids := tids s @ [i], sent_acts := sent_acts s @ [[]]\<rparr>)
      else s\<lparr>srv := accept_handler True (srv s)\<rparr>)"

text \<open>
  Which wake-ups are possible: the one that fits the operation, and a write or a websocket handshake that was started on a closed
  socket cannot succeed. (A read may: a whole request can be in the buffer already.)
\<close>

fun can_wake :: "bool \<Rightarrow> wake \<Rightarrow> fiber_pc \<Rightarrow> bool" where
  "can_wake started w (P_end _) \<longleftrightarrow> False"
| "can_wake started w (P_read _ _) \<longleftrightarrow> w \<noteq> Done"
| "can_wake started (Got _ _ _) _ \<longleftrightarrow> False"
| "can_wake started (Failed _) _ \<longleftrightarrow> True"
| "can_wake started Done (P_write _ _) \<longleftrightarrow> started"
| "can_wake started Done (P_ws_accept _ _) \<longleftrightarrow> started"
| "can_wake started Done (P_413 _) \<longleftrightarrow> started"
| "can_wake started Done _ \<longleftrightarrow> True"

text \<open>
  A fiber is resumed and runs to its next suspension: a websocket takes over the socket before its handshake, the TLS shutdown
  closes the socket, and the task's promise is fulfilled at the end.
\<close>

definition conn_upgrade :: "nat \<Rightarrow> http_server \<Rightarrow> http_server" where
  "conn_upgrade c s = s\<lparr>conns := (conns s)[c := (conns s ! c)\<lparr>is_websocket := True, ws_alive := True\<rparr>]\<rparr>"

definition conn_shut :: "nat \<Rightarrow> http_server \<Rightarrow> http_server" where
  "conn_shut c s = s\<lparr>conns := (conns s)[c := (conns s ! c)\<lparr>ws_alive := False, c_open := False\<rparr>]\<rparr>"

definition conn_gone :: "nat \<Rightarrow> http_server \<Rightarrow> http_server" where
  "conn_gone c s = s\<lparr>conns := (conns s)[c := (conns s ! c)\<lparr>c_alive := False\<rparr>]\<rparr>"

definition sys_wake :: "'r conn_env \<Rightarrow> (nat \<Rightarrow> http_req) \<Rightarrow> bool \<Rightarrow> nat \<Rightarrow> wake \<Rightarrow> http_sys \<Rightarrow> http_sys" where
  "sys_wake env q0 tls c w s =
     (let pc = fibers s ! c;
          pc' = fst (fiber_step env (q0 c) w pc);
          srv' = (if is_ws_accept pc' then conn_upgrade c (srv s)
                  else if pc = P_shutdown \<and> tls then conn_shut c (srv s) else srv s)
      in s\<lparr>srv := srv',
           serv := (if is_end pc' then task_finish (User (tids s ! c)) (Inr ()) (serv s) else serv s),
           fibers := (fibers s)[c := pc'],
           op_open := (op_open s)[c := c_open (conns srv' ! c)],
           sent_acts := (sent_acts s)[c := sent_acts s ! c @ snd (fiber_step env (q0 c) w pc)]\<rparr>)"

text \<open>
  The steps, labelled with the connection whose fiber runs: a client connects, the accept handler runs, the server is closed, the last
  reference to the object of an ended connection or of its websocket goes, the service does anything that is not
  a connection's own work, or a fiber runs.
\<close>

inductive sys_step ::
  "'r conn_env \<Rightarrow> (nat \<Rightarrow> http_req) \<Rightarrow> bool \<Rightarrow> bool \<Rightarrow> nat option \<Rightarrow> http_sys \<Rightarrow> http_sys \<Rightarrow> bool"
for env q0 tls soc where
  y_incoming: "accept_state (srv s) = Accepting \<Longrightarrow>
    sys_step env q0 tls soc None s (s\<lparr>srv := (srv s)\<lparr>accept_state := Completed True\<rparr>\<rparr>)"
| y_accept: "accept_state (srv s) = Completed b \<Longrightarrow> sys_step env q0 tls soc None s (sys_accept s)"
| y_close: "sys_step env q0 tls soc None s (s\<lparr>srv := server_close (srv s)\<rparr>)"
| y_gone: "c < length (fibers s) \<Longrightarrow> is_end (fibers s ! c) \<Longrightarrow>
    sys_step env q0 tls soc None s (s\<lparr>srv := conn_gone c (srv s)\<rparr>)"
| y_ws_gone: "c < length (fibers s) \<Longrightarrow> is_end (fibers s ! c) \<Longrightarrow>
    sys_step env q0 tls soc None s (s\<lparr>srv := conn_shut c (srv s)\<rparr>)"
| y_service: "svc_step soc (serv s) v \<Longrightarrow>
    \<forall>i \<in> set (tids s). User i \<in> set (running (serv s)) \<longrightarrow> User i \<in> set (running v) \<Longrightarrow>
    sys_step env q0 tls soc None s (s\<lparr>serv := v\<rparr>)"
| y_wake: "c < length (fibers s) \<Longrightarrow> User (tids s ! c) \<in> set (running (serv s)) \<Longrightarrow>
    can_wake (op_open s ! c) w (fibers s ! c) \<Longrightarrow> sys_step env q0 tls soc (Some c) s (sys_wake env q0 tls c w s)"

inductive sys_run ::
  "'r conn_env \<Rightarrow> (nat \<Rightarrow> http_req) \<Rightarrow> bool \<Rightarrow> bool \<Rightarrow> nat option list \<Rightarrow> http_sys \<Rightarrow> http_sys \<Rightarrow> bool"
for env q0 tls soc where
  run_nil: "sys_run env q0 tls soc [] s s"
| run_snoc: "sys_run env q0 tls soc ls s s' \<Longrightarrow> sys_step env q0 tls soc l s' s'' \<Longrightarrow> sys_run env q0 tls soc (ls @ [l]) s s''"

section \<open>The invariant\<close>

definition pending :: "'v svc \<Rightarrow> task set" where
  "pending v = set (execute_tasks v) \<union> set (running v)"

definition sys_shape :: "http_sys \<Rightarrow> bool" where
  "sys_shape s \<longleftrightarrow> length (fibers s) = length (conns (srv s)) \<and> length (tids s) = length (conns (srv s)) \<and>
     length (op_open s) = length (conns (srv s)) \<and> length (sent_acts s) = length (conns (srv s)) \<and>
     distinct (tids s) \<and> (\<forall>i \<in> set (tids s). i < next_id (serv s))"

definition sys_live :: "http_sys \<Rightarrow> bool" where
  "sys_live s \<longleftrightarrow> (\<forall>c < length (fibers s).
     (is_end (fibers s ! c) \<longleftrightarrow> User (tids s ! c) \<notin> pending (serv s)) \<and>
     (\<not> is_end (fibers s ! c) \<longrightarrow> c_alive (conns (srv s) ! c)))"

text \<open>A fiber whose task is still queued has not run.\<close>

definition sys_queued :: "http_sys \<Rightarrow> bool" where
  "sys_queued s \<longleftrightarrow> (\<forall>c < length (fibers s). User (tids s ! c) \<in> set (execute_tasks (serv s)) \<longrightarrow> fibers s ! c = P_start)"

definition sys_acts :: "'r conn_env \<Rightarrow> (nat \<Rightarrow> http_req) \<Rightarrow> http_sys \<Rightarrow> bool" where
  "sys_acts env q0 s \<longleftrightarrow> (\<forall>c < length (fibers s). so_far env (q0 c) (fibers s ! c) (sent_acts s ! c))"

definition sys_inv :: "'r conn_env \<Rightarrow> (nat \<Rightarrow> http_req) \<Rightarrow> bool \<Rightarrow> http_sys \<Rightarrow> bool" where
  "sys_inv env q0 soc s \<longleftrightarrow> sys_shape s \<and> sys_live s \<and> sys_queued s \<and> sys_acts env q0 s \<and>
     server_step\<^sup>*\<^sup>* server_init (srv s) \<and> reachable soc (serv s)"

lemma conn_steps:
  assumes "c < length (conns s)"
  shows "c_alive (conns s ! c) \<Longrightarrow> server_step s (conn_upgrade c s)" "server_step s (conn_shut c s)" "server_step s (conn_gone c s)"
  using assms by (simp_all add: conn_upgrade_def conn_shut_def conn_gone_def ss_upgrade ss_ws_end ss_end)

text \<open>What a step of the service leaves of the tasks already there.\<close>

lemma svc_pending_step:
  assumes "svc_step soc v v'" and "svc_inv v" and "i < next_id v"
    and "User i \<in> set (running v) \<longrightarrow> User i \<in> set (running v')"
  shows "User i \<in> pending v' \<longleftrightarrow> User i \<in> pending v"
  using assms(1,3,4)
proof (cases rule: svc_step.cases)
  case step_test
  then show ?thesis by (simp add: dispatcher_test_def pending_def)
next
  case step_pop
  then show ?thesis by (auto simp: dispatcher_pop_def pending_def split: list.splits if_splits)
next
  case (step_finish t r)
  then show ?thesis using assms(4) by (auto simp: task_finish_def pending_def dest: notin_set_remove1)
next
  case (step_main now)
  from run_turn_frame [OF step_main] show ?thesis by (simp add: pending_def)
qed (auto simp: push_task_def execute_def stop_def fiber_exit_def pending_def Let_def)

lemma svc_queued_step:
  assumes "svc_step soc v v'" and "i < next_id v" and "User i \<in> set (execute_tasks v')"
  shows "User i \<in> set (execute_tasks v)"
  using assms
proof (cases rule: svc_step.cases)
  case (step_main now)
  from run_turn_frame [OF step_main] assms(3) show ?thesis by simp
qed (auto simp: push_task_def execute_def stop_def fiber_exit_def task_finish_def dispatcher_test_def dispatcher_pop_def Let_def
    split: list.splits if_splits)

lemma svc_next_id_step: "svc_step soc v v' \<Longrightarrow> next_id v \<le> next_id v'"
  by (erule svc_stepE)
    (auto simp: push_task_def execute_def stop_def fiber_exit_def task_finish_def dispatcher_test_def dispatcher_pop_def
      run_turn_def Let_def split: list.splits if_splits phase.splits)

lemma sys_inv_init: "sys_inv env q0 soc sys_init"
  by (simp add: sys_inv_def sys_init_def sys_shape_def sys_live_def sys_queued_def sys_acts_def server_init_def reach_init)

text \<open>Steps of the server alone, and of the service alone.\<close>

lemma sys_inv_srv:
  assumes "sys_inv env q0 soc s" and "server_step (srv s) v" and "length (conns v) = length (conns (srv s))"
    and "\<And>c. c < length (fibers s) \<Longrightarrow> \<not> is_end (fibers s ! c) \<Longrightarrow> c_alive (conns (srv s) ! c) \<Longrightarrow> c_alive (conns v ! c)"
  shows "sys_inv env q0 soc (s\<lparr>srv := v\<rparr>)"
  using assms unfolding sys_inv_def sys_shape_def sys_live_def sys_queued_def sys_acts_def by (auto intro: rtranclp.rtrancl_into_rtrancl)

lemma sys_inv_service:
  assumes "sys_inv env q0 soc s" and "svc_step soc (serv s) v"
    and "\<forall>i \<in> set (tids s). User i \<in> set (running (serv s)) \<longrightarrow> User i \<in> set (running v)"
  shows "sys_inv env q0 soc (s\<lparr>serv := v\<rparr>)"
proof -
  have shape: "sys_shape s" and live: "sys_live s" and r: "reachable soc (serv s)" using assms(1) by (simp_all add: sys_inv_def)
  have "User (tids s ! c) \<in> pending v \<longleftrightarrow> User (tids s ! c) \<in> pending (serv s)" if "c < length (fibers s)" for c
  proof (rule svc_pending_step [OF assms(2)])
    have mem: "tids s ! c \<in> set (tids s)" using that shape by (simp add: sys_shape_def)
    show "svc_inv (serv s)" using reachable_inv [OF r] ..
    show "tids s ! c < next_id (serv s)" using mem shape by (simp add: sys_shape_def)
    show "User (tids s ! c) \<in> set (running (serv s)) \<longrightarrow> User (tids s ! c) \<in> set (running v)" using mem assms(3) by blast
  qed
  then have "sys_live (s\<lparr>serv := v\<rparr>)" using live by (simp add: sys_live_def)
  moreover have "sys_shape (s\<lparr>serv := v\<rparr>)"
    using shape svc_next_id_step [OF assms(2)] by (fastforce simp: sys_shape_def)
  moreover have "reachable soc v" by (rule reach_step [OF r assms(2)])
  moreover have "sys_queued (s\<lparr>serv := v\<rparr>)"
    using assms(1) shape svc_queued_step [OF assms(2)] by (simp add: sys_inv_def sys_queued_def sys_shape_def)
  ultimately show ?thesis using assms(1) by (simp add: sys_inv_def sys_acts_def)
qed

lemma accept_completed:
  assumes "accept_state s = Completed True"
  shows "conns (accept_handler True s) = conns s @ [\<lparr>c_alive = True, is_websocket = False, ws_alive = False, c_open = True\<rparr>]"
  using assms by (simp add: accept_handler_def register_connection_def start_accept_def Let_def)

lemma accept_failed:
  "accept_state s \<noteq> Completed True \<Longrightarrow> conns (accept_handler sa s) = conns s"
  by (auto simp: accept_handler_def split: accept_op.splits bool.splits)

lemma execute_pending:
  assumes "svc_inv v"
  shows "User i \<in> pending (snd (execute v)) \<longleftrightarrow> User i \<in> pending v \<or> i = next_id v \<and> \<not> tasks_closed v"
    and "User (next_id v) \<notin> pending v"
proof -
  show "User i \<in> pending (snd (execute v)) \<longleftrightarrow> User i \<in> pending v \<or> i = next_id v \<and> \<not> tasks_closed v"
    by (auto simp: execute_def push_task_def pending_def Let_def)
  show "User (next_id v) \<notin> pending v"
    using svc_invD(4) [OF assms, of "next_id v"] by (force simp: pending_def pending_ids_def)
qed

lemma sys_inv_accept:
  assumes inv: "sys_inv env q0 soc s" and acc: "accept_state (srv s) = Completed b"
  shows "sys_inv env q0 soc (sys_accept s)"
proof (cases "accept_state (srv s) = Completed True")
  case False
  then show ?thesis
    using sys_inv_srv [OF inv ss_handler [OF acc, of True]] by (simp add: sys_accept_def accept_failed)
next
  case True
  let ?v = "snd (execute (serv s))" and ?s = "sys_accept s"
  have shape: "sys_shape s" and live: "sys_live s" and acts: "sys_acts env q0 s" and r: "reachable soc (serv s)"
    and srv: "server_step\<^sup>*\<^sup>* server_init (srv s)" using inv by (simp_all add: sys_inv_def)
  have s: "?s = s\<lparr>srv := accept_handler True (srv s), serv := ?v,
      fibers := fibers s @ [if tasks_closed (serv s) then P_end False else P_start],
      op_open := op_open s @ [True], tids := tids s @ [next_id (serv s)], sent_acts := sent_acts s @ [[]]\<rparr>"
    using True by (simp add: sys_accept_def execute_def)
  have "svc_inv (serv s)" using reachable_inv [OF r] ..
  note pend = execute_pending [OF this]
  have fresh: "tids s ! c \<noteq> next_id (serv s)" if "c < length (conns (srv s))" for c
    using that shape unfolding sys_shape_def by (metis nth_mem less_irrefl)
  then have "sys_live ?s"
    using live shape pend unfolding s sys_live_def sys_shape_def
    by (auto simp: nth_append less_Suc_eq accept_completed [OF True])
  moreover have "User i \<in> set (execute_tasks ?v) \<longleftrightarrow> User i \<in> set (execute_tasks (serv s)) \<or> i = next_id (serv s) \<and> \<not> tasks_closed (serv s)" for i
    by (auto simp: execute_def push_task_def Let_def)
  then have "sys_queued ?s"
    using inv shape pend(2) fresh unfolding s sys_inv_def sys_queued_def sys_shape_def
    by (auto simp: nth_append less_Suc_eq pending_def)
  moreover have "next_id ?v = Suc (next_id (serv s))" by (simp add: execute_def push_task_def Let_def)
  then have "sys_shape ?s" using shape unfolding s sys_shape_def by (auto simp: accept_completed [OF True])
  moreover have "sys_acts env q0 ?s"
    using acts shape unfolding s sys_acts_def sys_shape_def by (auto simp: nth_append less_Suc_eq so_far_start)
  moreover have "reachable soc (serv ?s)" using reach_step [OF r step_execute] unfolding s by simp
  moreover have "server_step\<^sup>*\<^sup>* server_init (srv ?s)"
    using rtranclp.rtrancl_into_rtrancl [OF srv ss_handler [OF acc, of True]] unfolding s by simp
  ultimately show ?thesis by (simp add: sys_inv_def)
qed

lemma sys_wake_srv:
  assumes "c < length (conns (srv s))" and "c_alive (conns (srv s) ! c)"
  shows "server_step\<^sup>*\<^sup>* (srv s) (srv (sys_wake env q0 tls c w s))"
    and "length (conns (srv (sys_wake env q0 tls c w s))) = length (conns (srv s))"
    and "c_alive (conns (srv (sys_wake env q0 tls c w s)) ! d) = c_alive (conns (srv s) ! d)"
proof -
  show "server_step\<^sup>*\<^sup>* (srv s) (srv (sys_wake env q0 tls c w s))"
    using conn_steps [OF assms(1)] assms(2) by (auto simp: sys_wake_def Let_def)
  show "length (conns (srv (sys_wake env q0 tls c w s))) = length (conns (srv s))"
    by (simp add: sys_wake_def Let_def conn_upgrade_def conn_shut_def)
  show "c_alive (conns (srv (sys_wake env q0 tls c w s)) ! d) = c_alive (conns (srv s) ! d)"
    using assms(1) by (cases "c = d") (simp_all add: sys_wake_def Let_def conn_upgrade_def conn_shut_def)
qed

lemma finish_pending:
  assumes "svc_inv v" and "User i \<in> set (running v)"
  shows "User j \<in> pending (task_finish (User i) r v) \<longleftrightarrow> User j \<in> pending v \<and> j \<noteq> i"
proof -
  have d: "distinct (pending_ids v)" by (rule svc_invD(3) [OF assms(1)])
  then have "distinct (running v)" by (auto simp: pending_ids_def distinct_map)
  moreover have "User i \<notin> set (execute_tasks v)" using d assms(2) by (force simp: pending_ids_def)
  ultimately show ?thesis by (auto simp: task_finish_def pending_def)
qed

lemma sys_inv_wake:
  assumes inv: "sys_inv env q0 soc s" and c: "c < length (fibers s)" and run: "User (tids s ! c) \<in> set (running (serv s))"
  shows "sys_inv env q0 soc (sys_wake env q0 tls c w s)"
proof -
  let ?s = "sys_wake env q0 tls c w s" and ?pc = "fst (fiber_step env (q0 c) w (fibers s ! c))"
  have shape: "sys_shape s" and live: "sys_live s" and acts: "sys_acts env q0 s" and r: "reachable soc (serv s)"
    and srv: "server_step\<^sup>*\<^sup>* server_init (srv s)" using inv by (simp_all add: sys_inv_def)
  have len: "length (fibers s) = length (conns (srv s))" "length (tids s) = length (conns (srv s))"
    "length (sent_acts s) = length (conns (srv s))" "distinct (tids s)" using shape by (simp_all add: sys_shape_def)
  have "User (tids s ! c) \<in> pending (serv s)" using run by (simp add: pending_def)
  with live c have al: "c_alive (conns (srv s) ! c)" and "\<not> is_end (fibers s ! c)" by (auto simp: sys_live_def)
  have cc: "c < length (conns (srv s))" using c len by simp
  note w = sys_wake_srv [OF cc al, of env q0 tls w]
  have parts: "fibers ?s = (fibers s)[c := ?pc]" "tids ?s = tids s"
    "sent_acts ?s = (sent_acts s)[c := sent_acts s ! c @ snd (fiber_step env (q0 c) w (fibers s ! c))]"
    "serv ?s = (if is_end ?pc then task_finish (User (tids s ! c)) (Inr ()) (serv s) else serv s)"
    by (simp_all add: sys_wake_def Let_def)
  have "User (tids s ! d) \<in> pending (serv ?s) \<longleftrightarrow> User (tids s ! d) \<in> pending (serv s) \<and> (d = c \<longrightarrow> \<not> is_end ?pc)"
    if "d < length (fibers s)" for d
    using that c len finish_pending [OF conjunct1 [OF reachable_inv [OF r]] run] unfolding parts
    by (simp add: nth_eq_iff_index_eq)
  then have "sys_live ?s" using live c \<open>\<not> is_end (fibers s ! c)\<close> unfolding sys_live_def parts w(3)
    by (auto simp: nth_list_update)
  moreover have "User (tids s ! c) \<notin> set (execute_tasks (serv s))"
    using svc_invD(3) [OF conjunct1 [OF reachable_inv [OF r]]] run by (force simp: pending_ids_def)
  then have "sys_queued ?s" using inv c unfolding sys_inv_def sys_queued_def parts
    by (auto simp: nth_list_update task_finish_def)
  moreover have "sys_shape ?s" using shape w(2) unfolding sys_shape_def parts
    by (auto simp: sys_wake_def Let_def task_finish_def)
  moreover have "sys_acts env q0 ?s" using acts c len unfolding sys_acts_def parts
    by (auto simp: nth_list_update intro: so_far_step)
  moreover have "reachable soc (serv ?s)" using r reach_step [OF r step_finish [OF run]] unfolding parts by simp
  moreover have "server_step\<^sup>*\<^sup>* server_init (srv ?s)" using srv w(1) by (rule rtranclp_trans)
  ultimately show ?thesis by (simp add: sys_inv_def)
qed

lemma sys_inv_step:
  assumes "sys_step env q0 tls soc l s s'" and inv: "sys_inv env q0 soc s"
  shows "sys_inv env q0 soc s'"
  using assms(1)
proof cases
  case y_incoming
  then show ?thesis using sys_inv_srv [OF inv ss_incoming] by simp
next
  case (y_accept b)
  then show ?thesis using sys_inv_accept [OF inv] by simp
next
  case y_close
  have "c_alive (conns (server_close t) ! c) = c_alive (conns t ! c)" if "c < length (conns t)" for t c
    using that by (simp add: server_close_def close_connection_def Let_def)
  moreover have "length (fibers s) = length (conns (srv s))" using inv by (simp add: sys_inv_def sys_shape_def)
  ultimately show ?thesis
    using y_close sys_inv_srv [OF inv ss_close] by (simp add: server_close_def Let_def)
next
  case (y_gone c)
  have c: "c < length (conns (srv s))" using y_gone inv by (simp add: sys_inv_def sys_shape_def)
  have "c_alive (conns (conn_gone c (srv s)) ! d)" if "d < length (fibers s)" "\<not> is_end (fibers s ! d)" "c_alive (conns (srv s) ! d)" for d
    using that y_gone by (cases "c = d") (auto simp: conn_gone_def)
  then show ?thesis using y_gone sys_inv_srv [OF inv conn_steps(3) [OF c]] by (simp add: conn_gone_def)
next
  case (y_ws_gone c)
  have c: "c < length (conns (srv s))" using y_ws_gone inv by (simp add: sys_inv_def sys_shape_def)
  have "c_alive (conns (conn_shut c (srv s)) ! d)" if "c_alive (conns (srv s) ! d)" for d
    using that c by (cases "c = d") (auto simp: conn_shut_def)
  then show ?thesis using y_ws_gone sys_inv_srv [OF inv conn_steps(2) [OF c]] by (simp add: conn_shut_def)
next
  case (y_service v)
  then show ?thesis using sys_inv_service [OF inv] by simp
next
  case (y_wake c w)
  then show ?thesis using sys_inv_wake [OF inv] by simp
qed

lemma sys_inv_run: "sys_run env q0 tls soc ls s s' \<Longrightarrow> sys_inv env q0 soc s \<Longrightarrow> sys_inv env q0 soc s'"
  by (induction rule: sys_run.induct) (auto intro: sys_inv_step)

section \<open>After \<open>close\<close>\<close>

text \<open>How many more times a fiber whose socket is closed can run; \<open>started\<close> as in \<open>can_wake\<close>.\<close>

fun steps_left :: "bool \<Rightarrow> fiber_pc \<Rightarrow> nat" where
  "steps_left started P_start = 8"
| "steps_left started P_handshake = 7"
| "steps_left started (P_read _ _) = 5"
| "steps_left started (P_write _ _) = (if started then 6 else 4)"
| "steps_left started (P_413 _) = 3"
| "steps_left started (P_ws_accept _ _) = 2"
| "steps_left started P_ws_handler = 1"
| "steps_left started P_shutdown = 1"
| "steps_left started (P_end _) = 0"

lemma steps_left_throw: "steps_left started (on_throw env e safe) \<le> 3"
  by (simp add: on_throw_def)

lemma steps_left_request: "steps_left False (on_request env q rest alive r) \<le> 4"
proof -
  have "steps_left False (on_upgrade env alive r') \<le> 4" for r'
    by (auto simp: on_upgrade_def on_throw_def split: sum.split route_error.split)
  then show ?thesis by (simp add: on_request_def Let_def)
qed

lemma steps_left_decreases:
  assumes "can_wake started w pc"
  shows "steps_left False (fst (fiber_step env q0 w pc)) < steps_left started pc"
proof (cases pc)
  case (P_read r safe)
  with assms show ?thesis
    by (cases w) (auto intro: le_less_trans [OF steps_left_throw] le_less_trans [OF steps_left_request])
next
  case (P_write r res)
  with assms show ?thesis
    by (cases w) (auto simp: next_request_def intro: le_less_trans [OF steps_left_throw])
qed (use assms in \<open>cases w; auto\<close>)+

definition drained_measure :: "http_sys \<Rightarrow> nat" where
  "drained_measure s = (\<Sum>c < length (fibers s). steps_left (op_open s ! c) (fibers s ! c))"

text \<open>The state after \<open>close\<close>: no connection is added, and those with a fiber have a closed socket.\<close>

definition closed_sys :: "http_sys \<Rightarrow> bool" where
  "closed_sys s \<longleftrightarrow> accepts_no_more (srv s) \<and>
     (\<forall>c < length (fibers s). \<not> is_end (fibers s ! c) \<longrightarrow> \<not> c_open (conns (srv s) ! c))"

lemma closed_wake:
  assumes "closed_sys s" and "sys_shape s" and "sys_live s" and c: "c < length (fibers s)" and "\<not> is_end (fibers s ! c)"
    and w: "can_wake (op_open s ! c) w (fibers s ! c)"
  shows "closed_sys (sys_wake env q0 tls c w s)" and "drained_measure (sys_wake env q0 tls c w s) < drained_measure s"
proof -
  let ?s = "sys_wake env q0 tls c w s" and ?pc = "fst (fiber_step env (q0 c) w (fibers s ! c))"
  have len: "length (fibers s) = length (conns (srv s))" "length (op_open s) = length (conns (srv s))"
    using assms(2) by (simp_all add: sys_shape_def)
  have closed: "\<not> c_open (conns (srv ?s) ! d)" if "d < length (fibers s)" "\<not> is_end (fibers s ! d)" for d
    using that assms(1) c len unfolding sys_wake_def closed_sys_def
    by (cases "c = d") (auto simp: Let_def conn_upgrade_def conn_shut_def)
  have fib: "fibers ?s = (fibers s)[c := ?pc]" by (simp add: sys_wake_def Let_def)
  have op: "op_open ?s = (op_open s)[c := False]"
    using closed [OF c assms(5)] by (simp add: sys_wake_def Let_def)
  have "accepts_no_more (srv ?s)" using assms(1)
    by (simp add: closed_sys_def accepts_no_more_def sys_wake_def Let_def conn_upgrade_def conn_shut_def)
  then show "closed_sys ?s" using closed assms(5) c unfolding closed_sys_def fib by (auto simp: nth_list_update)
  have "drained_measure ?s = (\<Sum>d < length (fibers s). if d = c then steps_left False ?pc else steps_left (op_open s ! d) (fibers s ! d))"
    unfolding drained_measure_def fib op using c len by (intro sum.cong) auto
  also have "\<dots> < drained_measure s" unfolding drained_measure_def
    using c steps_left_decreases [OF w, of env "q0 c"]
    by (intro sum_strict_mono_ex1) (auto intro!: bexI [of _ c] simp: less_imp_le)
  finally show "drained_measure ?s < drained_measure s" .
qed

lemma no_more_accept: "accepts_no_more s \<Longrightarrow> conns (accept_handler sa s) = conns s \<and> accepts_no_more (accept_handler sa s)"
  by (auto simp: accepts_no_more_def accept_handler_def)

lemma closed_step:
  assumes "sys_step env q0 tls soc l s s'" and inv: "sys_inv env q0 soc s" and cl: "closed_sys s"
  shows "closed_sys s' \<and> drained_measure s' + (if l = None then 0 else 1) \<le> drained_measure s"
proof -
  have len: "length (fibers s) = length (conns (srv s))" using inv by (simp add: sys_inv_def sys_shape_def)
  from assms(1) show ?thesis
  proof cases
    case y_incoming
    then show ?thesis using cl by (simp add: closed_sys_def accepts_no_more_def)
  next
    case (y_accept b)
    have "accept_state (srv s) \<noteq> Completed True" using cl by (auto simp: closed_sys_def accepts_no_more_def)
    then show ?thesis
      using y_accept cl no_more_accept [of "srv s" True] by (simp add: sys_accept_def closed_sys_def drained_measure_def)
  next
    case y_close
    with cl len show ?thesis
      by (auto simp: closed_sys_def accepts_no_more_def server_close_def close_connection_def drained_measure_def Let_def)
  next
    case (y_gone c)
    then show ?thesis using cl len by (auto simp: closed_sys_def accepts_no_more_def conn_gone_def drained_measure_def nth_list_update)
  next
    case (y_ws_gone c)
    then show ?thesis using cl len by (auto simp: closed_sys_def accepts_no_more_def conn_shut_def drained_measure_def nth_list_update)
  next
    case (y_service v)
    then show ?thesis using cl by (simp add: closed_sys_def drained_measure_def)
  next
    case (y_wake c w)
    then have "\<not> is_end (fibers s ! c)" by (cases "fibers s ! c") auto
    with y_wake show ?thesis using closed_wake [OF cl] inv by (auto simp: sys_inv_def Suc_le_eq)
  qed
qed

lemma closed_run:
  assumes "sys_run env q0 tls soc ls s s'" and "sys_inv env q0 soc s" and "closed_sys s"
  shows "closed_sys s' \<and> drained_measure s' + length (filter (\<lambda>l. l \<noteq> None) ls) \<le> drained_measure s"
  using assms
proof (induction rule: sys_run.induct)
  case (run_snoc ls s s' l s'')
  have "sys_inv env q0 soc s'" by (rule sys_inv_run [OF run_snoc.hyps(1) run_snoc.prems(1)])
  from closed_step [OF run_snoc.hyps(2) this] run_snoc.IH [OF run_snoc.prems] show ?case by (auto split: if_splits)
qed simp

lemma close_closes:
  assumes "sys_inv env q0 soc s" and "accept_state (srv s) \<noteq> Completed True"
  shows "closed_sys (s\<lparr>srv := server_close (srv s)\<rparr>)"
proof -
  have inv: "server_inv (srv s)" using assms(1) server_inv_run by (simp add: sys_inv_def)
  have len: "length (fibers s) = length (conns (srv s))" using assms(1) by (simp add: sys_inv_def sys_shape_def)
  have "\<not> c_open (conns (server_close (srv s)) ! c)" if "c < length (fibers s)" "\<not> is_end (fibers s ! c)" for c
  proof -
    have "c_alive (conns (srv s) ! c)" using that assms(1) by (simp add: sys_inv_def sys_live_def)
    then show ?thesis using that len inv
      by (auto simp: server_inv_def server_close_def close_connection_def expired_def Let_def)
  qed
  moreover have "accepts_no_more (server_close (srv s))"
    using assms(2) by (cases "accept_state (srv s)") (auto simp: accepts_no_more_def server_close_def Let_def)
  ultimately show ?thesis by (simp add: closed_sys_def)
qed

lemma measure_bound: "drained_measure s \<le> 8 * length (fibers s)"
proof -
  have "steps_left b pc \<le> 8" for b pc by (cases pc) auto
  then have "drained_measure s \<le> (\<Sum>c < length (fibers s). 8)" unfolding drained_measure_def by (intro sum_mono)
  then show ?thesis by simp
qed

section \<open>An example\<close>

text \<open>A client connects to the example server, its connection is dispatched and a request is answered.\<close>

definition demo_accepted :: http_sys where
  "demo_accepted = sys_accept (sys_init\<lparr>srv := (srv sys_init)\<lparr>accept_state := Completed True\<rparr>\<rparr>)"

definition demo_tested :: http_sys where
  "demo_tested = demo_accepted\<lparr>serv := dispatcher_test (serv demo_accepted)\<rparr>"

definition demo_running :: http_sys where
  "demo_running = demo_tested\<lparr>serv := the (dispatcher_pop (serv demo_tested))\<rparr>"

abbreviation demo_q0 :: "nat \<Rightarrow> http_req" where
  "demo_q0 \<equiv> \<lambda>_. demo_req []"

definition demo_wakes :: "wake list \<Rightarrow> http_sys" where
  "demo_wakes ws = fold (sys_wake demo_env demo_q0 False 0) ws demo_running"

lemma demo_run_running: "\<exists>ls. sys_run demo_env demo_q0 False False ls sys_init demo_running"
proof -
  let ?s = "sys_init\<lparr>srv := (srv sys_init)\<lparr>accept_state := Completed True\<rparr>\<rparr>"
  have "sys_step demo_env demo_q0 False False None sys_init ?s" by (rule y_incoming) code_simp
  moreover have "sys_step demo_env demo_q0 False False None ?s demo_accepted"
    unfolding demo_accepted_def by (rule y_accept [where b = True]) simp
  moreover have "sys_step demo_env demo_q0 False False None demo_accepted demo_tested"
    unfolding demo_tested_def by (rule y_service, rule step_test) code_simp+
  moreover have "sys_step demo_env demo_q0 False False None demo_tested demo_running"
    unfolding demo_running_def
  proof (rule y_service)
    have "dispatcher_pop (serv demo_tested) \<noteq> None" "disp (serv demo_tested) = D_pop" by code_simp+
    then show "svc_step False (serv demo_tested) (the (dispatcher_pop (serv demo_tested)))" by (intro step_pop) auto
  qed code_simp
  ultimately show ?thesis by (meson run_nil run_snoc)
qed

lemma demo_run_wake:
  assumes "\<exists>ls. sys_run demo_env demo_q0 False False ls sys_init (demo_wakes ws)"
    and "0 < length (fibers (demo_wakes ws))" "User (tids (demo_wakes ws) ! 0) \<in> set (running (serv (demo_wakes ws)))"
    and "can_wake (op_open (demo_wakes ws) ! 0) w (fibers (demo_wakes ws) ! 0)"
  shows "\<exists>ls. sys_run demo_env demo_q0 False False ls sys_init (demo_wakes (ws @ [w]))"
proof -
  have "demo_wakes (ws @ [w]) = sys_wake demo_env demo_q0 False 0 w (demo_wakes ws)" by (simp add: demo_wakes_def)
  with assms(1) y_wake [OF assms(2-4)] show ?thesis by (metis run_snoc)
qed

lemma demo_run_answered:
  "\<exists>ls. sys_run demo_env demo_q0 False False ls sys_init (demo_wakes [Done, Done, Got (demo_req ''/a'') [] True, Done])"
proof -
  have "\<exists>ls. sys_run demo_env demo_q0 False False ls sys_init (demo_wakes [])"
    using demo_run_running by (simp add: demo_wakes_def)
  then have "\<exists>ls. sys_run demo_env demo_q0 False False ls sys_init (demo_wakes ([] @ [Done]))"
    by (rule demo_run_wake) code_simp+
  then have "\<exists>ls. sys_run demo_env demo_q0 False False ls sys_init (demo_wakes (([] @ [Done]) @ [Done]))"
    by (rule demo_run_wake) code_simp+
  then have "\<exists>ls. sys_run demo_env demo_q0 False False ls sys_init
      (demo_wakes ((([] @ [Done]) @ [Done]) @ [Got (demo_req ''/a'') [] True]))" by (rule demo_run_wake) code_simp+
  then have "\<exists>ls. sys_run demo_env demo_q0 False False ls sys_init
      (demo_wakes (((([] @ [Done]) @ [Done]) @ [Got (demo_req ''/a'') [] True]) @ [Done]))" by (rule demo_run_wake) code_simp+
  then show ?thesis by simp
qed

lemma demo_answered:
  "sent_acts (demo_wakes [Done, Done, Got (demo_req ''/a'') [] True, Done]) ! 0 \<noteq> []"
  "length (conns (srv (demo_wakes [Done, Done, Got (demo_req ''/a'') [] True, Done]))) = 1"
  "accept_state (srv (demo_wakes [Done, Done, Got (demo_req ''/a'') [] True, Done])) = Accepting"
  by code_simp+

section \<open>Properties\<close>







end
