(* ===== verification/Conn_Object.thy ===== *)
theory Conn_Object
  imports Http_System
begin

text \<open>
  Connection objects and how a handler reaches its connection (\<open>http_connection\<close> and \<open>http_server::get_request_connection\<close> in
  \<open>include/libasyik/http_server.hpp\<close>).
\<close>

section \<open>Construction\<close>

text \<open>Servers, TLS contexts, sockets and endpoints are named by numbers; \<open>None\<close> is a default endpoint.\<close>

record connection_object =
  co_server :: nat
  co_ssl_context :: "nat option"
  co_stream :: "nat \<times> nat option"
  co_is_websocket :: bool
  co_is_server_connection :: bool
  co_remote_endpoint :: "nat option"

text \<open>A peer that is gone already has no endpoint; the error is ignored.\<close>

definition remote_endpoint_of :: "error_code + nat \<Rightarrow> nat option" where
  "remote_endpoint_of r = (case r of Inl ec \<Rightarrow> None | Inr ep \<Rightarrow> Some ep)"

definition http_connection_plain :: "nat \<Rightarrow> nat \<Rightarrow> error_code + nat \<Rightarrow> connection_object" where
  "http_connection_plain server sock peer =
     \<lparr>co_server = server, co_ssl_context = None, co_stream = (sock, None), co_is_websocket = False,
      co_is_server_connection = True, co_remote_endpoint = remote_endpoint_of peer\<rparr>"

text \<open>The TLS stream uses the context that the connection shares with the server from now on.\<close>

definition http_connection_tls :: "nat \<Rightarrow> nat \<Rightarrow> nat \<Rightarrow> error_code + nat \<Rightarrow> connection_object" where
  "http_connection_tls server server_ssl sock peer =
     \<lparr>co_server = server, co_ssl_context = Some server_ssl, co_stream = (sock, Some server_ssl), co_is_websocket = False,
      co_is_server_connection = True, co_remote_endpoint = remote_endpoint_of peer\<rparr>"

section \<open>From a request to its connection\<close>

text \<open>The \<open>boost::any\<close> of a request: empty (a client's request), or a weak pointer to a plain or a TLS connection.\<close>

datatype any_connection = Any_empty | Any_http nat | Any_https nat

definition connection_wptr :: "bool \<Rightarrow> nat \<Rightarrow> any_connection" where
  "connection_wptr tls c = (if tls then Any_https c else Any_http c)"

datatype any_error = Bad_any_cast

text \<open>\<open>any_cast\<close> to the server's own kind of connection; \<open>None\<close> is the null pointer of an expired connection.\<close>

definition get_request_connection :: "bool \<Rightarrow> http_server \<Rightarrow> any_connection \<Rightarrow> any_error + nat option" where
  "get_request_connection tls s a =
     (case (tls, a) of
        (False, Any_http c) \<Rightarrow> Inr (if expired s c then None else Some c)
      | (True, Any_https c) \<Rightarrow> Inr (if expired s c then None else Some c)
      | _ \<Rightarrow> Inl Bad_any_cast)"

section \<open>Lemmas\<close>

text \<open>
  A handler reaches its own connection: in every state of a running server, as long as the fiber of a connection has not ended, asking
  the server for the connection of its request gives exactly that connection, never a null pointer and never another one;
  a server of the other kind refuses with an exception. After the fiber's end the answer is the connection or, once nothing holds it, null.
\<close>

lemma handler_reaches_connection:
  assumes "sys_run env q0 tls soc ls sys_init s" and "c < length (conns (srv s))"
  shows "(\<not> is_end (fibers s ! c) \<longrightarrow> get_request_connection tls (srv s) (connection_wptr tls c) = Inr (Some c)) \<and>
    get_request_connection (\<not> tls) (srv s) (connection_wptr tls c) = Inl Bad_any_cast \<and>
    get_request_connection tls (srv s) (connection_wptr tls c) \<in> {Inr (Some c), Inr None}"
proof -
  have "sys_inv env q0 soc s" by (rule sys_inv_run [OF assms(1) sys_inv_init])
  then have "\<not> is_end (fibers s ! c) \<longrightarrow> \<not> expired (srv s) c"
    using assms(2) by (simp add: sys_inv_def sys_live_def sys_shape_def expired_def)
  then show ?thesis by (auto simp: get_request_connection_def connection_wptr_def split: bool.split)
qed

end
