(* ===== verification/Completion_Token.thy ===== *)
theory Completion_Token
  imports Fiber_Future
begin

text \<open>
  How an operation is started with \<open>use_fiber_future\<close> (\<open>include/libasyik/internal/use_fiber_future.hpp\<close>,
  \<open>internal/detail/use_fiber_future_impl.hpp\<close>) and the wrappers of \<open>internal/asio_internal.hpp\<close> around the operations of Asio and
  Beast. Promises live in a store and are reached through pointers, so that several operations can be under way; a
  handler, its executor and its future share one promise.
\<close>

section \<open>The store\<close>

text \<open>
  A promise with the allocator it was made with (\<open>None\<close> is \<open>std::allocator\<close>) and whether its future was taken.
  A pointer is an index of the store.
\<close>

record ('al, 'v) cell =
  c_promise :: "'v promise"
  c_alloc :: "'al option"
  c_retrieved :: bool

type_synonym ('al, 'v) store = "('al, 'v) cell list"

definition allocate_promise :: "'al option \<Rightarrow> ('al, 'v) store \<Rightarrow> nat \<times> ('al, 'v) store" where
  "allocate_promise a st = (length st, st @ [\<lparr>c_promise = Unset, c_alloc = a, c_retrieved = False\<rparr>])"

text \<open>\<open>get_future\<close>: a second one throws \<open>future_already_retrieved\<close>, which is \<open>None\<close>.\<close>

definition get_future :: "nat \<Rightarrow> ('al, 'v) store \<Rightarrow> (nat \<times> ('al, 'v) store) option" where
  "get_future p st = (if c_retrieved (st ! p) then None else Some (p, st[p := (st ! p)\<lparr>c_retrieved := True\<rparr>]))"

section \<open>Tokens\<close>

record 'al use_fiber_future_t =
  tok_allocator :: "'al option"

definition use_fiber_future :: "'al use_fiber_future_t" where
  "use_fiber_future = \<lparr>tok_allocator = None\<rparr>"

definition get_allocator :: "'al use_fiber_future_t \<Rightarrow> 'al option" where
  "get_allocator u = tok_allocator u"

definition rebind :: "'al option \<Rightarrow> 'bl use_fiber_future_t \<Rightarrow> 'al use_fiber_future_t" where
  "rebind a u = \<lparr>tok_allocator = a\<rparr>"

text \<open>The deprecated \<open>operator[]\<close>.\<close>

definition token_index :: "'bl use_fiber_future_t \<Rightarrow> 'al option \<Rightarrow> 'al use_fiber_future_t" where
  "token_index u a = \<lparr>tok_allocator = a\<rparr>"

text \<open>\<open>use_fiber_future(f)\<close>.\<close>

record ('al, 'a, 'v) fiber_packaged_token =
  pt_function :: "'a args \<Rightarrow> exn + 'v"
  pt_allocator :: "'al option"

definition token_call :: "'al use_fiber_future_t \<Rightarrow> ('a args \<Rightarrow> exn + 'v) \<Rightarrow> ('al, 'a, 'v) fiber_packaged_token" where
  "token_call u f = \<lparr>pt_function = f, pt_allocator = tok_allocator u\<rparr>"

section \<open>Handlers\<close>

text \<open>A completion handler object: its promise, its allocator and what a call does to the promise.\<close>

record ('al, 'a, 'v) handler_object =
  h_ptr :: nat
  h_alloc :: "'al option"
  h_call :: "('a, 'v) handler"

definition promise_handler_ctor ::
  "(error_code \<Rightarrow> string) \<Rightarrow> 'al use_fiber_future_t \<Rightarrow> ('al, 'a completed) store \<Rightarrow>
     ('al, 'a, 'a completed) handler_object \<times> ('al, 'a completed) store"
where
  "promise_handler_ctor msg u st =
     (case allocate_promise (get_allocator u) st of
        (p, st') \<Rightarrow> (\<lparr>h_ptr = p, h_alloc = get_allocator u, h_call = fiber_promise_handler_call msg\<rparr>, st'))"

definition packaged_handler_ctor ::
  "('al, 'a, 'v) fiber_packaged_token \<Rightarrow> ('al, 'v) store \<Rightarrow> ('al, 'a, 'v) handler_object \<times> ('al, 'v) store"
where
  "packaged_handler_ctor t st =
     (case allocate_promise (pt_allocator t) st of
        (p, st') \<Rightarrow> (\<lparr>h_ptr = p, h_alloc = pt_allocator t, h_call = fiber_packaged_handler (pt_function t)\<rparr>, st'))"

text \<open>A call of the handler; \<open>None\<close> when it throws because the promise is satisfied.\<close>

definition call_handler :: "('al, 'a, 'v) handler_object \<Rightarrow> 'a args \<Rightarrow> ('al, 'v) store \<Rightarrow> ('al, 'v) store option" where
  "call_handler h args st =
     map_option (\<lambda>q. st[h_ptr h := (st ! h_ptr h)\<lparr>c_promise := q\<rparr>]) (h_call h args (c_promise (st ! h_ptr h)))"

section \<open>Executors\<close>

record executor =
  ex_ptr :: nat
  ex_blocking :: blocking

definition get_executor :: "('al, 'a, 'v) handler_object \<Rightarrow> executor" where
  "get_executor h = \<lparr>ex_ptr = h_ptr h, ex_blocking = Possibly\<rparr>"

definition require :: "blocking \<Rightarrow> executor \<Rightarrow> executor" where
  "require b ex = \<lparr>ex_ptr = ex_ptr ex, ex_blocking = b\<rparr>"

definition query_blocking :: "executor \<Rightarrow> blocking" where
  "query_blocking ex = ex_blocking ex"

text \<open>Only executors of the same blocking property can be compared.\<close>

definition executor_eq :: "executor \<Rightarrow> executor \<Rightarrow> bool" where
  "executor_eq a b \<longleftrightarrow> ex_ptr a = ex_ptr b"

text \<open>
  \<open>asio_handler_invoke\<close>: the function object goes through \<open>fiber_promise_function_wrapper\<close> to \<open>dispatch\<close> of the
  handler's executor, which runs it at once and gives an exception to the promise; the flag says that an exception escaped.
\<close>

definition dispatch_on :: "executor \<Rightarrow> ('al, 'a, 'v) handler_object \<Rightarrow> 'a job \<Rightarrow> ('al, 'v) store \<Rightarrow> bool \<times> ('al, 'v) store" where
  "dispatch_on ex h j st =
     (case fiber_promise_invoker (h_call h) j (c_promise (st ! ex_ptr ex)) of
        Some q \<Rightarrow> (False, st[ex_ptr ex := (st ! ex_ptr ex)\<lparr>c_promise := q\<rparr>])
      | None \<Rightarrow> (True, st))"

definition asio_handler_invoke :: "'a job \<Rightarrow> ('al, 'a, 'v) handler_object \<Rightarrow> ('al, 'v) store \<Rightarrow> bool \<times> ('al, 'v) store" where
  "asio_handler_invoke f h st = dispatch_on (get_executor h) h f st"

section \<open>Starting an operation\<close>

text \<open>
  \<open>async_result\<close>: constructed from the handler it takes the future, \<open>get\<close> gives it out. \<open>init\<close> is what the initiating function
  does with the handler (it may even complete at once).
\<close>

definition async_result_ctor :: "('al, 'a, 'v) handler_object \<Rightarrow> ('al, 'v) store \<Rightarrow> (nat \<times> ('al, 'v) store) option" where
  "async_result_ctor h st = get_future (h_ptr h) st"

definition async_result_get :: "nat \<Rightarrow> nat" where
  "async_result_get fut = fut"

definition start_operation ::
  "(('al, 'v) store \<Rightarrow> ('al, 'a, 'v) handler_object \<times> ('al, 'v) store) \<Rightarrow>
   (('al, 'a, 'v) handler_object \<Rightarrow> ('al, 'v) store \<Rightarrow> ('al, 'v) store) \<Rightarrow> ('al, 'v) store \<Rightarrow> (nat \<times> ('al, 'v) store) option"
where
  "start_operation ctor init st =
     (case ctor st of
        (h, st1) \<Rightarrow> (case async_result_ctor h st1 of
                     None \<Rightarrow> None
                   | Some (fut, st2) \<Rightarrow> Some (async_result_get fut, init h st2)))"

section \<open>The wrappers of \<open>asio_internal.hpp\<close>\<close>

datatype asio_wrapper =
    Socket_async_read | Socket_async_write | Socket_async_read_until | Socket_async_timer_wait | Socket_async_resolve
  | Socket_async_connect
  | Http_async_read_header | Http_async_read | Http_async_write
  | Ssl_async_handshake | Ssl_async_shutdown
  | Websocket_async_read | Websocket_async_read_some | Websocket_async_write | Websocket_async_accept
  | Websocket_async_handshake | Websocket_async_close

text \<open>The declared result: \<open>future<void>\<close> or a future of one value (a size, the results of a resolver, an endpoint).\<close>

datatype future_kind = Future_void | Future_size | Future_results | Future_endpoint

fun declared_future :: "asio_wrapper \<Rightarrow> future_kind" where
  "declared_future Socket_async_read = Future_size"
| "declared_future Socket_async_write = Future_size"
| "declared_future Socket_async_read_until = Future_size"
| "declared_future Socket_async_timer_wait = Future_void"
| "declared_future Socket_async_resolve = Future_results"
| "declared_future Socket_async_connect = Future_endpoint"
| "declared_future Http_async_read_header = Future_size"
| "declared_future Http_async_read = Future_size"
| "declared_future Http_async_write = Future_size"
| "declared_future Ssl_async_handshake = Future_void"
| "declared_future Ssl_async_shutdown = Future_void"
| "declared_future Websocket_async_read = Future_size"
| "declared_future Websocket_async_read_some = Future_size"
| "declared_future Websocket_async_write = Future_size"
| "declared_future Websocket_async_accept = Future_void"
| "declared_future Websocket_async_handshake = Future_void"
| "declared_future Websocket_async_close = Future_void"

text \<open>Every wrapper passes \<open>use_fiber_future\<close> to the operation it is named after, which is \<open>init\<close>.\<close>

definition asio_wrapper_call ::
  "(error_code \<Rightarrow> string) \<Rightarrow>
   (asio_wrapper \<Rightarrow> ('al, 'a, 'a completed) handler_object \<Rightarrow> ('al, 'a completed) store \<Rightarrow> ('al, 'a completed) store) \<Rightarrow>
   asio_wrapper \<Rightarrow> ('al, 'a completed) store \<Rightarrow> (nat \<times> ('al, 'a completed) store) option"
where
  "asio_wrapper_call msg init w st = start_operation (promise_handler_ctor msg use_fiber_future) (init w) st"

section \<open>Lemmas\<close>

definition future_arity :: "future_kind \<Rightarrow> nat" where
  "future_arity k = (if k = Future_void then 0 else 1)"

text \<open>What both kinds of token promise: a handler of its own on a new promise, made with the token's allocator.\<close>

locale token = completion_handler h for h :: "('a, 'v) handler" +
  fixes make :: "('al, 'v) store \<Rightarrow> ('al, 'a, 'v) handler_object \<times> ('al, 'v) store"
    and a :: "'al option"
  assumes makes: "make st = (\<lparr>h_ptr = length st, h_alloc = a, h_call = h\<rparr>, st @ [\<lparr>c_promise = Unset, c_alloc = a, c_retrieved = False\<rparr>])"
begin

lemma starts:
  "start_operation make init st =
     Some (length st, init (fst (make st)) (st @ [\<lparr>c_promise = Unset, c_alloc = a, c_retrieved = True\<rparr>]))"
  by (simp add: start_operation_def makes async_result_ctor_def async_result_get_def get_future_def)

lemma completes:
  assumes "length st < length st2" and "c_promise (st2 ! length st) = Unset"
  shows "\<exists>q. h args Unset = Some q \<and> q \<noteq> Unset \<and>
    call_handler (fst (make st)) args st2 = Some (st2[length st := (st2 ! length st)\<lparr>c_promise := q\<rparr>])"
  using fulfils [of args] assms by (auto simp: call_handler_def makes)

lemma completes_once:
  assumes "c_promise (st2 ! length st) \<noteq> Unset"
  shows "call_handler (fst (make st)) args st2 = None" "snd (asio_handler_invoke (Job_handler args) (fst (make st)) st2) = st2"
  using refuses [OF assms]
  by (simp_all add: call_handler_def makes asio_handler_invoke_def dispatch_on_def get_executor_def fiber_promise_invoker_def)

text \<open>Handlers of different operations have different executors, copies of one handler the same.\<close>

lemma executors_differ: "executor_eq (get_executor (fst (make st))) (get_executor (fst (make st'))) \<longleftrightarrow> length st = length st'"
  by (simp add: executor_eq_def get_executor_def makes)

text \<open>A step of a composed operation that throws fails the operation it belongs to, and no other.\<close>

lemma invoke_throws:
  assumes "length st < length st2" and "c_promise (st2 ! length st) = Unset"
  shows "asio_handler_invoke (Job_step (Some e)) (fst (make st)) st2 =
    (False, st2[length st := (st2 ! length st)\<lparr>c_promise := Has_exn e\<rparr>])"
  using assms by (simp add: asio_handler_invoke_def dispatch_on_def get_executor_def makes fiber_promise_invoker_def)

end

interpretation pt: token "fiber_promise_handler_call msg" "promise_handler_ctor msg u" "get_allocator u"
  by unfold_locales (simp add: promise_handler_ctor_def allocate_promise_def)

interpretation kt: token "fiber_packaged_handler (pt_function t)" "packaged_handler_ctor t" "pt_allocator t"
  by unfold_locales (simp add: packaged_handler_ctor_def allocate_promise_def)

lemma handler_result:
  assumes "length vs = future_arity k"
  shows "fiber_promise_handler_call msg (Args_ec ec vs) Unset =
    Some (if ec = Ec_none then Has_value (if k = Future_void then Void else One (hd vs)) else Has_exn (error_of_code msg ec))"
  using assms by (cases vs) (auto simp: handler_call_Unset future_arity_def split: if_splits)

section \<open>Properties\<close>

text \<open>
  C30. Every wrapper of an asynchronous operation starts it with a handler on a promise of its own and returns that promise's future
  whatever other operations are under way; when the operation completes with the values of the declared result, the future gives
  exactly these or the exception of the error code, no other operation's future changes, a second completion is
  refused, and a step of the operation that throws fails this operation's future only.
\<close>

theorem wrapped_operation_delivers:
  fixes st :: "('al, 'a completed) store"
  assumes "length st < length st2" and "c_promise (st2 ! length st) = Unset" and "length vs = future_arity (declared_future w)"
  shows "\<exists>h st3. asio_wrapper_call msg init w st =
      Some (length st, init w h (st @ [\<lparr>c_promise = Unset, c_alloc = None, c_retrieved = True\<rparr>])) \<and>
    call_handler h (Args_ec ec vs) st2 = Some st3 \<and>
    future_get (c_promise (st3 ! length st)) =
      Some (if ec \<noteq> Ec_none then Inl (Thrown (error_of_code msg ec))
            else Inr (if declared_future w = Future_void then Void else One (hd vs))) \<and>
    (\<forall>q. q \<noteq> length st \<longrightarrow> st3 ! q = st2 ! q) \<and> call_handler h args st3 = None \<and>
    asio_handler_invoke (Job_step (Some e)) h st2 = (False, st2[length st := (st2 ! length st)\<lparr>c_promise := Has_exn e\<rparr>])"
proof -
  let ?h = "fst (promise_handler_ctor msg (use_fiber_future :: 'al use_fiber_future_t) st)"
  obtain q where q: "fiber_promise_handler_call msg (Args_ec ec vs) Unset = Some q"
    and call: "call_handler ?h (Args_ec ec vs) st2 = Some (st2[length st := (st2 ! length st)\<lparr>c_promise := q\<rparr>])" (is "_ = Some ?st3")
    and "q \<noteq> Unset"
    using pt.completes [OF assms(1,2), where args = "Args_ec ec vs" and msg = msg and u = use_fiber_future] by blast
  have "asio_wrapper_call msg init w st =
      Some (length st, init w ?h (st @ [\<lparr>c_promise = Unset, c_alloc = None, c_retrieved = True\<rparr>]))"
    unfolding asio_wrapper_call_def pt.starts by (simp add: get_allocator_def use_fiber_future_def)
  moreover have "future_get (c_promise (?st3 ! length st)) =
      Some (if ec \<noteq> Ec_none then Inl (Thrown (error_of_code msg ec))
            else Inr (if declared_future w = Future_void then Void else One (hd vs)))"
    using q assms(1) handler_result [OF assms(3), of msg ec] by auto
  moreover have "call_handler ?h args ?st3 = None"
    by (rule pt.completes_once(1)) (use assms(1) \<open>q \<noteq> Unset\<close> in simp)
  moreover have "\<forall>q. q \<noteq> length st \<longrightarrow> ?st3 ! q = st2 ! q" by simp
  ultimately show ?thesis using call pt.invoke_throws [OF assms(1,2)] by blast
qed

theorem wrapped_operation_delivers_witness:
  "\<exists>h st3. call_handler h (Args_ec Ec_none [512 :: nat]) [\<lparr>c_promise = Has_value (One 7), c_alloc = None, c_retrieved = True\<rparr>,
       \<lparr>c_promise = Unset, c_alloc = (None :: unit option), c_retrieved = True\<rparr>] = Some st3 \<and>
     future_get (c_promise (st3 ! 1)) = Some (Inr (One (512 :: nat)))"
proof -
  let ?done = "\<lparr>c_promise = Has_value (One (7 :: nat)), c_alloc = (None :: unit option), c_retrieved = True\<rparr>"
  have a: "length [?done] < length [?done, \<lparr>c_promise = Unset, c_alloc = None, c_retrieved = True\<rparr>]"
    "c_promise ([?done, \<lparr>c_promise = Unset, c_alloc = None, c_retrieved = True\<rparr>] ! length [?done]) = Unset"
    "length [512 :: nat] = future_arity (declared_future Http_async_read)" by (simp_all add: future_arity_def)
  obtain h st3 where "call_handler h (Args_ec Ec_none [512 :: nat]) [?done, \<lparr>c_promise = Unset, c_alloc = None, c_retrieved = True\<rparr>] = Some st3"
    and "future_get (c_promise (st3 ! length [?done])) = Some (if Ec_none \<noteq> Ec_none then Inl (Thrown (error_of_code (\<lambda>_. []) Ec_none))
      else Inr (if declared_future Http_async_read = Future_void then Void else One (hd [512])))"
    using wrapped_operation_delivers [OF a, where msg = "\<lambda>_. []" and init = "\<lambda>_ _ st. st" and ec = Ec_none] by blast
  then show ?thesis by auto
qed

end
