(* ===== verification/Token_Compat.thy ===== *)
theory Token_Compat
  imports Completion_Token
begin

text \<open>
  The parts of \<open>internal/detail/use_fiber_future_impl.hpp\<close> that the preprocessor selects. A compiler without
  variadic templates gets copies of the completion handlers for fixed numbers of arguments, generated by the macros
  \<open>BOOST_ASIO_VARIADIC_GENERATE\<close> and \<open>BOOST_ASIO_VARIADIC_GENERATE_5\<close> of Asio; a build with
  \<open>BOOST_ASIO_NO_EXCEPTIONS\<close> gets bodies without a \<open>try\<close>; a compiler that does not deduce them gets the traits
  of the executor. The copies are compared with the variadic code of \<open>Fiber_Future\<close> and \<open>Completion_Token\<close>.
\<close>

section \<open>Builds\<close>

text \<open>
  What the configuration macros say. The generating macros are Asio's: they expand their argument for 1 up to
  \<open>b_generate\<close>, respectively \<open>b_generate_5\<close>, arguments.
\<close>

record token_build =
  b_variadic :: bool
  b_exceptions :: bool
  b_generate :: nat
  b_generate_5 :: nat

definition generated :: "nat \<Rightarrow> nat \<Rightarrow> bool" where
  "generated m n \<longleftrightarrow> 1 \<le> n \<and> n \<le> m"

section \<open>\<open>fiber_promise_invoke_and_set\<close>\<close>

text \<open>
  The function object returns a value or nothing (\<open>None\<close>, for \<open>void\<close>) or throws. A call is ill-formed, leaves the
  promise as given, or lets an exception escape; \<open>None\<close> is \<open>promise_already_satisfied\<close>.
\<close>

datatype 'v invoked = Ill_formed | Returned "'v option promise" | Escaped "exn option"

definition returned :: "'v option promise option \<Rightarrow> 'v invoked" where
  "returned r = (case r of Some q \<Rightarrow> Returned q | None \<Rightarrow> Escaped None)"

text \<open>The handler of a body's exceptions, where the build has one.\<close>

definition catch_all :: "bool \<Rightarrow> exn \<Rightarrow> 'v option promise \<Rightarrow> 'v invoked" where
  "catch_all exceptions e p = (if exceptions then returned (set_exception e p) else Escaped (Some e))"

definition invoke_value_variadic ::
  "bool \<Rightarrow> ('a args \<Rightarrow> exn + 'v option) \<Rightarrow> 'a args \<Rightarrow> 'v option promise \<Rightarrow> 'v invoked"
where
  "invoke_value_variadic exceptions f as p =
     (case f as of Inr v \<Rightarrow> returned (set_value v p) | Inl e \<Rightarrow> catch_all exceptions e p)"

definition invoke_void_variadic ::
  "bool \<Rightarrow> ('a args \<Rightarrow> exn + 'v option) \<Rightarrow> 'a args \<Rightarrow> 'v option promise \<Rightarrow> 'v invoked"
where
  "invoke_void_variadic exceptions f as p =
     (case f as of Inr v \<Rightarrow> returned (set_value None p) | Inl e \<Rightarrow> catch_all exceptions e p)"

text \<open>
  Without variadic templates. No argument: the overload for \<open>promise<void>\<close> has a template parameter \<open>Args\<close> that
  no argument determines, so it takes part in no call, and the other one is ill-formed for a function that
  returns nothing.
\<close>

definition invoke_nullary ::
  "bool \<Rightarrow> bool \<Rightarrow> ('a args \<Rightarrow> exn + 'v option) \<Rightarrow> 'v option promise \<Rightarrow> 'v invoked"
where
  "invoke_nullary exceptions void f p =
     (if void then Ill_formed
      else case f (Args []) of Inr v \<Rightarrow> returned (set_value v p) | Inl e \<Rightarrow> catch_all exceptions e p)"

text \<open>One argument or more: the two expansions of \<open>BOOST_ASIO_PRIVATE_PROMISE_INVOKE_DEF\<close>.\<close>

definition invoke_def_plain ::
  "bool \<Rightarrow> ('a args \<Rightarrow> exn + 'v option) \<Rightarrow> 'a args \<Rightarrow> 'v option promise \<Rightarrow> 'v invoked"
where
  "invoke_def_plain void f as p =
     (case f as of Inr v \<Rightarrow> returned (set_value (if void then None else v) p) | Inl e \<Rightarrow> Escaped (Some e))"

definition invoke_def_catching ::
  "bool \<Rightarrow> ('a args \<Rightarrow> exn + 'v option) \<Rightarrow> 'a args \<Rightarrow> 'v option promise \<Rightarrow> 'v invoked"
where
  "invoke_def_catching void f as p =
     (case f as of
        Inr v \<Rightarrow> returned (set_value (if void then None else v) p)
      | Inl e \<Rightarrow> returned (set_exception e p))"

text \<open>The number of arguments of a call, the status included.\<close>

fun arg_count :: "'a args \<Rightarrow> nat" where
  "arg_count (Args vs) = length vs"
| "arg_count (Args_ec ec vs) = Suc (length vs)"
| "arg_count (Args_ex ex vs) = Suc (length vs)"

text \<open>
  The braces of the body of the overload for \<open>promise<void>\<close>; its inner block ends inside the part for exceptions. A header whose braces do not
  match does not compile.
\<close>

definition nullary_void_braces :: "token_build \<Rightarrow> string" where
  "nullary_void_braces b = ''{'' @ ''{'' @ (if b_exceptions b then ''}'' @ ''{'' @ ''}'' else '''') @ ''}''"

fun balanced :: "nat \<Rightarrow> string \<Rightarrow> bool" where
  "balanced n [] \<longleftrightarrow> n = 0"
| "balanced n (c # cs) \<longleftrightarrow>
     (if c = CHR ''{'' then balanced (Suc n) cs
      else if c = CHR ''}'' then 0 < n \<and> balanced (n - 1) cs else balanced n cs)"

definition header_compiles :: "token_build \<Rightarrow> bool" where
  "header_compiles b \<longleftrightarrow> b_variadic b \<or> balanced 0 (nullary_void_braces b)"

text \<open>\<open>fiber_packaged_handler::operator()\<close> in a build: the overload for the number of arguments.\<close>

definition packaged_call ::
  "token_build \<Rightarrow> bool \<Rightarrow> ('a args \<Rightarrow> exn + 'v option) \<Rightarrow> 'a args \<Rightarrow> 'v option promise \<Rightarrow> 'v invoked"
where
  "packaged_call b void f as p =
     (if \<not> header_compiles b then Ill_formed
      else if b_variadic b then
        (if void then invoke_void_variadic (b_exceptions b) f as p else invoke_value_variadic (b_exceptions b) f as p)
      else if arg_count as = 0 then invoke_nullary (b_exceptions b) void f p
      else if \<not> generated (b_generate b) (arg_count as) then Ill_formed
      else if b_exceptions b then invoke_def_catching void f as p
      else invoke_def_plain void f as p)"


section \<open>Selecting the handler\<close>

text \<open>A completion signature: what its first parameter is and the number of the others.\<close>

datatype signature = Sig nat | Sig_ec nat | Sig_ex nat

fun signature_of :: "'a args \<Rightarrow> signature" where
  "signature_of (Args vs) = Sig (length vs)"
| "signature_of (Args_ec ec vs) = Sig_ec (length vs)"
| "signature_of (Args_ex ex vs) = Sig_ex (length vs)"

fun parameters :: "signature \<Rightarrow> nat" where
  "parameters (Sig n) = n"
| "parameters (Sig_ec n) = Suc n"
| "parameters (Sig_ex n) = Suc n"

datatype handler_class = Class_0 | Class_ec_0 | Class_ex_0 | Class_1 | Class_ec_1 | Class_ex_1 | Class_n | Class_ec_n | Class_ex_n

text \<open>
  The specialisations of \<open>fiber_promise_handler_selector\<close> that every build has, those for parameter packs, and
  those of \<open>BOOST_ASIO_PRIVATE_PROMISE_SELECTOR_DEF(n)\<close>, which are for \<open>n + 1\<close> values. A generated specialisation without a
  status also matches a signature with one; the one that names the status is more specialised.
\<close>

fun selector_fixed :: "signature \<Rightarrow> handler_class option" where
  "selector_fixed (Sig 0) = Some Class_0"
| "selector_fixed (Sig_ec 0) = Some Class_ec_0"
| "selector_fixed (Sig_ex 0) = Some Class_ex_0"
| "selector_fixed (Sig (Suc 0)) = Some Class_1"
| "selector_fixed (Sig_ec (Suc 0)) = Some Class_ec_1"
| "selector_fixed (Sig_ex (Suc 0)) = Some Class_ex_1"
| "selector_fixed _ = None"

fun selector_pack :: "signature \<Rightarrow> handler_class" where
  "selector_pack (Sig n) = Class_n"
| "selector_pack (Sig_ec n) = Class_ec_n"
| "selector_pack (Sig_ex n) = Class_ex_n"

fun selector_generated :: "nat \<Rightarrow> signature \<Rightarrow> handler_class option" where
  "selector_generated m (Sig n) = (if generated m (n - 1) then Some Class_n else None)"
| "selector_generated m (Sig_ec n) = (if generated m (n - 1) then Some Class_ec_n else if generated m n then Some Class_n else None)"
| "selector_generated m (Sig_ex n) = (if generated m (n - 1) then Some Class_ex_n else if generated m n then Some Class_n else None)"

definition selector :: "token_build \<Rightarrow> signature \<Rightarrow> handler_class option" where
  "selector b sg =
     (case selector_fixed sg of
        Some c \<Rightarrow> Some c
      | None \<Rightarrow> if b_variadic b then Some (selector_pack sg) else selector_generated (b_generate_5 b) sg)"

section \<open>Calling the handler\<close>

text \<open>
  The call operators of the handlers of several values: one template, or the expansions of
  \<open>BOOST_ASIO_PRIVATE_CALL_OP_DEF\<close>. \<open>None\<close> is a call for which there is no overload.
\<close>

definition call_op_n :: "token_build \<Rightarrow> 'a list \<Rightarrow> 'a completed promise \<Rightarrow> 'a completed promise option option" where
  "call_op_n b vs p =
     (if b_variadic b \<or> generated (b_generate b) (length vs) then Some (set_value (Tuple vs) p) else None)"

definition call_op_ec_n ::
  "token_build \<Rightarrow> (error_code \<Rightarrow> string) \<Rightarrow> error_code \<Rightarrow> 'a list \<Rightarrow> 'a completed promise \<Rightarrow> 'a completed promise option option"
where
  "call_op_ec_n b msg ec vs p =
     (if b_variadic b \<or> generated (b_generate b) (length vs)
      then Some (if ec \<noteq> Ec_none then asyik_set_error msg ec p else set_value (Tuple vs) p)
      else None)"

definition call_op_ex_n ::
  "token_build \<Rightarrow> exn option \<Rightarrow> 'a list \<Rightarrow> 'a completed promise \<Rightarrow> 'a completed promise option option"
where
  "call_op_ex_n b ex vs p =
     (if b_variadic b \<or> generated (b_generate b) (length vs)
      then Some (case ex of Some e \<Rightarrow> set_exception e p | None \<Rightarrow> set_value (Tuple vs) p)
      else None)"

text \<open>A call of the class on arguments of a signature it was selected for.\<close>

fun class_call ::
  "token_build \<Rightarrow> (error_code \<Rightarrow> string) \<Rightarrow> handler_class \<Rightarrow> 'a args \<Rightarrow> 'a completed promise \<Rightarrow> 'a completed promise option option"
where
  "class_call b msg Class_0 (Args []) p = Some (fiber_promise_handler_0 p)"
| "class_call b msg Class_ec_0 (Args_ec ec []) p = Some (fiber_promise_handler_ec_0 msg ec p)"
| "class_call b msg Class_ex_0 (Args_ex ex []) p = Some (fiber_promise_handler_ex_0 ex p)"
| "class_call b msg Class_1 (Args [v]) p = Some (fiber_promise_handler_1 v p)"
| "class_call b msg Class_ec_1 (Args_ec ec [v]) p = Some (fiber_promise_handler_ec_1 msg ec v p)"
| "class_call b msg Class_ex_1 (Args_ex ex [v]) p = Some (fiber_promise_handler_ex_1 ex v p)"
| "class_call b msg Class_n (Args vs) p = call_op_n b vs p"
| "class_call b msg Class_ec_n (Args_ec ec vs) p = call_op_ec_n b msg ec vs p"
| "class_call b msg Class_ex_n (Args_ex ex vs) p = call_op_ex_n b ex vs p"
| "class_call b msg _ _ p = None"

text \<open>
  The specialisations of \<open>async_result\<close>, which take the whole signature: one for parameter packs, or one for no
  parameter and the expansions of \<open>BOOST_ASIO_PRIVATE_ASYNC_RESULT_DEF\<close>.
\<close>

definition async_result_exists :: "token_build \<Rightarrow> signature \<Rightarrow> bool" where
  "async_result_exists b sg \<longleftrightarrow> b_variadic b \<or> parameters sg = 0 \<or> generated (b_generate b) (parameters sg)"

text \<open>
  An operation with this signature is started with \<open>use_fiber_future\<close> in the build and completes with the arguments:
  what the promise is then, \<open>None\<close> if the program does not compile.
\<close>

definition complete_in ::
  "token_build \<Rightarrow> (error_code \<Rightarrow> string) \<Rightarrow> 'a args \<Rightarrow> 'a completed promise \<Rightarrow> 'a completed promise option option"
where
  "complete_in b msg as p =
     (if \<not> header_compiles b \<or> \<not> async_result_exists b (signature_of as) then None
      else case selector b (signature_of as) of None \<Rightarrow> None | Some c \<Rightarrow> class_call b msg c as p)"

section \<open>Executor traits\<close>

text \<open>
  The traits of \<open>fiber_promise_executor\<close> for compilers that do not deduce them, with the result types they
  state (the first states none), and the result types of its members.
\<close>

datatype exec_trait = Equality_comparable | Execute_member | Query_static_blocking | Query_context | Require_member blocking

datatype trait_type = Bool_type | Void_type | Blocking_type blocking | Execution_context | System_context | Executor_type blocking

fun trait_result :: "blocking \<Rightarrow> exec_trait \<Rightarrow> trait_type option" where
  "trait_result own Equality_comparable = None"
| "trait_result own Execute_member = Some Void_type"
| "trait_result own Query_static_blocking = Some (Blocking_type own)"
| "trait_result own Query_context = Some System_context"
| "trait_result own (Require_member Possibly) = Some (Executor_type Possibly)"
| "trait_result own (Require_member Never) = Some (Executor_type Never)"

text \<open>The members as \<open>fiber_promise_executor\<close> declares them.\<close>

fun member_result :: "executor \<Rightarrow> exec_trait \<Rightarrow> trait_type" where
  "member_result ex Equality_comparable = Bool_type"
| "member_result ex Execute_member = Void_type"
| "member_result ex Query_static_blocking = Blocking_type (query_blocking ex)"
| "member_result ex Query_context = Execution_context"
| "member_result ex (Require_member b) = Executor_type (ex_blocking (require b ex))"

section \<open>Lemmas\<close>

lemma header_compiles_iff: "header_compiles b \<longleftrightarrow> b_variadic b \<or> b_exceptions b"
  by (simp add: header_compiles_def nullary_void_braces_def)

text \<open>The classes of a build with variadic templates are those of \<open>Fiber_Future\<close>.\<close>

lemma complete_variadic: "b_variadic b \<Longrightarrow> complete_in b msg as p = Some (fiber_promise_handler_call msg as p)"
  by (cases "(msg, as, p)" rule: fiber_promise_handler_call.cases)
    (auto simp: complete_in_def header_compiles_def async_result_exists_def selector_def call_op_n_def call_op_ec_n_def
      call_op_ex_n_def handler_defs fiber_promise_handler_call.simps)

lemma complete_generated:
  assumes "\<not> b_variadic b" and "b_exceptions b" and "b_generate_5 b + 2 \<le> b_generate b"
  shows "complete_in b msg as p =
    (if length (arg_values as) \<le> Suc (b_generate_5 b) \<or> length (arg_values as) \<le> 1
     then Some (fiber_promise_handler_call msg as p) else None)"
  using assms
  by (cases "(msg, as, p)" rule: fiber_promise_handler_call.cases)
    (auto simp: complete_in_def header_compiles_iff async_result_exists_def selector_def call_op_n_def call_op_ec_n_def
      call_op_ex_n_def handler_defs fiber_promise_handler_call.simps generated_def)

lemma packaged_variadic:
  assumes "b_variadic b" and "b_exceptions b" and "\<And>v. void \<Longrightarrow> f as = Inr v \<Longrightarrow> v = None"
  shows "packaged_call b void f as p = returned (fiber_packaged_handler f as p)"
  using assms
  by (auto simp: packaged_call_def header_compiles_def invoke_void_variadic_def invoke_value_variadic_def catch_all_def
      fiber_packaged_handler_def fiber_promise_invoke_and_set_def split: sum.split)

lemma arg_count_0: "arg_count as = 0 \<longleftrightarrow> as = Args []"
  by (cases as) auto

lemma packaged_generated:
  assumes "\<not> b_variadic b" and "b_exceptions b" and "\<And>v. void \<Longrightarrow> f as = Inr v \<Longrightarrow> v = None"
  shows "packaged_call b void f as p =
    (if as = Args [] \<and> void \<or> b_generate b < arg_count as then Ill_formed else returned (fiber_packaged_handler f as p))"
  using assms
  by (auto simp: packaged_call_def header_compiles_iff arg_count_0 generated_def invoke_nullary_def invoke_def_catching_def
      catch_all_def fiber_packaged_handler_def fiber_promise_invoke_and_set_def not_less Suc_le_eq split: sum.split)

text \<open>A result type that a trait states is that of the member, the context excepted.\<close>

lemma trait_result_member:
  "trait_result (ex_blocking ex) t = Some ty \<Longrightarrow> member_result ex t = ty \<longleftrightarrow> t \<noteq> Query_context"
  by (cases t) (auto simp: query_blocking_def require_def split: blocking.splits elim!: trait_result.elims)

section \<open>Properties\<close>

text \<open>
  C40. What the preprocessor selects makes no difference to a program it compiles: with exceptions, a completion settles the promise and a packaged
  function gives it its result as \<open>Fiber_Future\<close> says, in every build with variadic templates; without them, for at most one
  value more than \<open>BOOST_ASIO_VARIADIC_GENERATE_5\<close> expands, respectively for as many arguments as
  \<open>BOOST_ASIO_VARIADIC_GENERATE\<close> expands, and otherwise the program does not compile, nor does it for a function of no argument that returns
  nothing. A build with neither exceptions nor variadic templates does not compile at all, since the header's braces do not match.
\<close>

theorem build_variants_agree:
  assumes "b_exceptions b" and "1 \<le> b_generate_5 b" and "b_generate_5 b + 2 \<le> b_generate b"
    and "\<And>v. void \<Longrightarrow> f as = Inr v \<Longrightarrow> v = None"
  shows "complete_in b msg cs q =
      (if b_variadic b \<or> length (arg_values cs) \<le> Suc (b_generate_5 b) then Some (fiber_promise_handler_call msg cs q) else None) \<and>
    packaged_call b void f as p =
      (if \<not> b_variadic b \<and> (as = Args [] \<and> void \<or> b_generate b < arg_count as) then Ill_formed
       else returned (fiber_packaged_handler f as p)) \<and>
    (header_compiles (b\<lparr>b_exceptions := False\<rparr>) \<longleftrightarrow> b_variadic b)"
  using assms complete_generated [of b msg cs q] packaged_generated [of b void f as p] packaged_variadic [of b void f as p]
  by (auto simp: header_compiles_iff complete_variadic)

theorem build_variants_agree_witness:
  "complete_in \<lparr>b_variadic = False, b_exceptions = True, b_generate = 8, b_generate_5 = 5\<rparr> (\<lambda>_. [])
     (Args_ec Ec_none [1, 2 :: nat]) Unset = Some (Some (Has_value (Tuple [1, 2]))) \<and>
   packaged_call \<lparr>b_variadic = False, b_exceptions = True, b_generate = 8, b_generate_5 = 5\<rparr> True
     (\<lambda>_. Inr None :: exn + nat option) (Args [] :: nat args) Unset = Ill_formed"
proof -
  let ?b = "\<lparr>b_variadic = False, b_exceptions = True, b_generate = 8, b_generate_5 = 5\<rparr>"
  have "b_exceptions ?b" "1 \<le> b_generate_5 ?b" "b_generate_5 ?b + 2 \<le> b_generate ?b" by simp_all
  from build_variants_agree [OF this, where void = True and f = "\<lambda>_. Inr None :: exn + nat option" and as = "Args [] :: nat args"
      and p = Unset and q = Unset and cs = "Args_ec Ec_none [1, 2 :: nat]" and msg = "\<lambda>_. []"]
  show ?thesis by (simp add: handler_call_Unset)
qed

end
