(* ===== verification/Pools.thy ===== *)
theory Pools
  imports Asyik_Prelude
begin

text \<open>
  The two recycling allocators: \<open>block_pool\<close> with its allocator and \<open>shared_object_pool\<close>
  (\<open>include/libasyik/object_pool.hpp\<close>), and the fiber stack allocator
  (\<open>include/libasyik/pooled_guarded_stack.hpp\<close>, POSIX branch). Sizes and addresses are 64-bit
  words. The answers of the operating system (\<open>operator new\<close>, \<open>mmap\<close>, \<open>mprotect\<close>) are arguments;
  the model keeps what is currently allocated beside the pool, as the map from the start of each
  block to its size, so that leaks, double hand-outs and blocks that are too small can be stated.
  The mutex makes an operation one step.
\<close>

section \<open>\<open>block_pool\<close>\<close>

record block_pool =
  block_size :: u64
  free_list :: "u64 list"

type_synonym heap = "u64 \<rightharpoonup> u64"

definition block_pool_ctor :: "u64 \<Rightarrow> block_pool" where
  "block_pool_ctor sz = \<lparr>block_size = sz, free_list = []\<rparr>"

text \<open>\<open>fresh\<close> is what \<open>operator new(bytes)\<close> returns if it is called, \<open>None\<close> for \<open>bad_alloc\<close>.\<close>

definition allocate :: "u64 option \<Rightarrow> u64 \<Rightarrow> block_pool \<times> heap \<Rightarrow> (u64 \<times> block_pool \<times> heap) option" where
  "allocate fresh bytes st =
     (case st of (pool, hp) \<Rightarrow>
        if bytes \<le> block_size pool \<and> free_list pool \<noteq> []
        then Some (last (free_list pool), pool\<lparr>free_list := butlast (free_list pool)\<rparr>, hp)
        else (case fresh of None \<Rightarrow> None | Some p \<Rightarrow> Some (p, pool, hp(p \<mapsto> bytes))))"

definition deallocate :: "u64 \<Rightarrow> u64 \<Rightarrow> block_pool \<times> heap \<Rightarrow> block_pool \<times> heap" where
  "deallocate p bytes st =
     (case st of (pool, hp) \<Rightarrow>
        if bytes \<le> block_size pool then (pool\<lparr>free_list := free_list pool @ [p]\<rparr>, hp)
        else (pool, hp(p := None)))"

text \<open>The destructor deletes the blocks on the free list.\<close>

definition block_pool_dtor :: "block_pool \<times> heap \<Rightarrow> heap" where
  "block_pool_dtor st = (case st of (pool, hp) \<Rightarrow> fold (\<lambda>p h. h(p := None)) (free_list pool) hp)"

text \<open>\<open>pool_allocator<T>\<close>: the product \<open>n * sizeof(T)\<close> wraps.\<close>

definition pool_allocator_allocate ::
  "u64 \<Rightarrow> u64 option \<Rightarrow> u64 \<Rightarrow> block_pool \<times> heap \<Rightarrow> (u64 \<times> block_pool \<times> heap) option" where
  "pool_allocator_allocate sizeof_T fresh n st = allocate fresh (n * sizeof_T) st"

definition pool_allocator_deallocate :: "u64 \<Rightarrow> u64 \<Rightarrow> u64 \<Rightarrow> block_pool \<times> heap \<Rightarrow> block_pool \<times> heap" where
  "pool_allocator_deallocate sizeof_T p n st = deallocate p (n * sizeof_T) st"

definition shared_object_pool :: "u64 \<Rightarrow> block_pool" where
  "shared_object_pool sizeof_T = block_pool_ctor (sizeof_T + 128)"

text \<open>
  \<open>acquire\<close> allocates one object together with the control block of its \<open>shared_ptr\<close>; the size of
  that pair, \<open>node\<close>, is chosen by the standard library. The last reference gives it back.
\<close>

definition acquire :: "u64 \<Rightarrow> u64 option \<Rightarrow> block_pool \<times> heap \<Rightarrow> (u64 \<times> block_pool \<times> heap) option" where
  "acquire node fresh st = pool_allocator_allocate node fresh 1 st"

definition release :: "u64 \<Rightarrow> u64 \<Rightarrow> block_pool \<times> heap \<Rightarrow> block_pool \<times> heap" where
  "release node p st = pool_allocator_deallocate node p 1 st"

section \<open>\<open>pooled_guarded_stack\<close>\<close>

record stack_pool =
  stack_size :: u64
  page_size :: u64
  mmap_size :: u64
  free_stacks :: "u64 list"

record stack_context =
  ctx_size :: u64
  ctx_sp :: u64

definition impl_ctor :: "u64 \<Rightarrow> u64 \<Rightarrow> stack_pool" where
  "impl_ctor page sz =
     (let pages = (sz + page - 1) div page;
          sz' = pages * page
      in \<lparr>stack_size = sz', page_size = page, mmap_size = sz' + page, free_stacks = []\<rparr>)"

text \<open>The mappings: their size and whether the lowest page is inaccessible.\<close>

type_synonym maps = "u64 \<rightharpoonup> u64 \<times> bool"

definition unmap :: "u64 \<Rightarrow> maps \<Rightarrow> maps" where
  "unmap base mm = mm(base := None)"

text \<open>\<open>mm_base\<close> is what \<open>mmap\<close> returns (\<open>None\<close>: \<open>MAP_FAILED\<close>), \<open>prot\<close> whether \<open>mprotect\<close> succeeds.
  On failure the exception leaves the state as \<open>snd\<close>.\<close>

definition pop_or_mmap ::
  "u64 option \<times> bool \<Rightarrow> stack_pool \<times> maps \<Rightarrow> u64 option \<times> stack_pool \<times> maps"
where
  "pop_or_mmap os st =
     (case (os, st) of ((mm_base, prot), (pool, mm)) \<Rightarrow>
        if free_stacks pool \<noteq> []
        then (Some (last (free_stacks pool)), pool\<lparr>free_stacks := butlast (free_stacks pool)\<rparr>, mm)
        else
          (case mm_base of
             None \<Rightarrow> (None, pool, mm)
           | Some base \<Rightarrow>
               (let mm1 = mm(base \<mapsto> (mmap_size pool, False)) in
                if \<not> prot then (None, pool, unmap base mm1)
                else (Some base, pool, mm1(base \<mapsto> (mmap_size pool, True))))))"

definition stack_allocate ::
  "u64 option \<times> bool \<Rightarrow> stack_pool \<times> maps \<Rightarrow> stack_context option \<times> stack_pool \<times> maps"
where
  "stack_allocate os st =
     (case pop_or_mmap os st of
        (None, pool, mm) \<Rightarrow> (None, pool, mm)
      | (Some base, pool, mm) \<Rightarrow>
          (Some \<lparr>ctx_size = stack_size pool, ctx_sp = base + mmap_size pool\<rparr>, pool, mm))"

definition stack_deallocate :: "stack_context \<Rightarrow> stack_pool \<times> maps \<Rightarrow> stack_pool \<times> maps" where
  "stack_deallocate sctx st =
     (case st of (pool, mm) \<Rightarrow>
        (pool\<lparr>free_stacks := free_stacks pool @ [ctx_sp sctx - mmap_size pool]\<rparr>, mm))"

definition impl_dtor :: "stack_pool \<times> maps \<Rightarrow> maps" where
  "impl_dtor st = (case st of (pool, mm) \<Rightarrow> fold unmap (free_stacks pool) mm)"

section \<open>The recycling contract\<close>

text \<open>
  What both allocators promise: a block handed out was on the free list or is new; a block given
  back goes on the free list; nothing else changes. \<open>free\<close> is the free list, \<open>live\<close> all blocks that
  exist, \<open>answer_ok\<close> says that the operating system's answer is not a block that exists already.
\<close>

locale recycler =
  fixes take_block :: "'o \<Rightarrow> 's \<Rightarrow> 'a option \<times> 's"
    and give_block :: "'a \<Rightarrow> 's \<Rightarrow> 's"
    and free :: "'s \<Rightarrow> 'a list"
    and live :: "'s \<Rightarrow> 'a set"
    and good :: "'s \<Rightarrow> bool"
    and answer_ok :: "'o \<Rightarrow> 's \<Rightarrow> bool"
  assumes take_reuse: "good s \<Longrightarrow> answer_ok os s \<Longrightarrow> take_block os s = (Some a, s') \<Longrightarrow> free s \<noteq> [] \<Longrightarrow>
            free s = free s' @ [a] \<and> live s' = live s"
    and take_new: "good s \<Longrightarrow> answer_ok os s \<Longrightarrow> take_block os s = (Some a, s') \<Longrightarrow> free s = [] \<Longrightarrow>
            free s' = [] \<and> a \<notin> live s \<and> live s' = insert a (live s)"
    and take_fail: "good s \<Longrightarrow> answer_ok os s \<Longrightarrow> take_block os s = (None, s') \<Longrightarrow> s' = s"
    and good_take: "good s \<Longrightarrow> answer_ok os s \<Longrightarrow> take_block os s = (Some a, s') \<Longrightarrow> good s'"
    and give_free: "good s \<Longrightarrow> a \<in> live s \<Longrightarrow>
            free (give_block a s) = free s @ [a] \<and> live (give_block a s) = live s \<and> good (give_block a s)"
begin

text \<open>
  A use of the allocator: \<open>held\<close> are the blocks in use. A step hands out a block, fails, or gives
  one of the blocks in use back.
\<close>

inductive uses :: "'s \<Rightarrow> 'a list \<Rightarrow> 's \<Rightarrow> 'a list \<Rightarrow> bool" where
  uses_none: "uses s held s held"
| uses_take: "uses s0 held0 s held \<Longrightarrow> answer_ok os s \<Longrightarrow> take_block os s = (Some a, s') \<Longrightarrow>
    uses s0 held0 s' (a # held)"
| uses_fail: "uses s0 held0 s held \<Longrightarrow> answer_ok os s \<Longrightarrow> take_block os s = (None, s') \<Longrightarrow>
    uses s0 held0 s' held"
| uses_give: "uses s0 held0 s (xs @ a # ys) \<Longrightarrow> uses s0 held0 (give_block a s) (xs @ ys)"

text \<open>Every block is either free or in use, by exactly one owner.\<close>

definition accounted :: "'s \<Rightarrow> 'a list \<Rightarrow> bool" where
  "accounted s held \<longleftrightarrow> good s \<and> distinct (free s @ held) \<and> set (free s) \<union> set held = live s"

lemma accounted_take:
  assumes "accounted s held" and "answer_ok os s" and "take_block os s = (Some a, s')"
  shows "accounted s' (a # held)"
proof -
  have g: "good s" and d: "distinct (free s @ held)" and l: "set (free s) \<union> set held = live s"
    using assms(1) by (simp_all add: accounted_def)
  note good = good_take [OF g assms(2,3)]
  show ?thesis
  proof (cases "free s = []")
    case True
    then have "free s' = []" "a \<notin> live s" "live s' = insert a (live s)"
      using take_new [OF g assms(2,3)] by simp_all
    with True good d l show ?thesis by (auto simp: accounted_def)
  next
    case False
    then have "free s = free s' @ [a]" "live s' = live s" using take_reuse [OF g assms(2,3)] by simp_all
    with good d l show ?thesis by (auto simp: accounted_def)
  qed
qed

lemma accounted_fail:
  "accounted s held \<Longrightarrow> answer_ok os s \<Longrightarrow> take_block os s = (None, s') \<Longrightarrow> accounted s' held"
  using take_fail unfolding accounted_def by metis

lemma accounted_give:
  assumes "accounted s (xs @ a # ys)"
  shows "accounted (give_block a s) (xs @ ys)"
proof -
  have "good s" "a \<in> live s" using assms by (auto simp: accounted_def)
  from give_free [OF this] assms show ?thesis by (auto simp: accounted_def)
qed

lemma uses_accounted: "uses s held s' held' \<Longrightarrow> accounted s held \<Longrightarrow> accounted s' held'"
  by (induction rule: uses.induct) (auto intro: accounted_take accounted_fail accounted_give)

lemma uses_from_empty:
  assumes "uses s [] s' held" and "good s" and "free s = []" and "live s = {}"
  shows "good s' \<and> distinct (free s' @ held) \<and> set (free s') \<union> set held = live s'"
  using uses_accounted [OF assms(1)] assms(2-4) by (simp add: accounted_def)

end

section \<open>Both allocators keep the contract\<close>

text \<open>
  Object pools: all requests have the same size \<open>node\<close>, which fits in a block. Every block that
  exists then has exactly that size.
\<close>

definition bp_take :: "u64 \<Rightarrow> u64 option \<Rightarrow> block_pool \<times> heap \<Rightarrow> u64 option \<times> block_pool \<times> heap" where
  "bp_take node fresh st =
     (case acquire node fresh st of None \<Rightarrow> (None, st) | Some (p, st') \<Rightarrow> (Some p, st'))"

definition bp_good :: "u64 \<Rightarrow> block_pool \<times> heap \<Rightarrow> bool" where
  "bp_good node st \<longleftrightarrow> node \<le> block_size (fst st) \<and> (\<forall>p z. snd st p = Some z \<longrightarrow> z = node)"

definition bp_fresh :: "u64 option \<Rightarrow> block_pool \<times> heap \<Rightarrow> bool" where
  "bp_fresh fresh st \<longleftrightarrow> (\<forall>p. fresh = Some p \<longrightarrow> p \<notin> dom (snd st))"

lemmas bp_defs = bp_take_def bp_good_def bp_fresh_def acquire_def release_def pool_allocator_allocate_def
  pool_allocator_deallocate_def allocate_def deallocate_def

interpretation bp: recycler "bp_take node" "release node" "\<lambda>st. free_list (fst st)" "\<lambda>st. dom (snd st)"
  "bp_good node" bp_fresh for node
  by unfold_locales
    (auto simp: bp_defs split: prod.splits if_splits option.splits)

text \<open>Stacks: the contexts handed out belong to mappings with a guard page.\<close>

definition stack_of :: "stack_pool \<Rightarrow> u64 \<Rightarrow> stack_context" where
  "stack_of pool base = \<lparr>ctx_size = stack_size pool, ctx_sp = base + mmap_size pool\<rparr>"

definition gs_good :: "stack_pool \<times> maps \<Rightarrow> bool" where
  "gs_good st \<longleftrightarrow> (\<forall>base m. snd st base = Some m \<longrightarrow> m = (mmap_size (fst st), True))"

definition gs_fresh :: "u64 option \<times> bool \<Rightarrow> stack_pool \<times> maps \<Rightarrow> bool" where
  "gs_fresh os st \<longleftrightarrow> (\<forall>base. fst os = Some base \<longrightarrow> base \<notin> dom (snd st))"

lemma stack_of_simps [simp]:
  "stack_of (pool\<lparr>free_stacks := fs\<rparr>) = stack_of pool"
  "stack_of pool b = stack_of pool b' \<longleftrightarrow> b = b'"
  by (simp_all add: stack_of_def fun_eq_iff)

lemma stack_allocate_reuse:
  "free_stacks pool \<noteq> [] \<Longrightarrow> stack_allocate os (pool, mm) =
     (Some (stack_of pool (last (free_stacks pool))), pool\<lparr>free_stacks := butlast (free_stacks pool)\<rparr>, mm)"
  by (cases os) (simp add: stack_allocate_def pop_or_mmap_def stack_of_def)

lemma stack_allocate_new:
  "free_stacks pool = [] \<Longrightarrow> stack_allocate (mm_base, prot) (pool, mm) =
     (case mm_base of
        None \<Rightarrow> (None, pool, mm)
      | Some b \<Rightarrow> if prot then (Some (stack_of pool b), pool, mm(b \<mapsto> (mmap_size pool, True)))
                  else (None, pool, mm(b := None)))"
  by (simp add: stack_allocate_def pop_or_mmap_def stack_of_def unmap_def split: option.split)

lemma stack_deallocate_of:
  "stack_deallocate (stack_of pool b) (pool, mm) = (pool\<lparr>free_stacks := free_stacks pool @ [b]\<rparr>, mm)"
  by (simp add: stack_deallocate_def stack_of_def)

interpretation gs: recycler stack_allocate stack_deallocate
  "\<lambda>st. map (stack_of (fst st)) (free_stacks (fst st))" "\<lambda>st. stack_of (fst st) ` dom (snd st)"
  gs_good gs_fresh
proof
  fix st :: "stack_pool \<times> maps" and os :: "u64 option \<times> bool" and a st'
  obtain pool mm where st: "st = (pool, mm)" by (rule prod.exhaust)
  obtain mm_base prot where os: "os = (mm_base, prot)" by (rule prod.exhaust)
  assume good: "gs_good st" and fresh: "gs_fresh os st"
  show "st' = st" if "stack_allocate os st = (None, st')"
    using that fresh st os
    by (cases "free_stacks pool = []")
      (auto simp: stack_allocate_reuse stack_allocate_new gs_fresh_def fun_eq_iff split: option.splits if_splits)
  assume take: "stack_allocate os st = (Some a, st')"
  show "map (stack_of (fst st)) (free_stacks (fst st)) = map (stack_of (fst st')) (free_stacks (fst st')) @ [a] \<and>
      stack_of (fst st') ` dom (snd st') = stack_of (fst st) ` dom (snd st)"
    if "map (stack_of (fst st)) (free_stacks (fst st)) \<noteq> []"
  proof -
    have fs: "free_stacks pool \<noteq> []" using that st by simp
    then have "free_stacks pool = butlast (free_stacks pool) @ [last (free_stacks pool)]" by simp
    then have "map (stack_of pool) (free_stacks pool) =
        map (stack_of pool) (butlast (free_stacks pool)) @ [stack_of pool (last (free_stacks pool))]"
      by (metis list.simps(8,9) map_append)
    with fs take st show ?thesis by (auto simp: stack_allocate_reuse)
  qed
  show "map (stack_of (fst st')) (free_stacks (fst st')) = [] \<and> a \<notin> stack_of (fst st) ` dom (snd st) \<and>
      stack_of (fst st') ` dom (snd st') = insert a (stack_of (fst st) ` dom (snd st))"
    if "map (stack_of (fst st)) (free_stacks (fst st)) = []"
  proof -
    have "free_stacks pool = []" using that st by simp
    with take st os obtain b where b: "mm_base = Some b" "a = stack_of pool b"
      "st' = (pool, mm(b \<mapsto> (mmap_size pool, True)))"
      by (auto simp: stack_allocate_new split: option.splits if_splits)
    moreover have "b \<notin> dom mm" using fresh st os b(1) by (simp add: gs_fresh_def)
    ultimately show ?thesis using st \<open>free_stacks pool = []\<close>
      by (simp add: image_iff)
  qed
  show "gs_good st'"
    using take st os good
    by (cases "free_stacks pool = []";
        fastforce simp: stack_allocate_new stack_allocate_reuse gs_good_def split: option.splits if_splits)
next
  fix st :: "stack_pool \<times> maps" and a
  obtain pool mm where st: "st = (pool, mm)" by (rule prod.exhaust)
  assume "gs_good st" and "a \<in> stack_of (fst st) ` dom (snd st)"
  then obtain b where "a = stack_of pool b" "b \<in> dom mm" using st by auto
  with st \<open>gs_good st\<close>
  show "map (stack_of (fst (stack_deallocate a st))) (free_stacks (fst (stack_deallocate a st))) =
      map (stack_of (fst st)) (free_stacks (fst st)) @ [a] \<and>
      stack_of (fst (stack_deallocate a st)) ` dom (snd (stack_deallocate a st)) =
      stack_of (fst st) ` dom (snd st) \<and> gs_good (stack_deallocate a st)"
    by (simp add: stack_deallocate_of gs_good_def) blast
qed

section \<open>Sizes of a stack\<close>

lemma impl_ctor_sizes:
  assumes "0 < unat page" and "unat sz + 2 * unat page < 2 ^ 64"
  defines "s \<equiv> impl_ctor page sz"
  shows "unat sz \<le> unat (stack_size s)" and "unat page dvd unat (stack_size s)"
    and "unat (stack_size s) < unat sz + unat page"
    and "unat (mmap_size s) = unat (stack_size s) + unat page"
proof -
  let ?z = "unat sz" and ?p = "unat page"
  define k where "k = (?z + ?p - 1) div ?p"
  have a: "unat (sz + page) = ?z + ?p" using assms(2) by (simp add: unat_add_lem [THEN iffD1])
  then have "unat (sz + page - 1) = ?z + ?p - 1"
    using assms(1) by (subst unat_minus_one) auto
  then have d: "unat ((sz + page - 1) div page) = k" by (simp add: unat_div k_def)
  have lo: "?z \<le> k * ?p" and hi: "k * ?p < ?z + ?p"
  proof -
    have "?z + ?p - 1 = k * ?p + (?z + ?p - 1) mod ?p" by (simp add: k_def)
    moreover have "(?z + ?p - 1) mod ?p < ?p" using assms(1) by simp
    ultimately show "?z \<le> k * ?p" "k * ?p < ?z + ?p" using assms(1) by linarith+
  qed
  have m: "unat ((sz + page - 1) div page * page) = k * ?p"
    using hi assms(2) d by (subst unat_mult_lem [THEN iffD1]) simp_all
  then show "?z \<le> unat (stack_size s)" "?p dvd unat (stack_size s)" "unat (stack_size s) < ?z + ?p"
    using lo hi by (simp_all add: s_def impl_ctor_def Let_def)
  show "unat (mmap_size s) = unat (stack_size s) + ?p"
    using m hi assms(2) unfolding s_def impl_ctor_def Let_def
    by (simp add: unat_add_lem [THEN iffD1])
qed

lemma gs_goodD: "gs_good (pool, mm) \<Longrightarrow> mm base = Some m \<Longrightarrow> m = (mmap_size pool, True)"
  unfolding gs_good_def by (metis fst_conv snd_conv)

text \<open>The sizes never change.\<close>

definition same_sizes :: "stack_pool \<Rightarrow> stack_pool \<Rightarrow> bool" where
  "same_sizes p q \<longleftrightarrow> stack_size p = stack_size q \<and> page_size p = page_size q \<and> mmap_size p = mmap_size q"

lemma stack_allocate_sizes: "same_sizes (fst (snd (stack_allocate os st))) (fst st)"
proof -
  obtain pool mm where st: "st = (pool, mm)" by (rule prod.exhaust)
  obtain mm_base prot where os: "os = (mm_base, prot)" by (rule prod.exhaust)
  show ?thesis
    unfolding st os
    by (cases "free_stacks pool = []")
      (simp_all add: stack_allocate_reuse stack_allocate_new same_sizes_def split: option.split)
qed

lemma uses_sizes: "gs.uses s held s' held' \<Longrightarrow> same_sizes (fst s') (fst s)"
proof (induction rule: gs.uses.induct)
  case (uses_take s0 held0 s held os a s')
  then show ?case using stack_allocate_sizes [of os s] by (simp add: same_sizes_def)
next
  case (uses_fail s0 held0 s held os s')
  then show ?case using stack_allocate_sizes [of os s] by (simp add: same_sizes_def)
next
  case (uses_give s0 held0 s xs a ys)
  then show ?case by (cases s) (simp add: same_sizes_def stack_deallocate_def)
qed (simp add: same_sizes_def)

section \<open>Properties\<close>

text \<open>
  C32. Object pools are sound for objects of one size: over any sequence of acquisitions, failed
  acquisitions and releases of blocks of the size \<open>node\<close> that fits in a pool block, no block is handed
  out twice, every block handed out is as large as requested, and every block that exists is either in use
  or on the free list (nothing leaks).
\<close>

theorem object_pool_sound:
  assumes "bp.uses node (block_pool_ctor sz, Map.empty) [] (pool, hp) held" and "node \<le> sz"
  shows "distinct (free_list pool @ held) \<and> set (free_list pool) \<union> set held = dom hp \<and>
    (\<forall>p \<in> set held. hp p = Some node)"
proof -
  have "bp_good node (block_pool_ctor sz, Map.empty)"
    using assms(2) by (simp add: bp_good_def block_pool_ctor_def)
  from bp.uses_from_empty [OF assms(1) this] show ?thesis
    by (auto simp: block_pool_ctor_def bp_good_def)
qed

theorem object_pool_sound_witness:
  "distinct (free_list \<lparr>block_size = 168, free_list = []\<rparr> @ [4096]) \<and>
   [4096 \<mapsto> (64 :: u64)] (4096 :: u64) = Some 64"
proof -
  let ?s0 = "(block_pool_ctor 168, Map.empty) :: block_pool \<times> heap"
  have "bp.uses 64 ?s0 [] (\<lparr>block_size = 168, free_list = []\<rparr>, [4096 \<mapsto> 64]) [4096]"
    by (rule bp.uses_take [OF bp.uses_none, where os = "Some 4096"])
      (simp_all add: bp_defs block_pool_ctor_def)
  from object_pool_sound [OF this] show ?thesis by simp
qed

text \<open>
  Mixed sizes are not safe: the pool reuses any freed block of at most \<open>block_size\<close> bytes for any
  request of at most \<open>block_size\<close> bytes, but \<open>operator new\<close> was called with the size of the first request. A block
  of 8 bytes that was given back is handed out for a request of 16 bytes.
\<close>

lemma block_pool_mixed_sizes:
  "\<exists>st1 st2. allocate (Some 4096) 8 (block_pool_ctor 32, Map.empty) = Some (4096, st1) \<and>
     allocate None 16 (deallocate 4096 8 st1) = Some (4096, st2) \<and> snd st2 4096 = Some 8"
  by (simp add: allocate_def deallocate_def block_pool_ctor_def)

text \<open>
  C35. Fiber stacks: over any sequence of allocations (failing ones included) and deallocations, no stack is
  in use twice, every mapping is in use or on the free list, and every mapping consists of a protected
  guard page below exactly the usable stack; the usable stack is the requested size rounded up to whole
  pages, and the recorded stack pointer is its upper end.
\<close>

theorem guarded_stacks_sound:
  assumes "gs.uses (impl_ctor page sz, Map.empty) [] (pool, mm) held"
    and "0 < unat page" and "unat sz + 2 * unat page < 2 ^ 64"
  shows "distinct (map (stack_of pool) (free_stacks pool) @ held) \<and>
    set (map (stack_of pool) (free_stacks pool)) \<union> set held = stack_of pool ` dom mm \<and>
    (\<forall>c \<in> set held. \<exists>base. mm base = Some (mmap_size pool, True) \<and>
       ctx_sp c = base + mmap_size pool \<and> ctx_sp c - ctx_size c = base + page) \<and>
    unat sz \<le> unat (stack_size pool) \<and> unat page dvd unat (stack_size pool) \<and>
    unat (mmap_size pool) = unat (stack_size pool) + unat page"
proof -
  have init: "gs_good (impl_ctor page sz, Map.empty)" "free_stacks (impl_ctor page sz) = []"
    by (simp_all add: gs_good_def impl_ctor_def Let_def)
  have acc: "gs_good (pool, mm) \<and> distinct (map (stack_of pool) (free_stacks pool) @ held) \<and>
      set (map (stack_of pool) (free_stacks pool)) \<union> set held = stack_of pool ` dom mm"
    using gs.uses_from_empty [OF assms(1) init(1)] init(2) by simp
  have sizes: "same_sizes pool (impl_ctor page sz)" using uses_sizes [OF assms(1)] by simp
  then have mmap: "mmap_size pool = stack_size pool + page"
    by (simp add: same_sizes_def impl_ctor_def Let_def)
  have "\<exists>base. mm base = Some (mmap_size pool, True) \<and>
       ctx_sp c = base + mmap_size pool \<and> ctx_sp c - ctx_size c = base + page" if "c \<in> set held" for c
  proof -
    have "c \<in> stack_of pool ` dom mm" using that acc by blast
    then obtain base m where base: "c = stack_of pool base" "mm base = Some m" by auto
    moreover have "m = (mmap_size pool, True)" using acc gs_goodD base(2) by blast
    ultimately show ?thesis using mmap by (auto simp: stack_of_def)
  qed
  with acc impl_ctor_sizes [OF assms(2,3)] sizes show ?thesis unfolding same_sizes_def by metis
qed

theorem guarded_stacks_sound_witness:
  "let pool = impl_ctor 4096 10000 in
     \<exists>base. [65536 \<mapsto> (mmap_size pool, True)] base = Some (mmap_size pool, True) \<and>
       ctx_sp (stack_of pool 65536) = base + mmap_size pool \<and>
       ctx_sp (stack_of pool 65536) - ctx_size (stack_of pool 65536) = base + 4096"
proof -
  let ?pool = "impl_ctor 4096 10000"
  have "gs.uses (?pool, Map.empty) [] (?pool, [65536 \<mapsto> (mmap_size ?pool, True)]) [stack_of ?pool 65536]"
    by (rule gs.uses_take [OF gs.uses_none, where os = "(Some 65536, True)"])
      (simp_all add: gs_fresh_def stack_allocate_new impl_ctor_def Let_def)
  from guarded_stacks_sound [OF this] show ?thesis by (simp add: Let_def)
qed

end
