(* ===== verification/Workers.thy ===== *)
theory Workers
  imports Service
begin

text \<open>
  Starting the worker pool (\<open>service::async\<close> and \<open>init_workers\<close> in \<open>include/libasyik/service.hpp\<close> and \<open>src/service.cpp\<close>) when
  several threads call \<open>async\<close> at once. Each access to the shared flag, to the channel pointer and to \<open>std::once_flag\<close>
  is one step, and so is the start of each worker thread; \<open>std::call_once\<close> runs its function in one thread and lets the others
  wait until it is done.
\<close>

section \<open>Threads that call async\<close>

text \<open>
  Where a thread is: before the test of \<open>is_workers_initiated\<close>, at \<open>call_once\<close>, inside its function (before the channel is
  stored, before the flag is set, or with some worker threads started), or past it, about to push its task.
\<close>

datatype init_pc = At_test | At_once | At_store | At_flag | At_spawn nat | At_push

datatype once_flag = Not_called | Called_by nat | Once_done

record workers =
  once :: once_flag
  tasks_set :: bool
  workers_initiated :: bool
  started :: nat
  pcs :: "nat \<Rightarrow> init_pc"

definition workers_init :: workers where
  "workers_init = \<lparr>once = Not_called, tasks_set = False, workers_initiated = False, started = 0, pcs = (\<lambda>_. At_test)\<rparr>"

definition goto_pc :: "nat \<Rightarrow> init_pc \<Rightarrow> workers \<Rightarrow> workers" where
  "goto_pc t pc w = w\<lparr>pcs := (pcs w)(t := pc)\<rparr>"

text \<open>The next step of thread \<open>t\<close>, for a pool of \<open>n\<close> threads; \<open>None\<close> when it waits in \<open>call_once\<close> or is past the initialisation.\<close>

definition init_workers_step :: "nat \<Rightarrow> nat \<Rightarrow> workers \<Rightarrow> workers option" where
  "init_workers_step n t w =
     (case pcs w t of
        At_test \<Rightarrow> Some (goto_pc t (if workers_initiated w then At_push else At_once) w)
      | At_once \<Rightarrow>
          (case once w of
             Not_called \<Rightarrow> Some (goto_pc t At_store (w\<lparr>once := Called_by t\<rparr>))
           | Called_by _ \<Rightarrow> None
           | Once_done \<Rightarrow> Some (goto_pc t At_push w))
      | At_store \<Rightarrow> Some (goto_pc t At_flag (w\<lparr>tasks_set := True\<rparr>))
      | At_flag \<Rightarrow> Some (goto_pc t (At_spawn 0) (w\<lparr>workers_initiated := True\<rparr>))
      | At_spawn i \<Rightarrow>
          if i < n then Some (goto_pc t (At_spawn (Suc i)) (w\<lparr>started := Suc (started w)\<rparr>))
          else Some (goto_pc t At_push (w\<lparr>once := Once_done\<rparr>))
      | At_push \<Rightarrow> None)"

inductive workers_step :: "nat \<Rightarrow> workers \<Rightarrow> workers \<Rightarrow> bool" for n where
  ws_thread: "init_workers_step n t w = Some w' \<Longrightarrow> workers_step n w w'"

inductive_cases workers_stepE: "workers_step n w w'"

section \<open>Statistics\<close>

record async_stats =
  task_started :: u32
  task_terminated :: u32
  task_error :: u32
  queue_size :: u32

definition get_async_stats :: "apool \<Rightarrow> async_stats" where
  "get_async_stats a =
     \<lparr>task_started = async_task_started a, task_terminated = async_task_terminated a, task_error = async_task_error a,
      queue_size = async_queue_size a\<rparr>"

lemma get_async_stats_running:
  "async_step\<^sup>*\<^sup>* apool_init a \<Longrightarrow>
     task_started (get_async_stats a) - task_terminated (get_async_stats a) = word_of_nat (a_running a)"
  using async_stats_count [of a] by (simp add: get_async_stats_def)

section \<open>Invariant\<close>

definition inside_once :: "init_pc \<Rightarrow> bool" where
  "inside_once pc \<longleftrightarrow> pc \<notin> {At_test, At_once, At_push}"

text \<open>What holds of the thread inside \<open>call_once\<close>.\<close>

definition caller_ok :: "nat \<Rightarrow> init_pc \<Rightarrow> workers \<Rightarrow> bool" where
  "caller_ok n pc w \<longleftrightarrow>
     (case pc of
        At_store \<Rightarrow> started w = 0 \<and> \<not> workers_initiated w
      | At_flag \<Rightarrow> started w = 0 \<and> \<not> workers_initiated w \<and> tasks_set w
      | At_spawn i \<Rightarrow> started w = i \<and> i \<le> n \<and> workers_initiated w
      | _ \<Rightarrow> False)"

definition workers_inv :: "nat \<Rightarrow> workers \<Rightarrow> bool" where
  "workers_inv n w \<longleftrightarrow>
     (workers_initiated w \<longrightarrow> tasks_set w) \<and> (\<forall>t. pcs w t = At_push \<longrightarrow> tasks_set w) \<and>
     (case once w of
        Not_called \<Rightarrow> (\<forall>t. \<not> inside_once (pcs w t) \<and> pcs w t \<noteq> At_push) \<and> started w = 0 \<and> \<not> workers_initiated w
      | Called_by t \<Rightarrow> caller_ok n (pcs w t) w \<and> (\<forall>u. u \<noteq> t \<longrightarrow> \<not> inside_once (pcs w u))
      | Once_done \<Rightarrow> started w = n \<and> workers_initiated w \<and> (\<forall>t. \<not> inside_once (pcs w t)))"

lemmas workers_defs = init_workers_step_def workers_inv_def goto_pc_def inside_once_def caller_ok_def

lemma caller_inside: "caller_ok n pc w \<Longrightarrow> inside_once pc"
  by (auto simp: caller_ok_def inside_once_def split: init_pc.splits)

lemma caller_ok_pcs [simp]: "caller_ok n pc (w\<lparr>pcs := f\<rparr>) = caller_ok n pc w"
  by (cases pc) (simp_all add: caller_ok_def)

lemma inside_is_caller: "workers_inv n w \<Longrightarrow> inside_once (pcs w t) \<Longrightarrow> once w = Called_by t"
  by (cases "once w") (simp_all add: workers_inv_def, metis)

lemma workers_inv_step: "workers_step n w w' \<Longrightarrow> workers_inv n w \<Longrightarrow> workers_inv n w'"
proof (erule workers_stepE)
  fix t assume step: "init_workers_step n t w = Some w'" and inv: "workers_inv n w"
  have caller: "once w = Called_by t" if "inside_once (pcs w t)" using inside_is_caller [OF inv that] .
  show "workers_inv n w'"
  proof (cases "pcs w t")
    case At_test
    then show ?thesis using step inv caller_inside [of n At_test w]
      by (cases "once w") (auto simp: init_workers_step_def workers_inv_def goto_pc_def inside_once_def split: if_splits)
  next
    case At_once
    then show ?thesis using step inv by (cases "once w") (auto simp: workers_defs split: if_splits)
  next
    case (At_spawn i)
    then show ?thesis using step inv caller by (auto simp: workers_defs split: if_splits)
  qed (use step inv caller in \<open>auto simp: workers_defs\<close>)
qed

lemma workers_inv_run: "(workers_step n)\<^sup>*\<^sup>* workers_init w \<Longrightarrow> workers_inv n w"
proof (induction rule: rtranclp_induct)
  case base
  then show ?case by (simp add: workers_init_def workers_inv_def inside_once_def)
next
  case (step v w)
  then show ?case using workers_inv_step by blast
qed

text \<open>A thread waits only for the one inside \<open>call_once\<close>, which never waits.\<close>

lemma not_stuck:
  assumes "workers_inv n w" and "pcs w t \<noteq> At_push"
  shows "\<exists>u w'. init_workers_step n u w = Some w'"
proof (cases "init_workers_step n t w")
  case None
  then obtain u where "once w = Called_by u" using assms(2)
    by (auto simp: init_workers_step_def split: init_pc.splits once_flag.splits if_splits)
  moreover from this have "inside_once (pcs w u)" using assms(1)
    by (auto simp: workers_inv_def caller_ok_def inside_once_def split: init_pc.splits)
  ultimately show ?thesis by (intro exI [of _ u]) (auto simp: init_workers_step_def inside_once_def split: init_pc.splits)
qed blast

section \<open>Properties\<close>



end
