(* ===== verification/Task_Args.thy ===== *)
theory Task_Args
  imports Service Fiber_Future
begin

text \<open>
  The function objects of \<open>execute\<close> and \<open>async\<close> (\<open>service_internal\<close> in \<open>include/libasyik/service.hpp\<close>): how the arguments of a task
  are kept until it runs, and how its result reaches the promise. Variables of callers and the tuples of bound
  arguments live in a store, since lvalue arguments are kept by reference.
\<close>

section \<open>Bound arguments\<close>

text \<open>
  The variables of callers (\<open>None\<close>: gone) and the tuples behind \<open>shared_ptr\<close>s. An argument is an lvalue or a temporary with its value; a
  tuple element is a reference or a value.
\<close>

datatype 'a arg = Lvalue nat | Rvalue 'a

record 'a memory =
  vars :: "nat \<Rightarrow> 'a option"
  tuples :: "'a arg list list"

text \<open>The task's function maps its arguments to its result and to what it leaves in them.\<close>

type_synonym ('a, 'v) fn = "'a list \<Rightarrow> (exn + 'v) \<times> 'a list"

datatype ('a, 'v) callable = Plain "('a, 'v) fn" | Bound "('a, 'v) fn" nat

definition bind_args :: "('a, 'v) fn \<Rightarrow> 'a arg list \<Rightarrow> 'a memory \<Rightarrow> ('a, 'v) callable \<times> 'a memory" where
  "bind_args f args m =
     (if args = [] then (Plain f, m)
      else (Bound f (length (tuples m)), m\<lparr>tuples := tuples m @ [args]\<rparr>))"

fun arg_value :: "'a memory \<Rightarrow> 'a arg \<Rightarrow> 'a option" where
  "arg_value m (Lvalue x) = vars m x"
| "arg_value m (Rvalue v) = Some v"

fun arg_write :: "'a arg \<Rightarrow> 'a \<Rightarrow> (nat \<Rightarrow> 'a option) \<Rightarrow> nat \<Rightarrow> 'a option" where
  "arg_write (Lvalue x) v vs = vs(x := Some v)"
| "arg_write (Rvalue _) v vs = vs"

fun arg_left :: "'a arg \<Rightarrow> 'a \<Rightarrow> 'a arg" where
  "arg_left (Lvalue x) v = Lvalue x"
| "arg_left (Rvalue _) v = Rvalue v"

text \<open>
  A call of the callable: \<open>None\<close> is undefined behaviour, a reference to a variable that is gone. What the function leaves in its
  arguments goes to the variables and to the tuple.
\<close>

fun call_task :: "('a, 'v) callable \<Rightarrow> 'a memory \<Rightarrow> ((exn + 'v) \<times> 'a memory) option" where
  "call_task (Plain f) m = Some (fst (f []), m)"
| "call_task (Bound f i) m =
     (let args = tuples m ! i in
      if list_ex (\<lambda>a. arg_value m a = None) args then None
      else
        (case f (map (the \<circ> arg_value m) args) of
           (r, left) \<Rightarrow>
             Some (r, m\<lparr>vars := fold (\<lambda>(a, v). arg_write a v) (zip args left) (vars m),
                        tuples := (tuples m)[i := map2 arg_left args left]\<rparr>)))"

section \<open>Fulfilling the promise\<close>

text \<open>\<open>helper::set\<close> for a function with a result, and for one without.\<close>

definition helper_set :: "(exn + 'v) \<Rightarrow> 'v promise \<Rightarrow> (exn + unit) \<times> 'v promise" where
  "helper_set r p = (case r of Inl e \<Rightarrow> (Inl e, p) | Inr v \<Rightarrow> (Inr (), the (set_value v p)))"

definition helper_void_set :: "(exn + unit) \<Rightarrow> unit promise \<Rightarrow> (exn + unit) \<times> unit promise" where
  "helper_void_set r p = (case r of Inl e \<Rightarrow> (Inl e, p) | Inr _ \<Rightarrow> (Inr (), the (set_value () p)))"

text \<open>
  The function object that \<open>execute\<close> queues: the result or the exception goes to the promise, then the task is counted off.
\<close>

definition execute_body :: "('a, 'v) callable \<Rightarrow> 'a memory \<Rightarrow> 'v promise \<Rightarrow> u32 \<Rightarrow> ('v promise \<times> u32 \<times> 'a memory) option" where
  "execute_body f m p count =
     (case call_task f m of
        None \<Rightarrow> None
      | Some (r, m') \<Rightarrow>
          (case helper_set r p of
             (Inl e, p1) \<Rightarrow> Some (the (set_exception e p1), count - 1, m')
           | (Inr _, p1) \<Rightarrow> Some (p1, count - 1, m')))"

text \<open>The one of \<open>async\<close> also sets the thread's active service for the time of the call.\<close>

definition async_body ::
  "('a, 'v) callable \<Rightarrow> nat \<Rightarrow> nat \<Rightarrow> 'a memory \<Rightarrow> 'v promise \<Rightarrow> u32 \<Rightarrow> tls_state \<Rightarrow> ('v promise \<times> u32 \<times> tls_state \<times> 'a memory) option"
where
  "async_body f fiber as m p errors st =
     (case call_task f m of
        None \<Rightarrow> None
      | Some (r, m') \<Rightarrow>
          (case helper_set r p of
             (Inl e, p1) \<Rightarrow> Some (the (set_exception e p1), errors + 1, async_leave fiber (async_enter fiber as st), m')
           | (Inr _, p1) \<Rightarrow> Some (p1, errors, async_leave fiber (async_enter fiber as st), m')))"

section \<open>Lemmas\<close>

text \<open>What a task gets: a temporary's value from when it was bound, a variable's from when the task runs.\<close>

fun seen :: "'a memory \<Rightarrow> 'a arg \<Rightarrow> 'a" where
  "seen m (Rvalue v) = v"
| "seen m (Lvalue x) = the (vars m x)"

definition alive :: "'a memory \<Rightarrow> 'a arg list \<Rightarrow> bool" where
  "alive m args \<longleftrightarrow> (\<forall>x. Lvalue x \<in> set args \<longrightarrow> vars m x \<noteq> None)"

lemma dangling_iff: "list_ex (\<lambda>a. arg_value m a = None) args \<longleftrightarrow> \<not> alive m args"
proof -
  have "arg_value m a = None \<longleftrightarrow> (\<exists>x. a = Lvalue x \<and> vars m x = None)" for a by (cases a) auto
  then show ?thesis by (auto simp: list_ex_iff alive_def)
qed

lemma seen_value: "the (arg_value m a) = seen m a"
  by (cases a) auto

lemma fold_write_frame:
  "Lvalue x \<notin> set args \<Longrightarrow> fold (\<lambda>(a, v). arg_write a v) (zip args ys) vs x = vs x"
proof (induction args arbitrary: ys vs)
  case (Cons a args)
  then show ?case by (cases ys; cases a) auto
qed simp

lemma fold_write_at:
  "distinct args \<Longrightarrow> length ys = length args \<Longrightarrow> i < length args \<Longrightarrow> args ! i = Lvalue x \<Longrightarrow>
     fold (\<lambda>(a, v). arg_write a v) (zip args ys) vs x = Some (ys ! i)"
proof (induction args arbitrary: ys vs i)
  case (Cons a args)
  obtain y ys' where ys: "ys = y # ys'" using Cons.prems(2) by (cases ys) auto
  show ?case
  proof (cases i)
    case 0
    then have "a = Lvalue x" "Lvalue x \<notin> set args" using Cons.prems by auto
    then show ?thesis using ys 0 by (simp add: fold_write_frame)
  next
    case (Suc j)
    then show ?thesis using Cons.IH [of ys' j] Cons.prems ys by simp
  qed
qed simp

lemma call_bound:
  assumes "bind_args f args m = (c, m1)" and "args \<noteq> []" and "take (length (tuples m1)) (tuples m2) = tuples m1"
  shows "call_task c m2 =
    (if \<not> alive m2 args then None
     else case f (map (seen m2) args) of
       (r, ys) \<Rightarrow> Some (r, m2\<lparr>vars := fold (\<lambda>(a, v). arg_write a v) (zip args ys) (vars m2),
                         tuples := (tuples m2)[length (tuples m) := map2 arg_left args ys]\<rparr>))"
proof -
  have c: "c = Bound f (length (tuples m))" and m1: "tuples m1 = tuples m @ [args]"
    using assms(1,2) by (auto simp: bind_args_def)
  have "tuples m2 ! length (tuples m) = tuples m1 ! length (tuples m)"
    using assms(3) m1 by (metis length_append_singleton lessI nth_take)
  then have "tuples m2 ! length (tuples m) = args" using m1 by simp
  then show ?thesis unfolding c by (simp add: dangling_iff seen_value comp_def Let_def)
qed

lemma body_result:
  "execute_body f m Unset count =
     map_option (\<lambda>(r, m'). ((case r of Inl e \<Rightarrow> Has_exn e | Inr v \<Rightarrow> Has_value v), count - 1, m')) (call_task f m)"
  by (auto simp: execute_body_def helper_set_def split: option.split sum.split)

section \<open>Properties\<close>

text \<open>
  C31. A task runs with the right arguments and delivers its result: when it runs, however long after \<open>execute\<close> returned and whatever other tasks were
  bound meanwhile, its function gets the value a temporary had when the task was made and the value a variable has now, its result or
  exception is what the future holds and the task is counted off; what it leaves in a variable passed by reference is what the caller sees, and no
  other variable changes. Its behaviour is undefined exactly when such a variable is gone.
\<close>

theorem task_runs_on_arguments:
  assumes "bind_args f args m = (c, m1)" and "args \<noteq> []" and "take (length (tuples m1)) (tuples m2) = tuples m1"
    and "f (map (seen m2) args) = (r, ys)" and "length ys = length args"
  shows "(execute_body c m2 Unset count = None \<longleftrightarrow> \<not> alive m2 args) \<and>
    (alive m2 args \<longrightarrow> (\<exists>m3. execute_body c m2 Unset count =
         Some ((case r of Inl e \<Rightarrow> Has_exn e | Inr v \<Rightarrow> Has_value v), count - 1, m3) \<and>
       (\<forall>x. Lvalue x \<notin> set args \<longrightarrow> vars m3 x = vars m2 x) \<and>
       (\<forall>i x. distinct args \<and> i < length args \<and> args ! i = Lvalue x \<longrightarrow> vars m3 x = Some (ys ! i))))"
  using call_bound [OF assms(1-3)] assms(4,5)
  by (auto simp: body_result fold_write_frame fold_write_at)

theorem task_runs_on_arguments_witness:
  "\<exists>m3. execute_body (Bound (\<lambda>xs. (Inr (sum_list xs), [0, 0])) 0) \<lparr>vars = (\<lambda>_. Some 5), tuples = [[Rvalue 7, Lvalue 3]]\<rparr> Unset 1 =
     Some (Has_value (12 :: nat), 0, m3) \<and> vars m3 3 = Some 0"
proof -
  let ?f = "\<lambda>xs :: nat list. (Inr (sum_list xs) :: exn + nat, [0 :: nat, 0])" and ?args = "[Rvalue 7, Lvalue 3] :: nat arg list"
  let ?m = "\<lparr>vars = \<lambda>_. Some 1, tuples = []\<rparr> :: nat memory" and ?m2 = "\<lparr>vars = \<lambda>_. Some 5, tuples = [?args]\<rparr> :: nat memory"
  have b: "bind_args ?f ?args ?m = (Bound ?f 0, ?m\<lparr>tuples := [?args]\<rparr>)" by (simp add: bind_args_def)
  have "alive ?m2 ?args" by (simp add: alive_def)
  moreover have "(1 :: nat) < length ?args \<and> distinct ?args \<and> ?args ! 1 = Lvalue 3" by simp
  ultimately show ?thesis
    using task_runs_on_arguments [OF b, of ?m2 "Inr 12" "[0, 0]" 1] by fastforce
qed

end
