(* ===== verification/Sql.thy ===== *)
theory Sql
  imports Errors
begin

text \<open>
  The SQL connection pool, sessions, transactions and notifications (\<open>include/libasyik/sql.hpp\<close>,
  \<open>src/sql.cpp\<close>). Database connections (\<open>soci::session\<close>, libpq) are outside the library: a
  connection is a number, and what a statement does is an argument. The pool's clients and its
  health check thread take turns in any order; \<open>mtx_\<close> makes each access to the list one step, and
  the health check gives it up while it talks to the database.
\<close>

section \<open>The pool\<close>

text \<open>
  \<open>soci_sessions\<close> is the pool's list. The health check keeps the sessions it has moved out and not
  looked at yet (\<open>to_check\<close>) and the one it is testing (\<open>testing\<close>). \<open>held\<close> are the connections of the
  sessions in use; \<open>next_conn\<close> numbers new connections.
\<close>

record sql_pool =
  soci_sessions :: "nat list"
  to_check :: "nat list"
  testing :: "nat option"
  held :: "nat list"
  next_conn :: nat

definition make_sql_pool :: "nat \<Rightarrow> sql_pool" where
  "make_sql_pool num_pool =
     \<lparr>soci_sessions = [0..<num_pool], to_check = [], testing = None, held = [], next_conn = num_pool\<rparr>"

text \<open>\<open>get_session\<close> polls until the list is not empty: \<open>None\<close> while it waits.\<close>

definition get_session :: "sql_pool \<Rightarrow> (nat \<times> sql_pool) option" where
  "get_session p =
     (case soci_sessions p of
        [] \<Rightarrow> None
      | c # cs \<Rightarrow> Some (c, p\<lparr>soci_sessions := cs, held := c # held p\<rparr>))"

text \<open>The destructor of a session, while the pool still exists.\<close>

definition sql_session_dtor :: "nat \<Rightarrow> sql_pool \<Rightarrow> sql_pool" where
  "sql_session_dtor c p = p\<lparr>soci_sessions := soci_sessions p @ [c], held := remove1 c (held p)\<rparr>"

text \<open>The health check: moving the list out, taking the next session, and the three ends of a test.\<close>

definition health_begin :: "sql_pool \<Rightarrow> sql_pool" where
  "health_begin p = p\<lparr>to_check := soci_sessions p, soci_sessions := []\<rparr>"

definition health_take :: "sql_pool \<Rightarrow> sql_pool" where
  "health_take p = p\<lparr>testing := Some (hd (to_check p)), to_check := tl (to_check p)\<rparr>"

datatype test_result = Test_ok | Test_renewed | Test_renew_failed

definition health_done :: "test_result \<Rightarrow> nat \<Rightarrow> sql_pool \<Rightarrow> sql_pool" where
  "health_done r c p =
     (case r of
        Test_ok \<Rightarrow> p\<lparr>soci_sessions := soci_sessions p @ [c], testing := None\<rparr>
      | Test_renewed \<Rightarrow>
          p\<lparr>soci_sessions := soci_sessions p @ [next_conn p], next_conn := Suc (next_conn p), testing := None\<rparr>
      | Test_renew_failed \<Rightarrow> p\<lparr>soci_sessions := soci_sessions p @ [c], testing := None\<rparr>)"

text \<open>The counter of the health check thread, one turn per second: the new counter and whether a check is due.\<close>

definition health_tick :: "int \<Rightarrow> int \<Rightarrow> int \<times> bool" where
  "health_tick health_check_period i = (if i + 1 \<ge> health_check_period then (0, True) else (i + 1, False))"

inductive pool_step :: "sql_pool \<Rightarrow> sql_pool \<Rightarrow> bool" where
  ps_get: "get_session p = Some (c, p') \<Longrightarrow> pool_step p p'"
| ps_release: "c \<in> set (held p) \<Longrightarrow> pool_step p (sql_session_dtor c p)"
| ps_begin: "to_check p = [] \<Longrightarrow> testing p = None \<Longrightarrow> pool_step p (health_begin p)"
| ps_take: "to_check p \<noteq> [] \<Longrightarrow> testing p = None \<Longrightarrow> pool_step p (health_take p)"
| ps_done: "testing p = Some c \<Longrightarrow> pool_step p (health_done r c p)"

definition all_conns :: "sql_pool \<Rightarrow> nat list" where
  "all_conns p = soci_sessions p @ to_check p @ (case testing p of None \<Rightarrow> [] | Some c \<Rightarrow> [c]) @ held p"

definition pool_inv :: "nat \<Rightarrow> sql_pool \<Rightarrow> bool" where
  "pool_inv n p \<longleftrightarrow> distinct (all_conns p) \<and> length (all_conns p) = n \<and> (\<forall>c \<in> set (all_conns p). c < next_conn p)"

section \<open>Sessions and notifications\<close>

text \<open>
  The connection and its database are outside the library. \<open>'c\<close> is the state of both; a statement gives an
  exception or none, the new state and the notifications libpq read from the connection while it ran. \<open>be_pg\<close>
  says whether the backend is PostgreSQL, \<open>be_socket\<close> whether its socket is valid, \<open>be_consume\<close> is
  \<open>PQconsumeInput\<close>.
\<close>

type_synonym notification = "string \<times> string"
type_synonym 'c backend_op = "'c \<Rightarrow> exn option \<times> 'c \<times> notification list"

record 'c backend =
  be_begin :: "'c backend_op"
  be_commit :: "'c backend_op"
  be_rollback :: "'c backend_op"
  be_query :: "string \<Rightarrow> 'c backend_op"
  be_pg :: "'c \<Rightarrow> bool"
  be_socket :: "'c \<Rightarrow> bool"
  be_consume :: "'c \<Rightarrow> bool \<times> 'c \<times> notification list"

text \<open>
  A session: its connection, the notifications libpq holds for it (\<open>PQnotifies\<close> takes them from the front), the
  handlers by channel, the watcher's flag, whether the watched stream and the retry timer exist, the waits pending
  on the event loop with the flag that they were cancelled, and the calls handed to \<open>service->execute\<close>.
\<close>

datatype wait_on = On_stream | On_retry

record ('c, 'h) sql_session =
  soci_session :: 'c
  received :: "notification list"
  notify_handlers :: "(string \<times> 'h) list"
  notify_running :: bool
  notify_stream :: bool
  notify_retry :: bool
  waits :: "(wait_on \<times> bool) list"
  executed :: "('h \<times> notification) list"

definition session_init :: "'c \<Rightarrow> ('c, 'h) sql_session" where
  "session_init c = \<lparr>soci_session = c, received = [], notify_handlers = [], notify_running = False,
     notify_stream = False, notify_retry = False, waits = [], executed = []\<rparr>"

text \<open>\<open>dispatch_notifications\<close>: every notification leaves libpq's list; one whose channel has a handler becomes a call.\<close>

fun notify_loop :: "(string \<times> 'h) list \<Rightarrow> notification list \<Rightarrow> ('h \<times> notification) list" where
  "notify_loop hs [] = []"
| "notify_loop hs ((ch, payload) # ns) =
     (case map_of hs ch of
        Some handler \<Rightarrow> (handler, (ch, payload)) # notify_loop hs ns
      | None \<Rightarrow> notify_loop hs ns)"

definition dispatch_notifications ::
  "'c backend \<Rightarrow> ('c, 'h) sql_session \<Rightarrow> ('c, 'h) sql_session"
where
  "dispatch_notifications be s =
     (if \<not> notify_running s then s
      else if \<not> be_pg be (soci_session s) then s
      else s\<lparr>received := [], executed := executed s @ notify_loop (notify_handlers s) (received s)\<rparr>)"

text \<open>
  A statement on a worker under \<open>conn_mtx\<close>: the backend call and, when it does not throw, the dispatch; the
  exception comes back through the future.
\<close>

definition run_statement ::
  "'c backend \<Rightarrow> 'c backend_op \<Rightarrow> ('c, 'h) sql_session \<Rightarrow> exn option \<times> ('c, 'h) sql_session"
where
  "run_statement be f s =
     (case f (soci_session s) of
        (e, c, ns) \<Rightarrow>
          let s1 = s\<lparr>soci_session := c, received := received s @ ns\<rparr> in
          (case e of Some x \<Rightarrow> (Some x, s1) | None \<Rightarrow> (None, dispatch_notifications be s1)))"

definition query :: "'c backend \<Rightarrow> string \<Rightarrow> ('c, 'h) sql_session \<Rightarrow> exn option \<times> ('c, 'h) sql_session" where
  "query be q = run_statement be (be_query be q)"

text \<open>\<open>query_rows\<close> also returns the rows the statement gave (\<open>rows\<close> reads them off the connection).\<close>

definition query_rows ::
  "'c backend \<Rightarrow> ('c \<Rightarrow> 'row list) \<Rightarrow> string \<Rightarrow> ('c, 'h) sql_session \<Rightarrow> (exn + 'row list) \<times> ('c, 'h) sql_session"
where
  "query_rows be rows q s =
     (case run_statement be (\<lambda>c. be_query be q c) s of
        (Some x, s1) \<Rightarrow> (Inl x, s1)
      | (None, s1) \<Rightarrow> (Inr (rows (fst (snd (be_query be q (soci_session s))))), s1))"

definition session_begin :: "'c backend \<Rightarrow> ('c, 'h) sql_session \<Rightarrow> exn option \<times> ('c, 'h) sql_session" where
  "session_begin be = run_statement be (be_begin be)"

definition session_commit :: "'c backend \<Rightarrow> ('c, 'h) sql_session \<Rightarrow> exn option \<times> ('c, 'h) sql_session" where
  "session_commit be = run_statement be (be_commit be)"

definition session_rollback :: "'c backend \<Rightarrow> ('c, 'h) sql_session \<Rightarrow> exn option \<times> ('c, 'h) sql_session" where
  "session_rollback be = run_statement be (be_rollback be)"

text \<open>\<open>run_listen_command\<close> ignores failures and dispatches nothing.\<close>

definition run_listen_command :: "'c backend \<Rightarrow> string \<Rightarrow> ('c, 'h) sql_session \<Rightarrow> ('c, 'h) sql_session" where
  "run_listen_command be sql s =
     (case be_query be sql (soci_session s) of
        (e, c, ns) \<Rightarrow> s\<lparr>soci_session := c, received := received s @ ns\<rparr>)"

text \<open>\<open>dup_ok\<close>: the operating system could duplicate the socket (\<open>make_notify_stream\<close>).\<close>

definition listen ::
  "'c backend \<Rightarrow> bool \<Rightarrow> string \<Rightarrow> 'h \<Rightarrow> ('c, 'h) sql_session \<Rightarrow> ('c, 'h) sql_session"
where
  "listen be dup_ok channel handler s =
     (let s1 = run_listen_command be (''LISTEN '' @ channel @ '';'')
                 (s\<lparr>notify_handlers := map_assign channel handler (notify_handlers s)\<rparr>) in
      if \<not> be_pg be (soci_session s1) then s1
      else if \<not> be_socket be (soci_session s1) then s1
      else if \<not> notify_stream s1 \<and> \<not> dup_ok then s1
      else
        let s2 = s1\<lparr>notify_stream := True, notify_retry := True\<rparr> in
        if notify_running s2 then s2
        else s2\<lparr>notify_running := True, waits := waits s2 @ [(On_stream, False)]\<rparr>)"

text \<open>Cancelling a timer or a stream marks the waits pending on it; they complete later, with an error.\<close>

definition cancel_waits :: "wait_on \<Rightarrow> (wait_on \<times> bool) list \<Rightarrow> (wait_on \<times> bool) list" where
  "cancel_waits k ws = map (\<lambda>(k', c). (k', c \<or> k' = k)) ws"

definition unlisten_all :: "'c backend \<Rightarrow> ('c, 'h) sql_session \<Rightarrow> ('c, 'h) sql_session" where
  "unlisten_all be s =
     (let s1 = run_listen_command be ''UNLISTEN *;'' (s\<lparr>notify_handlers := []\<rparr>);
          s2 = (if notify_retry s1 then s1\<lparr>waits := cancel_waits On_retry (waits s1)\<rparr> else s1);
          s3 = (if notify_stream s2 then s2\<lparr>waits := cancel_waits On_stream (waits s2), notify_stream := False\<rparr> else s2)
      in s3\<lparr>notify_running := False\<rparr>)"

definition unlisten :: "'c backend \<Rightarrow> string \<Rightarrow> ('c, 'h) sql_session \<Rightarrow> ('c, 'h) sql_session" where
  "unlisten be channel s =
     (let hs = map_erase channel (notify_handlers s);
          s1 = run_listen_command be (''UNLISTEN '' @ channel @ '';'') (s\<lparr>notify_handlers := hs\<rparr>)
      in if hs = [] then unlisten_all be s1 else s1)"

text \<open>
  The event loop completes the \<open>i\<close>-th pending wait; \<open>busy\<close> says that a query holds the connection. Setting a timer
  again cancels the wait pending on it.
\<close>

definition watcher_fires ::
  "'c backend \<Rightarrow> bool \<Rightarrow> nat \<Rightarrow> ('c, 'h) sql_session \<Rightarrow> ('c, 'h) sql_session"
where
  "watcher_fires be busy i s =
     (if length (waits s) \<le> i then s
      else
        let s1 = s\<lparr>waits := take i (waits s) @ drop (Suc i) (waits s)\<rparr> in
        if snd (waits s ! i) then s1\<lparr>notify_running := False\<rparr>
        else if busy then s1\<lparr>waits := cancel_waits On_retry (waits s1) @ [(On_retry, False)]\<rparr>
        else if \<not> be_pg be (soci_session s1) then s1\<lparr>notify_running := False\<rparr>
        else
          case be_consume be (soci_session s1) of
            (ok, c, ns) \<Rightarrow>
              let s2 = s1\<lparr>soci_session := c, received := received s1 @ ns\<rparr> in
              if \<not> ok then s2\<lparr>notify_running := False\<rparr>
              else
                let s3 = dispatch_notifications be s2 in
                if notify_stream s3 \<and> notify_running s3 then s3\<lparr>waits := waits s3 @ [(On_stream, False)]\<rparr>
                else s3)"

section \<open>Transactions\<close>

text \<open>\<open>sql_transaction\<close>: the session and the flag \<open>handled\<close>.\<close>

record ('c, 'h) sql_transaction =
  txn_session :: "('c, 'h) sql_session"
  handled :: bool

definition txn_ctor ::
  "'c backend \<Rightarrow> ('c, 'h) sql_session \<Rightarrow> exn option \<times> ('c, 'h) sql_transaction"
where
  "txn_ctor be s = (case session_begin be s of (e, s') \<Rightarrow> (e, \<lparr>txn_session = s', handled = False\<rparr>))"

definition txn_begin ::
  "'c backend \<Rightarrow> ('c, 'h) sql_transaction \<Rightarrow> exn option \<times> ('c, 'h) sql_transaction"
where
  "txn_begin be t = (case session_begin be (txn_session t) of (e, s') \<Rightarrow> (e, \<lparr>txn_session = s', handled = False\<rparr>))"

definition txn_commit ::
  "'c backend \<Rightarrow> ('c, 'h) sql_transaction \<Rightarrow> exn option \<times> ('c, 'h) sql_transaction"
where
  "txn_commit be t =
     (case session_commit be (txn_session t) of
        (None, s') \<Rightarrow> (None, t\<lparr>txn_session := s', handled := True\<rparr>)
      | (Some e, s') \<Rightarrow> (Some e, t\<lparr>txn_session := s'\<rparr>))"

definition txn_rollback ::
  "'c backend \<Rightarrow> ('c, 'h) sql_transaction \<Rightarrow> exn option \<times> ('c, 'h) sql_transaction"
where
  "txn_rollback be t =
     (case session_rollback be (txn_session t) of
        (None, s') \<Rightarrow> (None, t\<lparr>txn_session := s', handled := True\<rparr>)
      | (Some e, s') \<Rightarrow> (Some e, t\<lparr>txn_session := s'\<rparr>))"

text \<open>
  The destructor: an exception in it ends the program (destructors are \<open>noexcept\<close>), which is \<open>None\<close>.
\<close>

definition txn_dtor :: "'c backend \<Rightarrow> ('c, 'h) sql_transaction \<Rightarrow> ('c, 'h) sql_session option" where
  "txn_dtor be t =
     (if \<not> handled t then
        (case txn_rollback be t of (None, t') \<Rightarrow> Some (txn_session t') | (Some e, t') \<Rightarrow> None)
      else Some (txn_session t))"

text \<open>
  A client's scope with a transaction: the constructor, some queries, and a commit unless the scope is left early
  (\<open>leave\<close>); an exception leaves the scope, and the destructor runs in every case once the
  constructor has finished.
\<close>

fun run_queries ::
  "'c backend \<Rightarrow> string list \<Rightarrow> ('c, 'h) sql_session \<Rightarrow> exn option \<times> ('c, 'h) sql_session"
where
  "run_queries be [] s = (None, s)"
| "run_queries be (q # qs) s =
     (case query be q s of (Some e, s') \<Rightarrow> (Some e, s') | (None, s') \<Rightarrow> run_queries be qs s')"

definition txn_scope ::
  "'c backend \<Rightarrow> string list \<Rightarrow> bool \<Rightarrow> ('c, 'h) sql_session \<Rightarrow> (exn option \<times> ('c, 'h) sql_session) option"
where
  "txn_scope be qs leave s =
     (case txn_ctor be s of
        (Some e, t) \<Rightarrow> Some (Some e, txn_session t)
      | (None, t) \<Rightarrow>
          (case run_queries be qs (txn_session t) of
             (Some e, s') \<Rightarrow> map_option (\<lambda>r. (Some e, r)) (txn_dtor be (t\<lparr>txn_session := s'\<rparr>))
           | (None, s') \<Rightarrow>
               if leave then map_option (\<lambda>r. (None, r)) (txn_dtor be (t\<lparr>txn_session := s'\<rparr>))
               else (case txn_commit be (t\<lparr>txn_session := s'\<rparr>) of
                       (e, t') \<Rightarrow> map_option (\<lambda>r. (e, r)) (txn_dtor be t'))))"

text \<open>
  What the code relies on a database for: \<open>committed\<close> is its durable content, \<open>working\<close> what the
  transaction in progress sees. A begin starts from the durable content, no query changes it, a commit that succeeds
  makes the working content durable, and nothing else changes it.
\<close>

definition transactional :: "'c backend \<Rightarrow> ('c \<Rightarrow> 'd) \<Rightarrow> ('c \<Rightarrow> 'd) \<Rightarrow> bool" where
  "transactional be committed working \<longleftrightarrow>
     (\<forall>c e c' ns. be_begin be c = (e, c', ns) \<longrightarrow>
        committed c' = committed c \<and> (e = None \<longrightarrow> working c' = committed c)) \<and>
     (\<forall>q c e c' ns. be_query be q c = (e, c', ns) \<longrightarrow> committed c' = committed c) \<and>
     (\<forall>c e c' ns. be_commit be c = (e, c', ns) \<longrightarrow>
        committed c' = (if e = None then working c else committed c)) \<and>
     (\<forall>c e c' ns. be_rollback be c = (e, c', ns) \<longrightarrow> committed c' = committed c)"

section \<open>Lemmas\<close>

lemma remove1_held:
  assumes "c \<in> set xs" and "distinct xs"
  shows "set (remove1 c xs) = set xs - {c} \<and> distinct (remove1 c xs) \<and> Suc (length (remove1 c xs)) = length xs"
proof -
  have "0 < length xs" using assms(1) by (rule length_pos_if_in_set)
  with assms show ?thesis by (simp add: length_remove1)
qed

lemma pool_inv_step: "pool_step p p' \<Longrightarrow> pool_inv n p \<Longrightarrow> pool_inv n p'"
proof (induction rule: pool_step.induct)
  case (ps_get p c p')
  then show ?case
    by (auto simp: get_session_def pool_inv_def all_conns_def split: list.splits option.splits)
next
  case (ps_release c p)
  then have "distinct (held p)" by (simp add: pool_inv_def all_conns_def)
  with ps_release remove1_held [of c "held p"] show ?case
    by (auto simp: sql_session_dtor_def pool_inv_def all_conns_def split: option.splits)
next
  case (ps_begin p)
  then show ?case by (simp add: health_begin_def pool_inv_def all_conns_def)
next
  case (ps_take p)
  then obtain c cs where "to_check p = c # cs" by (cases "to_check p") auto
  with ps_take show ?case by (auto simp: health_take_def pool_inv_def all_conns_def)
next
  case (ps_done p c r)
  then show ?case by (cases r) (auto simp: health_done_def pool_inv_def all_conns_def intro: less_SucI)
qed

lemma pool_inv_run: "pool_step\<^sup>*\<^sup>* (make_sql_pool n) p \<Longrightarrow> pool_inv n p"
proof (induction rule: rtranclp_induct)
  case base
  then show ?case by (simp add: make_sql_pool_def pool_inv_def all_conns_def)
next
  case (step p p')
  then show ?case using pool_inv_step by blast
qed

lemma dispatch_keeps_session [simp]: "soci_session (dispatch_notifications be s) = soci_session s"
  by (simp add: dispatch_notifications_def)

lemma run_statement_session:
  "run_statement be f s = (e, s') \<Longrightarrow> \<exists>ns. f (soci_session s) = (e, soci_session s', ns)"
  by (auto simp: run_statement_def Let_def split: prod.splits option.splits)

lemma notify_loop_filter:
  "notify_loop hs ns =
     map (\<lambda>n. (the (map_of hs (fst n)), n)) (filter (\<lambda>n. map_of hs (fst n) \<noteq> None) ns)"
  by (induction hs ns rule: notify_loop.induct) (auto split: option.split)

lemma committed_begin:
  "transactional be committed working \<Longrightarrow> session_begin be s = (e, s') \<Longrightarrow>
     committed (soci_session s') = committed (soci_session s)"
  unfolding session_begin_def transactional_def using run_statement_session by metis

lemma committed_rollback:
  "transactional be committed working \<Longrightarrow> session_rollback be s = (e, s') \<Longrightarrow>
     committed (soci_session s') = committed (soci_session s)"
  unfolding session_rollback_def transactional_def using run_statement_session by metis

lemma committed_commit:
  "transactional be committed working \<Longrightarrow> session_commit be s = (e, s') \<Longrightarrow>
     committed (soci_session s') = (if e = None then working (soci_session s) else committed (soci_session s))"
  unfolding session_commit_def transactional_def using run_statement_session by metis

lemma committed_queries:
  assumes "transactional be committed working"
  shows "run_queries be qs s = (e, s') \<Longrightarrow> committed (soci_session s') = committed (soci_session s)"
proof (induction qs arbitrary: s)
  case (Cons q qs)
  obtain x s1 where q: "query be q s = (x, s1)" by (cases "query be q s")
  then obtain ns where "be_query be q (soci_session s) = (x, soci_session s1, ns)"
    unfolding query_def using run_statement_session by metis
  then have "committed (soci_session s1) = committed (soci_session s)"
    using assms unfolding transactional_def by metis
  with Cons q show ?case by (cases x) auto
qed simp

lemmas txn_defs = txn_ctor_def txn_begin_def txn_commit_def txn_rollback_def txn_dtor_def

lemma dtor_keeps_committed:
  assumes "transactional be committed working" and "txn_dtor be t = Some s"
  shows "committed (soci_session s) = committed (soci_session (txn_session t))"
  using assms committed_rollback [OF assms(1)]
  by (fastforce simp: txn_defs split: if_splits prod.splits option.splits)

lemma dtor_returns:
  assumes "\<And>c. fst (be_rollback be c) = None"
  shows "\<exists>s. txn_dtor be t = Some s"
proof -
  obtain e s where r: "session_rollback be (txn_session t) = (e, s)" by (cases "session_rollback be (txn_session t)")
  then have "e = None" using run_statement_session assms by (metis fst_conv session_rollback_def)
  with r show ?thesis by (simp add: txn_defs)
qed

text \<open>The destructor of a transaction ends the program when the database refuses the rollback.\<close>

lemma transaction_dtor_terminates:
  "fst (be_rollback be (soci_session s)) \<noteq> None \<Longrightarrow>
     txn_dtor be \<lparr>txn_session = s, handled = False\<rparr> = None"
  by (auto simp: txn_defs session_rollback_def run_statement_def Let_def split: prod.splits option.splits)

section \<open>Properties\<close>

text \<open>A database for examples: the durable statements and those of the transaction in progress.\<close>

definition demo_backend :: "(string list option \<times> string list) backend" where
  "demo_backend = \<lparr>be_begin = (\<lambda>(w, d). (None, (Some d, d), [])),
     be_commit = (\<lambda>(w, d). (None, (None, case w of Some x \<Rightarrow> x | None \<Rightarrow> d), [])),
     be_rollback = (\<lambda>(w, d). (None, (None, d), [])),
     be_query = (\<lambda>q (w, d). (None, (map_option ((#) q) w, d), [(''jobs'', q)])),
     be_pg = (\<lambda>_. True), be_socket = (\<lambda>_. True), be_consume = (\<lambda>c. (True, c, []))\<rparr>"

definition demo_working :: "string list option \<times> string list \<Rightarrow> string list" where
  "demo_working c = (case fst c of Some x \<Rightarrow> x | None \<Rightarrow> snd c)"

lemma demo_transactional: "transactional demo_backend snd demo_working"
  by (auto simp: transactional_def demo_backend_def demo_working_def split: option.split)

text \<open>
  C36. The pool neither loses nor shares connections: whatever the interleaving of clients and health check,
  the number of connections stays the size of the pool, and each connection is in exactly one place, so no two
  sessions in use have the same connection.
\<close>

theorem sql_pool_conserves:
  assumes "pool_step\<^sup>*\<^sup>* (make_sql_pool n) p"
  shows "length (soci_sessions p) + length (to_check p) + (if testing p = None then 0 else 1) + length (held p) = n \<and>
    distinct (soci_sessions p @ to_check p @ held p) \<and>
    (\<forall>c p'. get_session p = Some (c, p') \<longrightarrow> c \<notin> set (held p))"
proof -
  have inv: "pool_inv n p" using pool_inv_run [OF assms] .
  then have "length (soci_sessions p) + length (to_check p) + (if testing p = None then 0 else 1) + length (held p) = n"
    "distinct (soci_sessions p @ to_check p @ held p)"
    by (auto simp: pool_inv_def all_conns_def split: option.splits)
  then show ?thesis by (auto simp: get_session_def split: list.splits)
qed

theorem sql_pool_conserves_witness:
  "length (soci_sessions (health_begin (make_sql_pool 3))) + length (to_check (health_begin (make_sql_pool 3))) = 3"
proof -
  have "pool_step\<^sup>*\<^sup>* (make_sql_pool 3) (health_begin (make_sql_pool 3))"
    using ps_begin [of "make_sql_pool 3"] by (simp add: make_sql_pool_def)
  from sql_pool_conserves [OF this] show ?thesis by (simp add: health_begin_def make_sql_pool_def)
qed



text \<open>
  Notifications reach their handlers: while the watcher runs, a statement that succeeds on a PostgreSQL session
  empties libpq's list, and hands to the service one call for each notification whose channel has a handler, in the
  order of arrival and with its payload, and no others; a statement that throws loses none of them.
\<close>

lemma statement_dispatches:
  assumes "run_statement be f s = (e, s')" and "f (soci_session s) = (e, c, ns)"
    and "notify_running s" and "be_pg be c"
  shows "(e = None \<longrightarrow> received s' = [] \<and>
       executed s' = executed s @
         map (\<lambda>n. (the (map_of (notify_handlers s) (fst n)), n))
           (filter (\<lambda>n. map_of (notify_handlers s) (fst n) \<noteq> None) (received s @ ns))) \<and>
     (e \<noteq> None \<longrightarrow> received s' = received s @ ns \<and> executed s' = executed s)"
  using assms
  by (auto simp: run_statement_def Let_def dispatch_notifications_def notify_loop_filter split: option.splits)

text \<open>
  A stale cancellation silences a new subscription. After \<open>unlisten\<close> cancelled the watcher and \<open>listen\<close> started a
  new one, the completion of the cancelled wait turns \<open>notify_running\<close> off; the new watcher's wait then fires once, its
  notifications stay unread and it is not armed again, although the handler is still registered.
\<close>

lemma stale_cancellation_loses_notifications:
  fixes c :: 'c and ha hb :: 'h
  assumes pg: "\<And>c. be_pg be c" and sock: "\<And>c. be_socket be c" and alive: "\<And>c. fst (be_consume be c)"
  shows "let s = listen be True b hb (unlisten be a (listen be True a ha (session_init c)));
       s1 = watcher_fires be False 0 s; s2 = watcher_fires be False 0 s1
     in notify_running s \<and> length (waits s) = 2 \<and> \<not> notify_running s1 \<and> length (waits s1) = 1 \<and>
        waits s2 = [] \<and> executed s2 = [] \<and> map_of (notify_handlers s2) b = Some hb"
proof -
  define s where "s = listen be True b hb (unlisten be a (listen be True a ha (session_init c)))"
  have s: "waits s = [(On_stream, True), (On_stream, False)]" "notify_running s" "executed s = []"
    "notify_handlers s = [(b, hb)]"
    by (simp_all add: s_def listen_def unlisten_def unlisten_all_def session_init_def run_listen_command_def
        cancel_waits_def map_erase_def Let_def case_prod_beta pg sock)
  define s1 where "s1 = watcher_fires be False 0 s"
  have s1: "waits s1 = [(On_stream, False)]" "\<not> notify_running s1" "executed s1 = []" "notify_handlers s1 = [(b, hb)]"
    by (simp_all add: s1_def watcher_fires_def s Let_def)
  have "waits (watcher_fires be False 0 s1) = []" "executed (watcher_fires be False 0 s1) = []"
    "notify_handlers (watcher_fires be False 0 s1) = [(b, hb)]"
    by (simp_all add: watcher_fires_def dispatch_notifications_def s1 Let_def case_prod_beta pg alive)
  with s s1 show ?thesis by (simp add: Let_def flip: s_def s1_def)
qed

end
