(* ===== verification/Notify_Stream.thy ===== *)
theory Notify_Stream
  imports Sql
begin

text \<open>
  The socket that a database session watches for notifications (\<open>make_notify_stream\<close> and \<open>pg_conn\<close> in \<open>src/sql.cpp\<close>): a duplicate of
  libpq's socket, so that closing the watcher leaves the connection alone. What the operating system answers is an argument.
\<close>

section \<open>Descriptors\<close>

text \<open>The open descriptors of the process. \<open>dup\<close> gives a descriptor that was free, or fails.\<close>

type_synonym fds = "nat list"

definition close_fd :: "nat \<Rightarrow> fds \<Rightarrow> fds" where
  "close_fd fd fds = removeAll fd fds"

text \<open>\<open>assigned\<close>: the Asio object accepted the descriptor.\<close>

definition make_notify_stream :: "nat option \<Rightarrow> bool \<Rightarrow> fds \<Rightarrow> nat option \<times> fds" where
  "make_notify_stream dup assigned fds =
     (case dup of
        None \<Rightarrow> (None, fds)
      | Some fd \<Rightarrow> let fds1 = fd # fds in if \<not> assigned then (None, close_fd fd fds1) else (Some fd, fds1))"

text \<open>On Windows the socket's description is duplicated first (\<open>described\<close>), with its address family.\<close>

datatype family = Af_inet | Af_inet6

datatype protocol = V4 | V6

definition make_notify_stream_win :: "family option \<Rightarrow> nat option \<Rightarrow> bool \<Rightarrow> fds \<Rightarrow> (nat \<times> protocol) option \<times> fds" where
  "make_notify_stream_win described dup assigned fds =
     (case described of
        None \<Rightarrow> (None, fds)
      | Some fam \<Rightarrow>
          (case dup of
             None \<Rightarrow> (None, fds)
           | Some sock \<Rightarrow>
               let protocol = (if fam = Af_inet6 then V6 else V4); fds1 = sock # fds in
               if \<not> assigned then (None, close_fd sock fds1) else (Some (sock, protocol), fds1)))"

text \<open>\<open>pg_conn\<close>: the connection of a PostgreSQL session.\<close>

definition pg_conn :: "string \<Rightarrow> 'c option \<Rightarrow> 'c option" where
  "pg_conn backend_name backend = (if backend_name \<noteq> ''postgresql'' then None else backend)"

section \<open>Lemmas\<close>

text \<open>
  Whatever fails, nothing stays open; a stream that was made is open on a descriptor of its own, and closing it brings
  back the descriptors from before, libpq's socket among them.
\<close>

lemma notify_stream_no_leak:
  assumes "make_notify_stream dup assigned fds = (r, fds')" and "\<forall>fd. dup = Some fd \<longrightarrow> fd \<notin> set fds"
  shows "(r = None \<longrightarrow> fds' = fds) \<and> (\<forall>fd. r = Some fd \<longrightarrow> fd \<in> set fds' \<and> fd \<notin> set fds \<and> close_fd fd fds' = fds)"
  using assms by (auto simp: make_notify_stream_def close_fd_def Let_def removeAll_id split: option.splits if_splits)

lemma notify_stream_win_no_leak:
  assumes "make_notify_stream_win described dup assigned fds = (r, fds')" and "\<forall>fd. dup = Some fd \<longrightarrow> fd \<notin> set fds"
  shows "(r = None \<longrightarrow> fds' = fds) \<and> (\<forall>fd p. r = Some (fd, p) \<longrightarrow> close_fd fd fds' = fds \<and> (p = V6 \<longleftrightarrow> described = Some Af_inet6))"
  using assms by (auto simp: make_notify_stream_win_def close_fd_def Let_def removeAll_id split: option.splits if_splits)

end
