(* ===== verification/Tls_Roots.thy ===== *)
theory Tls_Roots
  imports Tls
begin

text \<open>
  Where trusted certificates come from (\<open>load_system_ca\<close> and \<open>warn_insecure_once\<close> in \<open>src/tls.cpp\<close>, \<open>src/tls_win_certstore.cpp\<close>): the default
  paths, and on Windows the copy of the system's root store into OpenSSL's. The certificates of the default paths, the content of the
  system store and OpenSSL's parser are arguments.
\<close>

section \<open>The stores\<close>

text \<open>
  OpenSSL's store of a context with its error queue, and what the loop holds of the system: open stores, certificate contexts and parsed
  certificates.
\<close>

record 'c roots =
  x509_store :: "'c list"
  err_queue :: nat
  open_stores :: nat
  live_contexts :: nat
  live_x509 :: nat

text \<open>\<open>X509_STORE_add_cert\<close> refuses a duplicate and queues an error.\<close>

definition add_cert :: "'c \<Rightarrow> 'c roots \<Rightarrow> 'c roots" where
  "add_cert c s = (if c \<in> set (x509_store s) then s\<lparr>err_queue := err_queue s + 1\<rparr> else s\<lparr>x509_store := x509_store s @ [c]\<rparr>)"

text \<open>The body of the loop: \<open>d2i\<close> parses the encoded certificate, or queues an error.\<close>

definition copy_cert :: "(string \<Rightarrow> 'c option) \<Rightarrow> string \<Rightarrow> 'c roots \<Rightarrow> 'c roots" where
  "copy_cert d2i der s =
     (case d2i der of
        None \<Rightarrow> s\<lparr>err_queue := err_queue s + 1\<rparr>
      | Some c \<Rightarrow>
          let s1 = add_cert c (s\<lparr>live_x509 := live_x509 s + 1\<rparr>) in s1\<lparr>live_x509 := live_x509 s1 - 1\<rparr>)"

text \<open>
  \<open>CertEnumCertificatesInStore\<close> frees the context it is given and returns the next one; \<open>cert\<close> says whether there is one to free.
\<close>

fun enum_certs :: "(string \<Rightarrow> 'c option) \<Rightarrow> bool \<Rightarrow> string list \<Rightarrow> 'c roots \<Rightarrow> 'c roots" where
  "enum_certs d2i cert [] s = s\<lparr>live_contexts := live_contexts s - (if cert then 1 else 0)\<rparr>"
| "enum_certs d2i cert (der # ders) s =
     enum_certs d2i True ders (copy_cert d2i der (s\<lparr>live_contexts := live_contexts s - (if cert then 1 else 0) + 1\<rparr>))"

text \<open>\<open>None\<close>: the system store cannot be opened.\<close>

definition load_windows_root_store :: "(string \<Rightarrow> 'c option) \<Rightarrow> string list option \<Rightarrow> 'c roots \<Rightarrow> 'c roots" where
  "load_windows_root_store d2i system s =
     (case system of
        None \<Rightarrow> s
      | Some ders \<Rightarrow>
          let s1 = enum_certs d2i False ders (s\<lparr>open_stores := open_stores s + 1\<rparr>)
          in s1\<lparr>open_stores := open_stores s1 - 1, err_queue := 0\<rparr>)"

text \<open>\<open>set_default_verify_paths\<close> gives the certificates found or an error, which is only logged.\<close>

definition load_system_ca ::
  "(string \<Rightarrow> 'c option) \<Rightarrow> bool \<Rightarrow> (error_code + 'c list) \<Rightarrow> string list option \<Rightarrow> 'c roots \<Rightarrow> bool \<times> 'c roots"
where
  "load_system_ca d2i windows paths system s =
     (let s1 = (case paths of Inl ec \<Rightarrow> s | Inr cs \<Rightarrow> fold add_cert cs s)
      in (isl paths, if windows then load_windows_root_store d2i system s1 else s1))"

text \<open>\<open>warn_insecure_once\<close>: the flag and the number of warnings logged.\<close>

definition warn_insecure_once :: "bool \<times> nat \<Rightarrow> bool \<times> nat" where
  "warn_insecure_once st = (case st of (warned, n) \<Rightarrow> (True, if \<not> warned then n + 1 else n))"

section \<open>Lemmas\<close>

lemma copy_cert_fields [simp]:
  "set (x509_store (copy_cert d2i der s)) = set (x509_store s) \<union> set_option (d2i der)"
  "distinct (x509_store (copy_cert d2i der s)) \<longleftrightarrow> distinct (x509_store s)"
  "open_stores (copy_cert d2i der s) = open_stores s" "live_contexts (copy_cert d2i der s) = live_contexts s"
  "live_x509 (copy_cert d2i der s) = live_x509 s"
  by (auto simp: copy_cert_def add_cert_def Let_def split: option.split)

lemma enum_certs_fields:
  "set (x509_store (enum_certs d2i cert ders s)) = set (x509_store s) \<union> \<Union> (set_option ` d2i ` set ders)"
  "distinct (x509_store (enum_certs d2i cert ders s)) \<longleftrightarrow> distinct (x509_store s)"
  "open_stores (enum_certs d2i cert ders s) = open_stores s" "live_x509 (enum_certs d2i cert ders s) = live_x509 s"
  by (induction d2i cert ders s rule: enum_certs.induct) auto

lemma enum_certs_contexts:
  "live_contexts s = n + (if cert then 1 else 0) \<Longrightarrow> live_contexts (enum_certs d2i cert ders s) = n"
  by (induction d2i cert ders s rule: enum_certs.induct) auto

lemma fold_add_cert:
  "set (x509_store (fold add_cert cs s)) = set (x509_store s) \<union> set cs"
  "distinct (x509_store (fold add_cert cs s)) \<longleftrightarrow> distinct (x509_store s)"
  by (induction cs arbitrary: s) (auto simp: add_cert_def)

text \<open>
  Loading the system's certificates adds exactly the ones of the default paths and, on Windows, all those of the system store that
  OpenSSL can parse, each once; nothing is held afterwards and no error is left in the queue.
\<close>

lemma system_roots_complete:
  assumes "load_system_ca d2i windows paths system s = (warned, s')" and "distinct (x509_store s)"
  shows "set (x509_store s') = set (x509_store s) \<union> (case paths of Inl _ \<Rightarrow> {} | Inr cs \<Rightarrow> set cs) \<union>
      (if windows then \<Union> (set_option ` d2i ` set (case system of None \<Rightarrow> [] | Some ders \<Rightarrow> ders)) else {}) \<and>
    distinct (x509_store s') \<and> (windows \<and> system \<noteq> None \<longrightarrow> err_queue s' = 0)"
  using assms
  by (auto simp: load_system_ca_def load_windows_root_store_def Let_def enum_certs_fields fold_add_cert split: sum.splits option.splits if_splits)

lemma windows_store_released:
  "open_stores (load_windows_root_store d2i system s) = open_stores s \<and>
   live_contexts (load_windows_root_store d2i system s) = live_contexts s \<and> live_x509 (load_windows_root_store d2i system s) = live_x509 s"
  using enum_certs_contexts [of "s\<lparr>open_stores := open_stores s + 1\<rparr>" "live_contexts s" False]
  by (simp add: load_windows_root_store_def Let_def enum_certs_fields split: option.split)

lemma warned_once: "snd ((warn_insecure_once ^^ n) (False, 0)) = min 1 n"
proof -
  have "(warn_insecure_once ^^ n) (False, 0) = (0 < n, min 1 n)" by (induction n) (auto simp: warn_insecure_once_def)
  then show ?thesis by simp
qed

end
