(* ===== verification/Profiling.thy ===== *)
theory Profiling
  imports Asyik_Prelude
begin

text \<open>
  The counters of the optional profiler (\<open>include/libasyik/profiling.hpp\<close>): two atomic words for each stage of a request, written by
  all threads without locks. Each atomic operation is one step; \<open>record\<close> is two of them.
\<close>

section \<open>A stage\<close>

record stage_stat =
  st_count :: u64
  st_total_ns :: u64

datatype atomic_op = Add_count | Add_total u64 | Clear_count | Clear_total

fun apply_op :: "atomic_op \<Rightarrow> stage_stat \<Rightarrow> stage_stat" where
  "apply_op Add_count s = s\<lparr>st_count := st_count s + 1\<rparr>"
| "apply_op (Add_total ns) s = s\<lparr>st_total_ns := st_total_ns s + ns\<rparr>"
| "apply_op Clear_count s = s\<lparr>st_count := 0\<rparr>"
| "apply_op Clear_total s = s\<lparr>st_total_ns := 0\<rparr>"

definition record_ops :: "u64 \<Rightarrow> atomic_op list" where
  "record_ops ns = [Add_count, Add_total ns]"

definition reset_ops :: "atomic_op list" where
  "reset_ops = [Clear_count, Clear_total]"

definition snapshot :: "stage_stat \<Rightarrow> u64 \<times> u64" where
  "snapshot s = (st_count s, st_total_ns s)"

section \<open>The pipeline\<close>

record http_pipeline_stats =
  read_request :: stage_stat
  route_match :: stage_stat
  handler :: stage_stat
  write_response :: stage_stat
  total :: stage_stat

definition zero_stat :: stage_stat where
  "zero_stat = \<lparr>st_count = 0, st_total_ns = 0\<rparr>"

definition g_http_prof :: http_pipeline_stats where
  "g_http_prof = \<lparr>read_request = zero_stat, route_match = zero_stat, handler = zero_stat, write_response = zero_stat,
     total = zero_stat\<rparr>"

definition clear_stat :: "stage_stat \<Rightarrow> stage_stat" where
  "clear_stat s = fold apply_op reset_ops s"

definition reset_profile :: "http_pipeline_stats \<Rightarrow> http_pipeline_stats" where
  "reset_profile p =
     p\<lparr>read_request := clear_stat (read_request p), route_match := clear_stat (route_match p),
       handler := clear_stat (handler p), write_response := clear_stat (write_response p), total := clear_stat (total p)\<rparr>"

section \<open>The report\<close>

text \<open>Floating-point arithmetic is an argument: conversion, literals, division, product, and the test for a positive number.\<close>

record 'd fp =
  fp_of :: "u64 \<Rightarrow> 'd"
  fp_lit :: "nat \<Rightarrow> 'd"
  fp_div :: "'d \<Rightarrow> 'd \<Rightarrow> 'd"
  fp_mul :: "'d \<Rightarrow> 'd \<Rightarrow> 'd"
  fp_pos :: "'d \<Rightarrow> bool"

text \<open>What is printed, line by line.\<close>

datatype 'd line = Title | Requests u64 'd | Newline | Heading | Rule | Row string u64 'd 'd | Total_row string u64 'd

definition avg_us :: "'d fp \<Rightarrow> u64 \<times> u64 \<Rightarrow> 'd" where
  "avg_us fp s = (if 0 < fst s then fp_div fp (fp_div fp (fp_of fp (snd s)) (fp_lit fp 1000)) (fp_of fp (fst s)) else fp_lit fp 0)"

definition share :: "'d fp \<Rightarrow> 'd \<Rightarrow> 'd \<Rightarrow> 'd" where
  "share fp total_avg avg =
     (if fp_pos fp total_avg then fp_mul fp (fp_div fp avg total_avg) (fp_lit fp 100) else fp_lit fp 0)"

definition report :: "'d fp \<Rightarrow> 'd \<Rightarrow> http_pipeline_stats \<Rightarrow> 'd line list" where
  "report fp elapsed_sec p =
     (let rows = [(''read_request'', snapshot (read_request p)), (''route_match'', snapshot (route_match p)),
                  (''handler'', snapshot (handler p)), (''write_response'', snapshot (write_response p))];
          tot = snapshot (total p);
          nreq = fst tot
      in [Title] @
         (if fp_pos fp elapsed_sec \<and> 0 < nreq then [Requests nreq (fp_div fp (fp_of fp nreq) elapsed_sec)] else []) @
         [Newline, Heading, Rule] @
         map (\<lambda>(name, s). Row name (fst s) (avg_us fp s) (share fp (avg_us fp tot) (avg_us fp s))) rows @
         [Rule, Total_row ''TOTAL'' nreq (avg_us fp tot)])"

text \<open>\<open>ASYIK_PROF_NS\<close>: the nanoseconds since \<open>start\<close>.\<close>

definition prof_ns :: "int \<Rightarrow> int \<Rightarrow> u64" where
  "prof_ns start now = word_of_int (now - start)"

section \<open>Threads\<close>

text \<open>Threads with the atomic operations each has still to do; any of them may do its next one.\<close>

inductive prof_step :: "stage_stat \<times> atomic_op list list \<Rightarrow> stage_stat \<times> atomic_op list list \<Rightarrow> bool" where
  ps_step: "i < length ps \<Longrightarrow> ps ! i = x # xs \<Longrightarrow> prof_step (s, ps) (apply_op x s, ps[i := xs])"

fun adds :: "atomic_op \<Rightarrow> u64 \<times> u64" where
  "adds Add_count = (1, 0)"
| "adds (Add_total ns) = (0, ns)"
| "adds _ = (0, 0)"

definition pending_count :: "atomic_op list list \<Rightarrow> u64" where
  "pending_count ps = sum_list (map (fst \<circ> adds) (concat ps))"

definition pending_total :: "atomic_op list list \<Rightarrow> u64" where
  "pending_total ps = sum_list (map (snd \<circ> adds) (concat ps))"

definition only_records :: "atomic_op list list \<Rightarrow> bool" where
  "only_records ps \<longleftrightarrow> list_all (list_all (\<lambda>x. x \<noteq> Clear_count \<and> x \<noteq> Clear_total)) ps"

definition recorders :: "u64 list list \<Rightarrow> atomic_op list list" where
  "recorders ts = map (\<lambda>ns. concat (map record_ops ns)) ts"

section \<open>Lemmas\<close>

lemma pending_update:
  assumes "i < length ps" and "ps ! i = x # xs"
  shows "pending_count ps = fst (adds x) + pending_count (ps[i := xs])"
    and "pending_total ps = snd (adds x) + pending_total (ps[i := xs])"
proof -
  have "ps = take i ps @ (x # xs) # drop (Suc i) ps" using assms by (metis id_take_nth_drop)
  moreover have "ps[i := xs] = take i ps @ xs # drop (Suc i) ps" using assms(1) by (rule upd_conv_take_nth_drop)
  ultimately have c: "concat ps = concat (take i ps) @ x # xs @ concat (drop (Suc i) ps)"
    "concat (ps[i := xs]) = concat (take i ps) @ xs @ concat (drop (Suc i) ps)"
    by (metis append_Cons concat.simps(2) concat_append, simp)
  show "pending_count ps = fst (adds x) + pending_count (ps[i := xs])"
    "pending_total ps = snd (adds x) + pending_total (ps[i := xs])"
    unfolding pending_count_def pending_total_def c by simp_all
qed

lemma prof_step_sums:
  assumes "prof_step c c'" and "only_records (snd c)"
  shows "only_records (snd c') \<and>
    st_count (fst c') + pending_count (snd c') = st_count (fst c) + pending_count (snd c) \<and>
    st_total_ns (fst c') + pending_total (snd c') = st_total_ns (fst c) + pending_total (snd c)"
  using assms
proof cases
  case (ps_step i ps x xs s)
  have "list_all (\<lambda>x. x \<noteq> Clear_count \<and> x \<noteq> Clear_total) (ps ! i)"
    using assms(2) ps_step(1,3) by (simp add: only_records_def list_all_length)
  then have "x \<noteq> Clear_count" "x \<noteq> Clear_total" "list_all (\<lambda>x. x \<noteq> Clear_count \<and> x \<noteq> Clear_total) xs"
    by (simp_all add: ps_step(4))
  moreover from this(3) have "only_records (ps[i := xs])"
    using assms(2) set_update_subset_insert [of ps i xs] by (auto simp: only_records_def ps_step(1) list_all_iff)
  ultimately show ?thesis using pending_update [OF ps_step(3,4)] by (cases x) (simp_all add: ps_step(1,2))
qed

lemma prof_run_sums:
  "prof_step\<^sup>*\<^sup>* c c' \<Longrightarrow> only_records (snd c) \<Longrightarrow> only_records (snd c') \<and>
    st_count (fst c') + pending_count (snd c') = st_count (fst c) + pending_count (snd c) \<and>
    st_total_ns (fst c') + pending_total (snd c') = st_total_ns (fst c) + pending_total (snd c)"
  by (induction rule: rtranclp_induct) (auto dest: prof_step_sums)

lemma recorders_pending:
  "only_records (recorders ts)"
  "pending_count (recorders ts) = of_nat (length (concat ts))"
  "pending_total (recorders ts) = sum_list (concat ts)"
proof -
  have "map (fst \<circ> adds) (concat (map record_ops ns)) = concat (map (\<lambda>_. [1, 0]) ns)" 
    "map (snd \<circ> adds) (concat (map record_ops ns)) = concat (map (\<lambda>n. [0, n]) ns)" for ns
    by (induction ns) (simp_all add: record_ops_def)
  moreover have "sum_list (concat (map (\<lambda>_. [1, 0 :: u64]) ns)) = of_nat (length ns)"
    "sum_list (concat (map (\<lambda>n. [0, n]) ns)) = sum_list ns" for ns :: "u64 list"
    by (induction ns) simp_all
  ultimately show "pending_count (recorders ts) = of_nat (length (concat ts))"
    "pending_total (recorders ts) = sum_list (concat ts)"
    by (induction ts) (simp_all add: pending_count_def pending_total_def recorders_def)
  show "only_records (recorders ts)"
    by (auto simp: only_records_def recorders_def record_ops_def list_all_iff)
qed

text \<open>
  When all threads are done, the counters have grown by the number of records and the sum of their times (modulo \<open>2\<^sup>6\<^sup>4\<close>),
  however the threads took turns: no update is lost.
\<close>

lemma profiling_counts:
  assumes "prof_step\<^sup>*\<^sup>* (s, recorders ts) (s', ps)" and "concat ps = []"
  shows "snapshot s' = (st_count s + of_nat (length (concat ts)), st_total_ns s + sum_list (concat ts))"
  using prof_run_sums [OF assms(1)] assms(2) recorders_pending [of ts]
  by (simp add: snapshot_def pending_count_def [of ps] pending_total_def [of ps])

text \<open>A reset between the two halves of a record leaves a time without a count.\<close>

lemma reset_splits_record:
  "snapshot (fold apply_op ([Add_count] @ reset_ops @ [Add_total ns]) s) = (0, ns)"
  by (simp add: snapshot_def reset_ops_def)

text \<open>
  A report divides only by counts and times that are positive: what it prints does not depend on how division by zero behaves. (The
  conversion of a positive count is positive.)
\<close>

lemma report_divides_safely:
  assumes "\<And>n. 0 < n \<Longrightarrow> fp_pos fp (fp_of fp n)" and "fp_pos fp (fp_lit fp 1000)"
    and "\<And>x y. fp_pos fp y \<Longrightarrow> fp_div fp x y = fp_div fp' x y" and "fp' = fp\<lparr>fp_div := fp_div fp'\<rparr>"
  shows "report fp elapsed p = report fp' elapsed p"
proof -
  have same: "fp_of fp' = fp_of fp" "fp_lit fp' = fp_lit fp" "fp_mul fp' = fp_mul fp" "fp_pos fp' = fp_pos fp"
    by (subst assms(4), simp)+
  have "avg_us fp' s = avg_us fp s" for s using assms(1-3) by (simp add: avg_us_def same)
  moreover have "share fp' a b = share fp a b" for a b using assms(3) by (simp add: share_def same)
  ultimately show ?thesis using assms(3) by (simp add: report_def Let_def same)
qed

lemma report_rows:
  "[(name, n). Row name n a b \<leftarrow> report fp elapsed p] =
     [(''read_request'', st_count (read_request p)), (''route_match'', st_count (route_match p)),
      (''handler'', st_count (handler p)), (''write_response'', st_count (write_response p))]"
  by (simp add: report_def snapshot_def Let_def)

lemma reset_profile_zero: "reset_profile p = g_http_prof"
  by (cases p) (simp add: reset_profile_def g_http_prof_def clear_stat_def reset_ops_def zero_stat_def)

end
