(* ===== verification/Spec2Isabelle.thy ===== *)
theory Spec2Isabelle
  imports Limiter_Threads Http_Files Static_Windows Ws_Session Digest_Exchange Conn_Object Token_Compat Pools Workers Task_Args Notify_Stream Tls_Roots Profiling
begin

text \<open>
  A verification development for libasyik, a C++ library for asynchronous programs on fibers: a service that runs tasks on
  fibers and worker threads, an HTTP and websocket server and client, static files, a cache, a rate limiter, an SQL
  connection pool and TLS. File names below are relative to \<open>src/\<close>; headers are under \<open>include/libasyik/\<close>.

  \<^bold>\<open>How the parts interact.\<close> A \<open>service\<close> owns an event loop and a queue of tasks; \<open>execute\<close> starts a task on a fiber of
  the service's thread, \<open>async\<close> hands one to a pool of worker threads. Blocking operations are Asio
  operations whose completion fulfils a promise (\<open>use_fiber_future\<close>). An HTTP server accepts connections and runs one
  fiber for each; the fiber reads requests, finds a route in the route table, calls its callback (static files are
  one) and writes the response. The client, the SQL sessions and the TLS handshakes are called from fibers.

  \<^bold>\<open>Conventions.\<close> Each component is a theory with the same layout: data, operations in the order of the code,
  lemmas, properties. Unsigned integers that may wrap are words (\<open>u16\<close>, \<open>u32\<close>, \<open>u64\<close>); clock readings are \<open>int\<close>
  milliseconds. Exceptions are values of a sum or option type. Code outside the repository (Boost.Asio, Beast, URL and
  Regex, OpenSSL, soci and libpq, the operating system) is an argument of the definitions that use it, and what
  a property needs of it is a named hypothesis, with an instance that satisfies it. A fiber runs until it
  suspends, so the code between two suspension points is one step; where several threads or fibers take turns there is
  a step relation, and the properties hold in every reachable state.

  \<^bold>\<open>Theories.\<close>
  \<^item> \<open>Asyik_Prelude\<close>: integer types, \<open>std::string\<close> searches, number formatting, \<open>std::map\<close> as association lists.
  \<^item> \<open>Memcache\<close> (\<open>memcache.hpp\<close>): the segmented cache, an operation at a time, and its pruning loop. An abstract map with
    lifetimes is the specification and the segment list refines it; entries live as long as promised, a hit extends
    the lifetime, \<open>get_or_put\<close> computes once, and the number of segments is bounded. Its clients rely on the locale
    \<open>expiring_store\<close>.
  \<^item> \<open>Memcache_Threads\<close> (\<open>memcache.hpp\<close>): the thread policies, and the operations access by access with those of other threads in
    between. Under the mutex they are linearisable, and \<open>get_or_put\<close> creates a value once; without it they are not.
  \<^item> \<open>Rate_Limit\<close> (\<open>rate_limit.hpp\<close>): the token bucket in 32-bit words over any store that keeps the contract of the locale
    \<open>quota_store\<close>, and over the cache. No interval is granted more than the bucket and the refill allow, also when the clock wraps and when
    the cache forgets a bucket; a checkpoint grants what is there and refills at the rate; overflow of the constructor's check is
    made explicit.
  \<^item> \<open>Limiter_Threads\<close> (\<open>rate_limit.hpp\<close>): concurrent calls of the limiter, with resets and the pruning of the cache in between: the bound
    holds with one more bucket for every reset, and a reset can be lost.
  \<^item> \<open>Std_Regex\<close>, \<open>Route_Spec\<close>, \<open>Route_Table\<close> (\<open>http_common.cpp\<close>, \<open>route_table.hpp\<close>, \<open>http_server.hpp\<close>): the
    fragment of \<open>std::regex\<close> that route patterns use, the translation of route specifications, and the three-tier
    table. A pattern matches exactly the targets its specification means; the three tiers agree with a linear scan;
    \<open>not_found_error\<close> is raised exactly when nothing matches. The interface between table and regular expressions
    is the locale \<open>route_regex\<close>, interpreted on the regular expression model.
  \<^item> \<open>Http_Static\<close> (\<open>http_static.hpp\<close>, \<open>http_static.cpp\<close>): decoding, path resolution, conditional and range requests. Files
    outside the root never influence a response; contents, ranges and validators are right. \<open>Static_Windows\<close> has the helpers of the
    Windows branch.
  \<^item> \<open>Http_Connection\<close> (\<open>http.hpp\<close>, \<open>http_server.hpp\<close>, \<open>http_client.hpp\<close>): the fiber of a server connection, and accepting,
    registering and closing connections. Answers come in the order of the requests without state leaking between
    them; errors are answered and end the connection; \<open>close\<close> reaches every live connection.
  \<^item> \<open>Digest_Auth\<close> (\<open>internal/digestauth.hpp\<close>): answering a digest challenge; the answer is the request digest of RFC
    2617, and the one malformed challenge that is read out of bounds is characterised.
  \<^item> \<open>Http_Client\<close> (\<open>http.hpp\<close>, \<open>http_client.hpp\<close>, \<open>http_common.cpp\<close>, \<open>http_websocket*.cpp\<close>): URLs, requests, multipart
    responses, the retry with credentials, and the steps of opening a websocket. A request is sent at most
    twice; part boundaries are found however the network cuts the input.
  \<^item> \<open>Client_Tls\<close> (\<open>http.hpp\<close>): opening the stream of a client request, joined with \<open>Http_Client\<close> and \<open>Tls\<close>: an HTTPS
    request is sent only to a peer whose certificate was verified, unless a context that does not verify was chosen.
  \<^item> \<open>Client_Time\<close> (\<open>http.hpp\<close>): the client with a clock, its deadlines and the end of a request: a request returns in bounded time,
    and without delays the clock changes nothing.
  \<^item> \<open>Ws_Client\<close> (\<open>http_websocket*.cpp\<close>): opening a client websocket with its deadlines and TLS context: bounded, and for \<open>wss\<close> only to a
    verified peer.
  \<^item> \<open>Ws_Session\<close> (\<open>http_websocket*.cpp\<close>, \<open>http.hpp\<close>): a client's websocket against the server's connection fiber: it opens exactly when the
    server has a route for its target, that route's callback runs, and messages arrive in order.
  \<^item> \<open>End_To_End\<close> (\<open>http.hpp\<close>): the client of \<open>Http_Client\<close> connected to the server of \<open>Http_Connection\<close>: what a handler answers is what the
    client gets. \<open>Digest_Exchange\<close> adds a handler that asks for credentials: the challenge is answered and the second answer returned.
  \<^item> \<open>Pools\<close> (\<open>object_pool.hpp\<close>, \<open>pooled_guarded_stack.hpp\<close>): the two recycling allocators, as interpretations of one
    locale \<open>recycler\<close>: nothing is handed out twice, nothing leaks, every stack has its guard page.
  \<^item> \<open>Errors\<close> (\<open>error.hpp\<close>): the exception classes as an order (a \<open>catch\<close> clause catches what is below its class) and the
    error codes the library tells apart.
  \<^item> \<open>Fiber_Future\<close> (\<open>internal/use_fiber_future.hpp\<close>, \<open>internal/detail/use_fiber_future_impl.hpp\<close>): the completion token:
    promises, the handlers for each kind of completion signature, packaged handlers and the executor. The locale
    \<open>completion_handler\<close> states what a handler promises and both kinds of handlers are interpretations: every operation
    settles, a result never changes, and it has the type of the signature or the exception of the error code.
  \<^item> \<open>Completion_Token\<close> (\<open>internal/use_fiber_future.hpp\<close>, \<open>internal/detail/use_fiber_future_impl.hpp\<close>, \<open>internal/asio_internal.hpp\<close>): how an
    operation is started with the token, over a store of promises with several operations under way, and the wrappers of the
    library's operations. The locale \<open>token\<close> extends \<open>completion_handler\<close> and both kinds of tokens are interpretations: every
    operation has a promise of its own and delivers to its own future only.
  \<^item> \<open>Token_Compat\<close> (\<open>internal/detail/use_fiber_future_impl.hpp\<close>): what the preprocessor selects for compilers without variadic templates,
    without exceptions or without deduced traits: where such a build compiles it behaves as the other theories say.
  \<^item> \<open>Websocket\<close> (\<open>http_websocket.hpp\<close>, \<open>internal/asio_internal.hpp\<close>): messages on an open websocket, on top of the completion
    token, with Beast's stream as an argument. Messages arrive in order, whole and with their kind.
  \<^item> \<open>Http_Server\<close> (\<open>http_server.hpp\<close>, \<open>http_server_plain.cpp\<close>, \<open>http_server_ssl.cpp\<close>, \<open>http_common.cpp\<close>, \<open>http.hpp\<close>): creating
    servers, the TLS handshake and shutdown of a connection, and the whole fiber of a connection composed of these, the
    completion token and \<open>Http_Connection\<close>. A client cannot hold a connection in the handshake or shutdown, and each error
    code of a read has its reaction.
  \<^item> \<open>Conn_Fiber\<close> (\<open>http.hpp\<close>): the same fiber from one suspension point to the next; it has exactly the results of the task as one
    function.
  \<^item> \<open>Http_System\<close> (\<open>http.hpp\<close>, \<open>http_server.hpp\<close>, \<open>service.cpp\<close>): the accept loop, the service and the fibers of all connections,
    interleaved. Together they refine the three components, no connection notices the others, and after \<open>close\<close> the fibers drain.
  \<^item> \<open>Conn_Object\<close> (\<open>http_server.hpp\<close>): connection objects, and that a handler reaches its own connection.
  \<^item> \<open>Http_Files\<close> (\<open>http_server.hpp\<close>): the static file handler as a route; the properties below lift the confinement and the
    content of static files to what a connection sends.
  \<^item> \<open>Scheduler\<close>, \<open>Service\<close> (\<open>asyik_round_robin.hpp\<close>, \<open>service.hpp\<close>, \<open>service.cpp\<close>): the fiber scheduler, the service's
    tasks, its shutdown and its worker pool. Counters are exact, futures are fulfilled once with the task's result, and
    \<open>run\<close> returns after a bounded shutdown with no task left behind.
  \<^item> \<open>Task_Args\<close> (\<open>service.hpp\<close>): the function objects of tasks: arguments kept by value or by reference, and their results.
  \<^item> \<open>Workers\<close> (\<open>service.hpp\<close>, \<open>service.cpp\<close>): the start of the worker pool when several threads call \<open>async\<close> at once, one
    shared access per step; the pool is started once, and no task is pushed before its channel exists.
  \<^item> \<open>Sql\<close> (\<open>sql.hpp\<close>, \<open>sql.cpp\<close>): pool, health check, sessions, notifications, transactions. No connection is lost or shared;
    a transaction scope is all or nothing; notifications reach their handlers.
  \<^item> \<open>Notify_Stream\<close> (\<open>sql.cpp\<close>): the duplicate of libpq's socket; no descriptor leaks.
  \<^item> \<open>Tls\<close> (\<open>tls.hpp\<close>, \<open>tls.cpp\<close>): contexts are configured as asked or refused, the handshake checks the host, and its
    errors have the right class; a request's context comes from the request, the service or the process, and a server picks the
    first of its protocols that the client offers.
  \<^item> \<open>Tls_Roots\<close> (\<open>tls.cpp\<close>, \<open>tls_win_certstore.cpp\<close>): the system's trusted certificates; all that can be parsed are loaded, nothing
    is held afterwards.
  \<^item> \<open>Profiling\<close> (\<open>profiling.hpp\<close>): the profiler's atomic counters and its report; no update is lost however the threads take turns.

  \<^bold>\<open>Bounds and fuel.\<close> The loops of the code are total functions or step relations, with two exceptions: the number of parts of
  a multipart response is bounded by fuel (in \<open>Client_Time\<close> too), and \<open>Http_Client.multipart_fuel_enough\<close> shows that more than the
  bytes of the response is enough; the regular expression matcher is bounded by the length of its input, which its lemmas
  show is enough.

  \<^bold>\<open>Concurrency.\<close> The fibers of one service take turns on one thread and switch only where they suspend, so \<open>Http_System\<close> and \<open>Service\<close>
  interleave whole steps between suspension points. What threads share (the cache, the limiter, the start of the worker pool, the
  profiler's counters) is interleaved access by access.

  \<^bold>\<open>Not modelled.\<close> Logging, the sockets themselves, websocket frames and the databases behind SQL sessions: calls of other libraries
  without state of their own here. Forward declarations, type aliases and the declarations in class bodies carry no behaviour. The
  benchmarks and the tests are not part of the library. A user's function that calls back into the cache while the cache holds
  its mutex is outside the model of \<open>Memcache_Threads\<close>: \<open>visit\<close> and \<open>get_or_put\<close> take functions of values.
\<close>

section \<open>Properties\<close>



text \<open>
  A file is served over a connection: on a server whose only route is \<open>serve_static\<close>, a \<open>GET\<close> request that the route's
  pattern accepts, that resolves to a regular file and has no conditional or range header is answered first with 200 and the
  file's content.
\<close>

lemma static_file_on_wire:
  assumes "beast_laws env" and "e_http_routes env = tbl"
    and "serve_static compile url_prefix (static_callback (e_iequals env) reg root_dir cfg sys) empty_table = Some tbl"
    and "compile (static_pattern url_prefix) = Some r" and "e_search env (rq_target q) r = Some args"
    and "e_iequals env ''GET'' (rq_method q)" and "\<not> rq_upgrade q"
    and "header_field (e_iequals env) q ''If-None-Match'' = []" and "header_field (e_iequals env) q ''If-Modified-Since'' = []"
    and "header_field (e_iequals env) q ''Range'' = []"
    and "resolve_path reg root_dir = Some root"
    and "CHR 0x00 \<notin> set (sub_target (without_slash (without_slash url_prefix)) (rq_target q))"
    and "locate sys cfg (canonical root)
           (full_path_of (canonical root) (sub_target (without_slash (without_slash url_prefix)) (rq_target q))) = Inr (p, st)"
    and "serves sys p content" and "file_size st = int (length content)"
  shows "\<exists>res acts. fst (conn_task env None None q0 fw (Read_ok q rest True ws_ok None # evs)) = Sent res # acts \<and>
    rs_status res = 200 \<and> rs_body res = content"
proof -
  let ?cb = "static_callback (e_iequals env) reg root_dir cfg sys (without_slash url_prefix)"
  let ?r0 = "prepare_response env ((acquire_request env q0)\<lparr>beast_request := q, buffer := rest\<rparr>)"
  define r2 where "r2 = dispatch_request env True ?r0"
  have tbl: "fallback_routes tbl = [(''GET'', r, ?cb)]" "exact_routes tbl = []" "prefix_routes tbl = []"
    using assms(3,4)
    by (auto simp: serve_static_def on_http_request_regex_def add_regex_route_def empty_table_def without_slash_def)
  obtain hs where cb: "?cb q (beast_response ?r0) args =
      ((q, (beast_response ?r0)\<lparr>rs_status := 200, rs_body := content, rs_headers := hs\<rparr>, False), None)"
    using static_callback_plain [OF assms(8-15)] by blast
  have q: "beast_request ?r0 = q" "\<not> manual_response ?r0" by (simp_all add: prepare_response_def acquire_request_def)
  have "find_route (e_iequals env) (e_search env) (rq_method q) (rq_target q) (e_http_routes env) =
      Inr ((''GET'', r, ?cb), args)"
    unfolding assms(2) using tbl assms(6,5) by (rule find_only_route)
  then have r2: "\<not> manual_response r2 \<and> rs_status (beast_response r2) = 200 \<and> rs_body (beast_response r2) = content"
    by (simp add: r2_def dispatch_request_def q cb Let_def)
  let ?res = "e_prepare_payload env (beast_response r2)"
  have "rs_status ?res = 200 \<and> rs_body ?res = content" using assms(1) r2 by (simp add: beast_laws_def)
  moreover have "\<exists>acts. fst (conn_task env None None q0 fw (Read_ok q rest True ws_ok None # evs)) = Sent ?res # acts"
    using r2 assms(7)
    by (auto simp: conn_task_def Let_def r2_def split: prod.split conn_end.split option.split)
  ultimately show ?thesis by blast
qed

end
